(* ===== verification/Prelude.thy ===== *)
theory Prelude
  imports Complex_Main "HOL-Library.Word"
begin

text \<open>
  What every component of the development shares: byte strings, Go's error values, the three ways
  in which a Go statement can end (it returns, it blocks, it panics), and the generic lemmas and
  fact collections that the component theories use.

  A Go \<open>[]byte\<close> is a list of 8-bit words; a Go \<open>string\<close> is an Isabelle \<open>string\<close> (both count
  bytes).  A Go \<open>int\<close> that is a length or a configured number is an \<open>int\<close>; where the code's
  arithmetic can really wrap around (the size parser) it is kept at its width.
\<close>

type_synonym byte = "8 word"
type_synonym bytes = "byte list"

text \<open>The conversion \<open>[]byte(s)\<close> of a Go string.\<close>

definition string_bytes :: "string \<Rightarrow> bytes" where
  "string_bytes s = map of_char s"

lemma length_string_bytes [simp]: "length (string_bytes s) = length s"
  by (simp add: string_bytes_def)

subsection \<open>Error values\<close>

text \<open>
  \<open>errors.New\<close> and \<open>fmt.Errorf\<close> without \<open>%w\<close> build an \<open>Error\<close>; \<open>fmt.Errorf\<close> with \<open>%w\<close> wraps
  a cause; \<open>errors.Join\<close> combines two errors and ignores a nil one.  A Go value of the interface
  type \<open>error\<close> is an \<open>error option\<close>, where \<open>None\<close> is nil.
\<close>

datatype error = Error string | Wrapf string error | Joined error error

fun errors_join :: "error option \<Rightarrow> error option \<Rightarrow> error option" where
  "errors_join None e = e"
| "errors_join (Some d) None = Some d"
| "errors_join (Some d) (Some e) = Some (Joined d e)"

lemma errors_join_None_iff [simp]: "errors_join d e = None \<longleftrightarrow> d = None \<and> e = None"
  by (cases d; cases e) auto

subsection \<open>How a statement ends\<close>

text \<open>
  \<open>Ret x\<close>: the statement finished with value \<open>x\<close>; \<open>Block\<close>: the goroutine waits (or loops) and
  does not get past the statement in this state; \<open>Panic m\<close>: it panicked.
\<close>

datatype 'a go = Ret 'a | Block | Panic string

fun go_bind :: "'a go \<Rightarrow> ('a \<Rightarrow> 'b go) \<Rightarrow> 'b go" where
  "go_bind (Ret x) f = f x"
| "go_bind Block f = Block"
| "go_bind (Panic m) f = Panic m"

definition go_returns :: "'a go \<Rightarrow> bool" where
  "go_returns m \<longleftrightarrow> (case m of Ret _ \<Rightarrow> True | _ \<Rightarrow> False)"

definition go_panics :: "'a go \<Rightarrow> bool" where
  "go_panics m \<longleftrightarrow> (case m of Panic _ \<Rightarrow> True | _ \<Rightarrow> False)"

text \<open>
  \<open>go_ret_iff\<close> collects equivalences of the form "this statement returned \<open>y\<close> exactly when \<dots>",
  the facts with which a proof walks backwards through a function body.
\<close>

named_theorems go_ret_iff

lemma go_bind_Ret_iff [go_ret_iff]: "go_bind m f = Ret y \<longleftrightarrow> (\<exists>x. m = Ret x \<and> f x = Ret y)"
  by (cases m) auto

lemma go_bind_Panic_iff: "go_bind m f = Panic e \<longleftrightarrow> m = Panic e \<or> (\<exists>x. m = Ret x \<and> f x = Panic e)"
  by (cases m) auto

lemma go_bind_assoc: "go_bind (go_bind m f) g = go_bind m (\<lambda>x. go_bind (f x) g)"
  by (cases m) auto

lemma go_returns_simps [simp]:
  "go_returns (Ret x)" "\<not> go_returns Block" "\<not> go_returns (Panic m)"
  by (auto simp: go_returns_def)

lemma go_panics_simps [simp]:
  "\<not> go_panics (Ret x)" "\<not> go_panics Block" "go_panics (Panic m)"
  by (auto simp: go_panics_def)

lemma go_returns_iff: "go_returns m \<longleftrightarrow> (\<exists>x. m = Ret x)"
  by (cases m) auto

text \<open>
  A loop \<open>for _, x := range xs { s = f(x, s) }\<close> whose body may block or panic.
\<close>

fun go_foreach :: "('a \<Rightarrow> 's \<Rightarrow> 's go) \<Rightarrow> 'a list \<Rightarrow> 's \<Rightarrow> 's go" where
  "go_foreach f [] s = Ret s"
| "go_foreach f (x # xs) s = go_bind (f x s) (go_foreach f xs)"

lemma go_foreach_append:
  "go_foreach f (xs @ ys) s = go_bind (go_foreach f xs s) (go_foreach f ys)"
proof (induction xs arbitrary: s)
  case (Cons x xs)
  then show ?case by (cases "f x s") auto
qed simp

lemma go_foreach_invariant:
  assumes "\<And>x s s'. x \<in> set xs \<Longrightarrow> P s \<Longrightarrow> f x s = Ret s' \<Longrightarrow> P s'"
    and "P s" and "go_foreach f xs s = Ret s'"
  shows "P s'"
  using assms by (induction xs arbitrary: s) (auto simp: go_ret_iff)

lemma go_foreach_returns:
  assumes "\<And>x s. P s \<Longrightarrow> \<exists>s'. f x s = Ret s' \<and> P s'" and "P s"
  shows "\<exists>s'. go_foreach f xs s = Ret s' \<and> P s'"
  using assms(2)
proof (induction xs arbitrary: s)
  case Nil
  then show ?case by simp
next
  case (Cons x xs)
  then obtain s' where "f x s = Ret s'" and "P s'" using assms(1) by blast
  with Cons.IH show ?case by simp
qed

subsection \<open>Validation chains\<close>

text \<open>
  \<open>if err := a(); err != nil { return err }; \<dots>\<close>: the first error wins.
\<close>

definition or_else :: "error option \<Rightarrow> error option \<Rightarrow> error option" where
  "or_else a b = (case a of Some e \<Rightarrow> Some e | None \<Rightarrow> b)"

lemma or_else_None_iff [simp]: "or_else a b = None \<longleftrightarrow> a = None \<and> b = None"
  by (cases a) (auto simp: or_else_def)

lemma or_else_simps [simp]: "or_else (Some e) b = Some e" "or_else None b = b"
  by (simp_all add: or_else_def)

fun first_error :: "('a \<Rightarrow> error option) \<Rightarrow> 'a list \<Rightarrow> error option" where
  "first_error f [] = None"
| "first_error f (x # xs) = or_else (f x) (first_error f xs)"

lemma first_error_None_iff [simp]: "first_error f xs = None \<longleftrightarrow> (\<forall>x \<in> set xs. f x = None)"
  by (induction xs) auto

text \<open>Termination: a measure cannot go down for ever.\<close>

lemma no_infinite_descent:
  fixes f :: "nat \<Rightarrow> nat"
  assumes "\<And>n. f (Suc n) < f n"
  shows False
proof -
  have "f n + n \<le> f 0" for n
  proof (induction n)
    case (Suc n)
    with assms[of n] show ?case by simp
  qed simp
  from this[of "Suc (f 0)"] show False by simp
qed

end
