(* ===== verification/Go_Strings.thy ===== *)
theory Go_Strings
  imports Prelude
begin

text \<open>
  What the program uses of Go's packages \<open>strings\<close> and \<open>strconv\<close>, on byte strings: decimal
  printing and parsing of 64-bit integers, trimming, searching and replacing.
\<close>

subsection \<open>Decimal numbers\<close>

definition is_digit :: "char \<Rightarrow> bool" where
  "is_digit c \<longleftrightarrow> 48 \<le> (of_char c :: nat) \<and> (of_char c :: nat) \<le> 57"

definition digit_val :: "char \<Rightarrow> nat" where
  "digit_val c = of_char c - 48"

definition digit_char :: "nat \<Rightarrow> char" where
  "digit_char n = char_of (48 + n)"

lemma digit_char_is_digit [simp]: "n < 10 \<Longrightarrow> is_digit (digit_char n)"
  by (simp add: is_digit_def digit_char_def)

lemma digit_val_char [simp]: "n < 10 \<Longrightarrow> digit_val (digit_char n) = n"
  by (simp add: digit_val_def digit_char_def)

lemma digit_val_less: "is_digit c \<Longrightarrow> digit_val c < 10"
  unfolding is_digit_def digit_val_def by arith

text \<open>\<open>strconv.Itoa\<close>.\<close>

fun nat_to_dec :: "nat \<Rightarrow> string" where
  "nat_to_dec n = (if n < 10 then [digit_char n] else nat_to_dec (n div 10) @ [digit_char (n mod 10)])"

declare nat_to_dec.simps [simp del]

definition strconv_Itoa :: "int \<Rightarrow> string" where
  "strconv_Itoa i = (if i < 0 then CHR ''-'' # nat_to_dec (nat (- i)) else nat_to_dec (nat i))"

text \<open>The value of a string of digits.\<close>

definition dec_value :: "string \<Rightarrow> nat" where
  "dec_value s = foldl (\<lambda>n c. 10 * n + digit_val c) 0 s"

lemma dec_value_snoc [simp]: "dec_value (s @ [c]) = 10 * dec_value s + digit_val c"
  by (simp add: dec_value_def)

lemma dec_value_Nil [simp]: "dec_value [] = 0"
  by (simp add: dec_value_def)

lemma nat_to_dec_digits: "nat_to_dec n \<noteq> [] \<and> (\<forall>c \<in> set (nat_to_dec n). is_digit c)"
proof (induction n rule: nat_to_dec.induct)
  case (1 n)
  then show ?case by (subst (1 2) nat_to_dec.simps) auto
qed

lemma dec_value_nat_to_dec [simp]: "dec_value (nat_to_dec n) = n"
proof (induction n rule: nat_to_dec.induct)
  case (1 n)
  show ?case
  proof (cases "n < 10")
    case True
    then show ?thesis by (subst nat_to_dec.simps) (simp add: dec_value_def)
  next
    case False
    with "1.IH" show ?thesis by (subst nat_to_dec.simps) simp
  qed
qed

text \<open>
  \<open>strconv.ParseUint(s, 10, 64)\<close>: digit by digit; a non-digit is a syntax error, a value beyond
  64 bits a range error, whichever comes first.
\<close>

definition errSyntax :: error where "errSyntax = Error ''invalid syntax''"
definition errRange :: error where "errRange = Error ''value out of range''"

fun parseUintLoop :: "string \<Rightarrow> nat \<Rightarrow> error + nat" where
  "parseUintLoop [] n = Inr n"
| "parseUintLoop (c # cs) n =
     (if \<not> is_digit c then Inl errSyntax
      else if 2 ^ 64 \<le> 10 * n + digit_val c then Inl errRange
      else parseUintLoop cs (10 * n + digit_val c))"

definition strconv_ParseUint :: "string \<Rightarrow> error + nat" where
  "strconv_ParseUint s = (if s = [] then Inl errSyntax else parseUintLoop s 0)"

text \<open>\<open>strconv.ParseInt(s, 10, 64)\<close>; \<open>strconv.Atoi\<close> gives the same result on a 64-bit platform.\<close>

definition strconv_ParseInt :: "string \<Rightarrow> error + int" where
  "strconv_ParseInt s =
     (let neg = (s \<noteq> [] \<and> hd s = CHR ''-'');
          signed = (s \<noteq> [] \<and> (hd s = CHR ''-'' \<or> hd s = CHR ''+''));
          digits = (if signed then tl s else s) in
      case strconv_ParseUint digits of
        Inl e \<Rightarrow> Inl e
      | Inr u \<Rightarrow>
          if \<not> neg \<and> 2 ^ 63 \<le> u then Inl errRange
          else if neg \<and> 2 ^ 63 < u then Inl errRange
          else Inr (if neg then - int u else int u))"

lemma dec_value_append: "foldl (\<lambda>n c. 10 * n + digit_val c) n s \<ge> n * 10 ^ length s"
proof (induction s arbitrary: n)
  case (Cons c s)
  have "n * 10 ^ length (c # s) \<le> (10 * n + digit_val c) * 10 ^ length s"
    by (simp add: algebra_simps)
  also have "\<dots> \<le> foldl (\<lambda>n c. 10 * n + digit_val c) n (c # s)" using Cons by simp
  finally show ?case .
qed simp

lemma parseUintLoop_digits:
  assumes "\<forall>c \<in> set s. is_digit c"
  shows "parseUintLoop s n =
    (let v = foldl (\<lambda>n c. 10 * n + digit_val c) n s in
     if s = [] \<or> v < 2 ^ 64 then Inr v else Inl errRange)"
  using assms
proof (induction s arbitrary: n)
  case (Cons c s)
  show ?case
  proof (cases "2 ^ 64 \<le> 10 * n + digit_val c")
    case True
    have "10 * n + digit_val c \<le> (10 * n + digit_val c) * 10 ^ length s" by simp
    with dec_value_append[of "10 * n + digit_val c" s] True
    have "2 ^ 64 \<le> foldl (\<lambda>n c. 10 * n + digit_val c) (10 * n + digit_val c) s"
      by (blast intro: order_trans)
    with True Cons.prems show ?thesis by (simp add: Let_def)
  next
    case False
    with Cons.IH[of "10 * n + digit_val c"] Cons.prems show ?thesis
      by (cases "s = []") (simp_all add: Let_def)
  qed
qed simp

lemma ParseUint_digits:
  "s \<noteq> [] \<Longrightarrow> \<forall>c \<in> set s. is_digit c \<Longrightarrow>
   strconv_ParseUint s = (if dec_value s < 2 ^ 64 then Inr (dec_value s) else Inl errRange)"
  by (simp add: strconv_ParseUint_def parseUintLoop_digits dec_value_def Let_def)

lemma ParseInt_digits:
  assumes "s \<noteq> []" and "\<forall>c \<in> set s. is_digit c"
  shows "strconv_ParseInt s =
    (if dec_value s < 2 ^ 63 then Inr (int (dec_value s)) else Inl errRange)"
proof -
  have "is_digit (hd s)" using assms by (cases s) auto
  then have "hd s \<noteq> CHR ''-''" "hd s \<noteq> CHR ''+''" by (auto simp: is_digit_def)
  with assms show ?thesis by (auto simp: strconv_ParseInt_def ParseUint_digits Let_def)
qed

lemma ParseInt_Itoa:
  assumes "- (2 ^ 63) \<le> i" and "i < 2 ^ 63"
  shows "strconv_ParseInt (strconv_Itoa i) = Inr i"
proof (cases "i < 0")
  case True
  let ?d = "nat_to_dec (nat (- i))"
  have "nat (- i) \<le> 2 ^ 63" using assms by (simp add: nat_le_iff)
  with True nat_to_dec_digits[of "nat (- i)"] show ?thesis
    by (simp add: strconv_Itoa_def strconv_ParseInt_def ParseUint_digits)
next
  case False
  moreover have "nat i < 2 ^ 63" using assms False by (simp add: nat_less_iff)
  ultimately show ?thesis
    using nat_to_dec_digits[of "nat i"] by (simp add: strconv_Itoa_def ParseInt_digits)
qed

subsection \<open>Trimming, searching, replacing\<close>

definition strings_HasPrefix :: "string \<Rightarrow> string \<Rightarrow> bool" where
  "strings_HasPrefix s p \<longleftrightarrow> take (length p) s = p"

definition strings_HasSuffix :: "string \<Rightarrow> string \<Rightarrow> bool" where
  "strings_HasSuffix s p \<longleftrightarrow> strings_HasPrefix (rev s) (rev p)"

definition strings_TrimPrefix :: "string \<Rightarrow> string \<Rightarrow> string" where
  "strings_TrimPrefix s p = (if strings_HasPrefix s p then drop (length p) s else s)"

definition strings_TrimSuffix :: "string \<Rightarrow> string \<Rightarrow> string" where
  "strings_TrimSuffix s p =
     (if strings_HasSuffix s p then take (length s - length p) s else s)"

text \<open>\<open>strings.Trim(s, cutset)\<close> for a one-byte cutset.\<close>

definition strings_Trim :: "string \<Rightarrow> char \<Rightarrow> string" where
  "strings_Trim s c = rev (dropWhile (\<lambda>x. x = c) (rev (dropWhile (\<lambda>x. x = c) s)))"

fun strings_Contains :: "string \<Rightarrow> string \<Rightarrow> bool" where
  "strings_Contains [] sub = (sub = [])"
| "strings_Contains (c # cs) sub \<longleftrightarrow> strings_HasPrefix (c # cs) sub \<or> strings_Contains cs sub"

text \<open>\<open>strings.Replace(s, old, new, 1)\<close> for a non-empty \<open>old\<close>.\<close>

fun strings_Replace1 :: "string \<Rightarrow> string \<Rightarrow> string \<Rightarrow> string" where
  "strings_Replace1 [] old new = []"
| "strings_Replace1 (c # cs) old new =
     (if strings_HasPrefix (c # cs) old then new @ drop (length old) (c # cs)
      else c # strings_Replace1 cs old new)"

text \<open>\<open>strings.Count(s, sub)\<close> for a non-empty \<open>sub\<close>: occurrences that do not overlap.\<close>

function strings_Count :: "string \<Rightarrow> string \<Rightarrow> nat" where
  "strings_Count s sub =
     (if s = [] \<or> sub = [] then 0
      else if strings_HasPrefix s sub then Suc (strings_Count (drop (length sub) s) sub)
      else strings_Count (tl s) sub)"
  by pat_completeness auto
termination
  by (relation "measure (\<lambda>(s, sub). length s)") auto

declare strings_Count.simps [simp del]

text \<open>\<open>strings.ToLower\<close> on ASCII letters.\<close>

definition char_lower :: "char \<Rightarrow> char" where
  "char_lower c =
     (if 65 \<le> (of_char c :: nat) \<and> (of_char c :: nat) \<le> 90 then char_of (of_char c + 32 :: nat) else c)"

definition strings_ToLower :: "string \<Rightarrow> string" where
  "strings_ToLower s = map char_lower s"

lemma last_dropWhile_eq: "dropWhile P xs \<noteq> [] \<Longrightarrow> last (dropWhile P xs) = last xs"
  by (induction xs) (auto split: if_splits)

lemma Trim_no_border:
  "strings_Trim s c = [] \<or> hd (strings_Trim s c) \<noteq> c \<and> last (strings_Trim s c) \<noteq> c"
proof (cases "strings_Trim s c = []")
  case False
  let ?t = "dropWhile (\<lambda>x. x = c) (rev (dropWhile (\<lambda>x. x = c) s))"
  have ne: "?t \<noteq> []" "dropWhile (\<lambda>x. x = c) s \<noteq> []"
    using False unfolding strings_Trim_def by (metis dropWhile.simps(1) rev.simps(1))+
  have "last (strings_Trim s c) \<noteq> c"
    using hd_dropWhile[of "\<lambda>x. x = c" "rev (dropWhile (\<lambda>x. x = c) s)"] ne
    by (simp add: strings_Trim_def last_rev)
  moreover have "last ?t = hd (dropWhile (\<lambda>x. x = c) s)"
    using last_dropWhile_eq[OF ne(1)] ne(2) by (simp only: last_rev)
  then have "hd (strings_Trim s c) \<noteq> c"
    using hd_dropWhile[of "\<lambda>x. x = c" s] ne by (simp add: strings_Trim_def hd_rev)
  ultimately show ?thesis by blast
qed simp

end
