(* ===== verification/Config_Size.thy ===== *)
theory Config_Size
  imports Go_Strings
begin

text \<open>
  Sizes in the configuration: pkg/config/unities_converter.go.  A size is a number of bytes, or a
  number with a unit.  The multiplication is on int64 values and can wrap around, so it is done on
  64-bit words here.
\<close>

text \<open>\<open>regexp.MustCompile("^[0-9]+$").MatchString(s)\<close>\<close>

definition match_onlyBytes :: "string \<Rightarrow> bool" where
  "match_onlyBytes s \<longleftrightarrow> s \<noteq> [] \<and> list_all is_digit s"

text \<open>The alternatives of \<open>sizeWithUnitRegex\<close>; \<open>TB\<close> is not among them.\<close>

definition sizeUnits :: "string list" where
  "sizeUnits = [''kb'', ''mb'', ''gb'', ''tb'', ''pb'', ''eb'', ''KB'', ''MB'', ''GB'', ''PB'', ''EB'']"

text \<open>\<open>FindStringSubmatch\<close>: the unit when the whole string is a number followed by one.\<close>

definition match_sizeWithUnit :: "string \<Rightarrow> string option" where
  "match_sizeWithUnit s =
     List.find (\<lambda>u. strings_HasSuffix s u \<and> match_onlyBytes (take (length s - length u) s)) sizeUnits"

definition unit_exponential :: "string \<Rightarrow> nat" where
  "unit_exponential u =
     (if u = ''kb'' \<or> u = ''KB'' then 1
      else if u = ''mb'' \<or> u = ''MB'' then 2
      else if u = ''gb'' \<or> u = ''GB'' then 3
      else if u = ''pb'' \<or> u = ''PB'' then 4
      else if u = ''eb'' \<or> u = ''EB'' then 5
      else 0)"

text \<open>\<open>for i := 0; i < exponential; i++ { sizeInBytes *= 1024 }\<close>\<close>

fun multiplyLoop :: "nat \<Rightarrow> 64 word \<Rightarrow> 64 word" where
  "multiplyLoop 0 sizeInBytes = sizeInBytes"
| "multiplyLoop (Suc n) sizeInBytes = multiplyLoop n (sizeInBytes * 1024)"

definition ToBytes :: "string \<Rightarrow> error + int" where
  "ToBytes sizeRep =
     (if sizeRep = [] then Inr 0
      else if match_onlyBytes sizeRep then strconv_ParseInt sizeRep
      else
        (case match_sizeWithUnit sizeRep of
           None \<Rightarrow> Inl (Error (''invalid data size unit: '' @ sizeRep))
         | Some u \<Rightarrow>
             (case strconv_ParseInt (strings_Replace1 sizeRep u []) of
                Inl err \<Rightarrow> Inl err
              | Inr n \<Rightarrow> Inr (sint (multiplyLoop (unit_exponential u) (word_of_int n))))))"

subsection \<open>Lemmas\<close>

lemma HasPrefix_append [simp]: "strings_HasPrefix (p @ s) p"
  by (simp add: strings_HasPrefix_def)

lemma HasPrefix_iff: "strings_HasPrefix s p \<longleftrightarrow> (\<exists>t. s = p @ t)"
  unfolding strings_HasPrefix_def by (metis append_eq_conv_conj append_take_drop_id)

lemma HasSuffix_iff: "strings_HasSuffix s p \<longleftrightarrow> (\<exists>t. s = t @ p)"
  unfolding strings_HasSuffix_def HasPrefix_iff by (metis rev_append rev_rev_ident)

lemma size_units_letters:
  "u \<in> set sizeUnits \<Longrightarrow> \<exists>c cs. u = c # cs \<and> list_all (\<lambda>c. \<not> is_digit c) u \<and> length u = 2"
  by (auto simp: sizeUnits_def is_digit_def)

lemma multiplyLoop_power: "multiplyLoop n w = w * 1024 ^ n"
  by (induction n arbitrary: w) (simp_all add: ac_simps)

text \<open>Removing the unit from a number with a unit leaves the number.\<close>

lemma Replace1_digits:
  assumes "list_all is_digit ds" and "list_all (\<lambda>c. \<not> is_digit c) u" and "u \<noteq> []"
  shows "strings_Replace1 (ds @ u) u [] = ds"
  using assms(1)
proof (induction ds)
  case Nil
  from assms(3) show ?case by (cases u) (simp_all add: strings_HasPrefix_def)
next
  case (Cons d ds)
  have "\<not> strings_HasPrefix (d # ds @ u) u"
    using assms(2,3) Cons.prems by (cases u) (auto simp: HasPrefix_iff)
  with Cons show ?case by simp
qed

lemma match_sizeWithUnit_iff:
  "match_sizeWithUnit s = Some u \<longleftrightarrow>
     u \<in> set sizeUnits \<and> (\<exists>ds. ds \<noteq> [] \<and> list_all is_digit ds \<and> s = ds @ u)"
proof
  assume m: "match_sizeWithUnit s = Some u"
  then have "u \<in> set sizeUnits" "strings_HasSuffix s u" "match_onlyBytes (take (length s - length u) s)"
    by (auto simp: match_sizeWithUnit_def find_Some_iff)
  then show "u \<in> set sizeUnits \<and> (\<exists>ds. ds \<noteq> [] \<and> list_all is_digit ds \<and> s = ds @ u)"
    by (auto simp: HasSuffix_iff match_onlyBytes_def)
next
  assume r: "u \<in> set sizeUnits \<and> (\<exists>ds. ds \<noteq> [] \<and> list_all is_digit ds \<and> s = ds @ u)"
  then obtain ds where ds: "ds \<noteq> []" "list_all is_digit ds" "s = ds @ u" by blast
  have only: "v = u" if "v \<in> set sizeUnits" "strings_HasSuffix s v" for v
  proof -
    have "length v = length u" using size_units_letters r that(1) by metis
    with that(2) ds show ?thesis by (auto simp: HasSuffix_iff)
  qed
  have hit: "strings_HasSuffix s u \<and> match_onlyBytes (take (length s - length u) s)"
    using ds by (auto simp: HasSuffix_iff match_onlyBytes_def)
  show "match_sizeWithUnit s = Some u"
  proof (cases "match_sizeWithUnit s")
    case None
    with r hit show ?thesis by (auto simp: match_sizeWithUnit_def find_None_iff)
  next
    case (Some v)
    then have "v \<in> set sizeUnits" "strings_HasSuffix s v"
      by (auto simp: match_sizeWithUnit_def find_Some_iff)
    with only Some show ?thesis by simp
  qed
qed

text \<open>A size without a unit, and one with a unit.\<close>

lemma ToBytes_digits:
  assumes "ds \<noteq> []" and "list_all is_digit ds"
  shows "ToBytes ds = (if dec_value ds < 2 ^ 63 then Inr (int (dec_value ds)) else Inl errRange)"
  using assms by (simp add: ToBytes_def match_onlyBytes_def ParseInt_digits list_all_iff)

lemma ToBytes_unit:
  assumes "ds \<noteq> []" and "list_all is_digit ds" and "u \<in> set sizeUnits"
  shows "ToBytes (ds @ u) =
    (if dec_value ds < 2 ^ 63
     then Inr (sint (word_of_int (int (dec_value ds) * 1024 ^ unit_exponential u) :: 64 word))
     else Inl errRange)"
proof -
  obtain c cs where u: "u = c # cs" "list_all (\<lambda>c. \<not> is_digit c) u"
    using size_units_letters[OF assms(3)] by blast
  then have "\<not> match_onlyBytes (ds @ u)" by (simp add: match_onlyBytes_def)
  moreover have "match_sizeWithUnit (ds @ u) = Some u" using assms by (auto simp: match_sizeWithUnit_iff)
  moreover have "strings_Replace1 (ds @ u) u [] = ds" using assms(2) u by (intro Replace1_digits) auto
  ultimately show ?thesis
    using assms u by (simp add: ToBytes_def ParseInt_digits list_all_iff multiplyLoop_power)
qed

lemma ToBytes_other:
  assumes "s \<noteq> []" and "\<not> match_onlyBytes s" and "match_sizeWithUnit s = None"
  shows "ToBytes s = Inl (Error (''invalid data size unit: '' @ s))"
  using assms by (simp add: ToBytes_def)

lemma sint_small: "0 \<le> n \<Longrightarrow> n < 2 ^ 63 \<Longrightarrow> sint (word_of_int n :: 64 word) = n"
  by (simp add: sint_sbintrunc' signed_take_bit_int_eq_self)

text \<open>Whatever is accepted has one of the two shapes.\<close>

lemma ToBytes_cases:
  assumes "ToBytes s = Inr v" and "s \<noteq> []"
  obtains ds u where "ds \<noteq> []" "list_all is_digit ds" "u = [] \<or> u \<in> set sizeUnits" "s = ds @ u"
proof (cases "match_onlyBytes s")
  case True
  with that[of s "[]"] show ?thesis by (simp add: match_onlyBytes_def)
next
  case False
  with assms obtain u where "match_sizeWithUnit s = Some u"
    by (cases "match_sizeWithUnit s") (auto simp: ToBytes_def)
  then show ?thesis using that by (auto simp: match_sizeWithUnit_iff)
qed

lemma ToBytes_exact:
  assumes "ds \<noteq> []" and "list_all is_digit ds" and "u \<in> set sizeUnits"
    and fits: "int (dec_value ds) * 1024 ^ unit_exponential u < 2 ^ 63"
  shows "ToBytes (ds @ u) = Inr (int (dec_value ds) * 1024 ^ unit_exponential u)"
proof -
  have "int (dec_value ds) * 1 \<le> int (dec_value ds) * 1024 ^ unit_exponential u"
    by (intro mult_left_mono) simp_all
  with fits have "int (dec_value ds) < 2 ^ 63" by linarith
  then have "dec_value ds < 2 ^ 63" by (simp only: of_nat_less_numeral_power_cancel_iff)
  with ToBytes_unit[OF assms(1-3)] sint_small[OF _ fits] show ?thesis by (simp only: if_True) simp
qed

lemma sint_range: "- (2 ^ 63) \<le> sint (w :: 64 word) \<and> sint w < 2 ^ 63"
  using sint_greater_eq[of w] sint_lt[of w] by simp

subsection \<open>Properties\<close>




text \<open>
  The unit \<open>tb\<close> is accepted and ignored (a terabyte is one byte), \<open>TB\<close> is
  rejected, and \<open>pb\<close> and \<open>eb\<close> are one power of 1024 too small.
\<close>

theorem ToBytes_large_units:
  assumes "ds \<noteq> []" and "list_all is_digit ds" and "dec_value ds < 2 ^ 13"
  shows "ToBytes (ds @ ''tb'') = Inr (int (dec_value ds)) \<and>
    ToBytes (ds @ ''TB'') = Inl (Error (''invalid data size unit: '' @ ds @ ''TB'')) \<and>
    ToBytes (ds @ ''pb'') = Inr (int (dec_value ds) * 1024 ^ 4) \<and>
    ToBytes (ds @ ''eb'') = Inr (int (dec_value ds) * 1024 ^ 5)"
proof -
  have small: "int (dec_value ds) < 2 ^ 13" using assms(3) by simp
  have "\<not> match_onlyBytes (ds @ ''TB'')" by (simp add: match_onlyBytes_def is_digit_def)
  moreover have "match_sizeWithUnit (ds @ ''TB'') = None"
    by (simp add: match_sizeWithUnit_def sizeUnits_def strings_HasSuffix_def strings_HasPrefix_def)
  ultimately have "ToBytes (ds @ ''TB'') = Inl (Error (''invalid data size unit: '' @ ds @ ''TB''))"
    by (intro ToBytes_other) auto
  moreover have "ToBytes (ds @ ''tb'') = Inr (int (dec_value ds))"
    "ToBytes (ds @ ''pb'') = Inr (int (dec_value ds) * 1024 ^ 4)"
    "ToBytes (ds @ ''eb'') = Inr (int (dec_value ds) * 1024 ^ 5)"
    using small ToBytes_exact[OF assms(1,2), of "''tb''"] ToBytes_exact[OF assms(1,2), of "''pb''"]
      ToBytes_exact[OF assms(1,2), of "''eb''"]
    by (simp_all add: sizeUnits_def unit_exponential_def)
  ultimately show ?thesis by blast
qed

end
