(* ===== verification/Config.thy ===== *)
theory Config
  imports Config_Size
begin

text \<open>
  The configuration: the files of pkg/config, one record per struct, and for each its
  \<open>fillDefaults\<close>, \<open>validate\<close> and \<open>redacted\<close>.  Reading YAML is the package yaml.v2, a parameter of
  \<open>Config_New\<close>; the values of type \<open>interface{}\<close> that it leaves for the adapters have the type
  \<open>'y\<close>.  Go's value receivers work on copies, so every method is a function on records.
\<close>

text \<open>\<open>fmt\<close> prints a slice of strings with \<open>%v\<close> as the strings with spaces, in brackets.\<close>

fun join_spaces :: "string list \<Rightarrow> string" where
  "join_spaces [] = []"
| "join_spaces [s] = s"
| "join_spaces (s # t # ss) = s @ '' '' @ join_spaces (t # ss)"

definition format_slice :: "string list \<Rightarrow> string" where
  "format_slice ss = ''['' @ join_spaces ss @ '']''"

subsection \<open>Circuit breakers\<close>

record circuit_breaker_config =
  cb_Disable :: bool
  cb_OpenInterval :: int

definition DefaultOpenInterval :: int where "DefaultOpenInterval = 100"

text \<open>\<open>time.Duration(OpenInterval) * time.Millisecond\<close>, an int64 multiplication.\<close>

definition OpenIntervalAsDuration :: "circuit_breaker_config \<Rightarrow> int" where
  "OpenIntervalAsDuration c = sint (word_of_int (cb_OpenInterval c) * 1000000 :: 64 word)"

definition cb_fillDefaultValues :: "circuit_breaker_config \<Rightarrow> circuit_breaker_config" where
  "cb_fillDefaultValues c =
     (if cb_OpenInterval c = 0 then c\<lparr>cb_OpenInterval := DefaultOpenInterval\<rparr> else c)"

definition cb_validate :: "circuit_breaker_config \<Rightarrow> error option" where
  "cb_validate c =
     (if cb_OpenInterval c \<le> 0 then Some (Error ''open_interval cannot be <= 0'') else None)"

subsection \<open>The accumulator\<close>

record accumulator_config =
  ac_Size :: string
  ac_Separator :: string
  ac_QueueCapacity :: int
  ac_CircuitBreaker :: circuit_breaker_config
  ac_ForceFlushAfterSeconds :: int

definition dontAccumulateByTime :: int where "dontAccumulateByTime = 0"

definition acc_SizeAsBytes :: "accumulator_config \<Rightarrow> error + int" where
  "acc_SizeAsBytes c = ToBytes (ac_Size c)"

definition HasForceFlushPeriod :: "accumulator_config \<Rightarrow> bool" where
  "HasForceFlushPeriod c \<longleftrightarrow> dontAccumulateByTime < ac_ForceFlushAfterSeconds c"

definition acc_fillDefaultValues :: "accumulator_config \<Rightarrow> accumulator_config" where
  "acc_fillDefaultValues c = c\<lparr>ac_CircuitBreaker := cb_fillDefaultValues (ac_CircuitBreaker c)\<rparr>"

definition acc_validate :: "accumulator_config \<Rightarrow> error option" where
  "acc_validate c = map_option (Wrapf ''on acumulator: %w'') (cb_validate (ac_CircuitBreaker c))"

subsection \<open>The API\<close>

record api_config =
  api_Port :: int
  api_PayloadSizeLimit :: string

definition DefaultPort :: int where "DefaultPort = 9199"

definition api_fillDefaults :: "api_config \<Rightarrow> api_config" where
  "api_fillDefaults c = (if api_Port c = 0 then c\<lparr>api_Port := DefaultPort\<rparr> else c)"

definition api_validate :: "api_config \<Rightarrow> error option" where
  "api_validate c =
     or_else
       (if api_PayloadSizeLimit c \<noteq> [] then
          (case ToBytes (api_PayloadSizeLimit c) of
             Inl err \<Rightarrow> Some (Wrapf ''invalid payload size limite: %w'' err)
           | Inr _ \<Rightarrow> None)
        else None)
       (if api_Port c = 0 then Some (Error ''api.port cannot be 0'') else None)"

definition PayloadSizeLimitInBytes :: "api_config \<Rightarrow> error + int" where
  "PayloadSizeLimitInBytes c = ToBytes (api_PayloadSizeLimit c)"

subsection \<open>Compression and decompression\<close>

definition allowedCompressions :: "string list" where
  "allowedCompressions = [''gzip'', ''zlib'', ''deflate'', ''zstd'', ''snappy'']"

definition DefaultPreallocSlicePercentage :: int where "DefaultPreallocSlicePercentage = 2"

record compression_config =
  cp_Level :: string
  cp_Type :: string
  cp_PreallocSlicePercentage :: int

definition comp_fillDefaultValues :: "compression_config \<Rightarrow> compression_config" where
  "comp_fillDefaultValues c =
     (if cp_PreallocSlicePercentage c = 0
      then c\<lparr>cp_PreallocSlicePercentage := DefaultPreallocSlicePercentage\<rparr> else c)"

definition comp_validate :: "compression_config \<Rightarrow> error option" where
  "comp_validate c =
     (if cp_Type c = [] then None
      else if cp_Type c \<notin> set allowedCompressions then
        Some (Error (''compression.type option must be one of '' @ format_slice allowedCompressions))
      else if cp_PreallocSlicePercentage c \<le> 0 \<or> 100 < cp_PreallocSlicePercentage c then
        Some (Error ''prealloc_slice_percentage should be in the interval [0,100)'')
      else None)"

definition defaultInitialBufferSize :: string where "defaultInitialBufferSize = ''512''"

definition allowedDecompressions :: "string list" where
  "allowedDecompressions = [''gzip'', ''zlib'', ''deflate'', ''zstd'', ''snappy'']"

record decompression_config =
  dc_ActiveDecompressions :: "string list"
  dc_MaxConcurrency :: int
  dc_InitialBufferSize :: string

definition InitialBufferSizeAsBytes :: "decompression_config \<Rightarrow> error + int" where
  "InitialBufferSizeAsBytes c = ToBytes (dc_InitialBufferSize c)"

definition decomp_fillDefaultValues :: "decompression_config \<Rightarrow> decompression_config" where
  "decomp_fillDefaultValues c =
     (if dc_InitialBufferSize c = [] then c\<lparr>dc_InitialBufferSize := defaultInitialBufferSize\<rparr> else c)"

definition decomp_validate :: "decompression_config \<Rightarrow> error option" where
  "decomp_validate c =
     (if dc_ActiveDecompressions c = [] then None
      else if dc_InitialBufferSize c = [] then Some (Error ''initial_buffer_size cannot be zero'')
      else if dc_MaxConcurrency c < 0 then Some (Error ''max concurrency cannot be < 0'')
      else
        first_error (\<lambda>t. if t \<notin> set allowedDecompressions
          then Some (Error (''decompression type option must be one of '' @
                             format_slice allowedDecompressions))
          else None) (dc_ActiveDecompressions c))"

subsection \<open>Ingestion\<close>

definition RedactedValue :: string where "RedactedValue = ''<REDACTED>''"

record ingestion_config =
  ig_Token :: string
  ig_Decompression :: decompression_config
  ig_CircuitBreaker :: circuit_breaker_config

definition ing_redacted :: "ingestion_config \<Rightarrow> ingestion_config" where
  "ing_redacted c = (if ig_Token c \<noteq> [] then c\<lparr>ig_Token := RedactedValue\<rparr> else c)"

definition ing_fillDefaultValues :: "ingestion_config \<Rightarrow> ingestion_config" where
  "ing_fillDefaultValues c =
     c\<lparr>ig_CircuitBreaker := cb_fillDefaultValues (ig_CircuitBreaker c),
       ig_Decompression := decomp_fillDefaultValues (ig_Decompression c)\<rparr>"

definition ing_validate :: "ingestion_config \<Rightarrow> error option" where
  "ing_validate c =
     or_else (map_option (Wrapf ''on ingestion: %w'') (cb_validate (ig_CircuitBreaker c)))
       (decomp_validate (ig_Decompression c))"

subsection \<open>External queues and object storages\<close>

definition externalQueueConfigAllowedValues :: "string list" where
  "externalQueueConfigAllowedValues = [''noop'', ''sqs'', ''http'']"

record 'y external_queue_config =
  eq_Type :: string
  eq_Config :: 'y

definition extq_fillDefaultValues :: "'y external_queue_config \<Rightarrow> 'y external_queue_config" where
  "extq_fillDefaultValues c = (if eq_Type c = [] then c\<lparr>eq_Type := ''noop''\<rparr> else c)"

definition extq_validate :: "'y external_queue_config \<Rightarrow> error option" where
  "extq_validate c =
     (if eq_Type c \<notin> set externalQueueConfigAllowedValues
      then Some (Error (''queue type must be one of '' @
                         format_slice externalQueueConfigAllowedValues))
      else None)"

record 'y object_storage_config =
  os_Type :: string
  os_Config :: 'y

definition objstg_fillDefaultValues :: "'y object_storage_config \<Rightarrow> 'y object_storage_config" where
  "objstg_fillDefaultValues c = c"

definition objstg_validate :: "'y object_storage_config \<Rightarrow> error option" where
  "objstg_validate c = None"

subsection \<open>Flows\<close>

record 'y flow_config =
  fl_Name :: string
  fl_QueueMaxSize :: int
  fl_MaxConcurrentUploads :: int
  fl_PathPrefixCount :: int
  fl_Ingestion :: ingestion_config
  fl_Accumulator :: accumulator_config
  fl_ExternalQueues :: "'y external_queue_config list"
  fl_ObjectStorages :: "'y object_storage_config list"
  fl_Compression :: compression_config

definition flow_fillDefaultValues :: "'y flow_config \<Rightarrow> 'y flow_config" where
  "flow_fillDefaultValues c =
     (let c = (if fl_MaxConcurrentUploads c \<le> 0 then c\<lparr>fl_MaxConcurrentUploads := 50\<rparr> else c);
          c = (if fl_PathPrefixCount c \<le> 0 then c\<lparr>fl_PathPrefixCount := 1\<rparr> else c);
          c = c\<lparr>fl_Ingestion := ing_fillDefaultValues (fl_Ingestion c)\<rparr>;
          c = c\<lparr>fl_Accumulator := acc_fillDefaultValues (fl_Accumulator c)\<rparr>;
          c = c\<lparr>fl_Compression := comp_fillDefaultValues (fl_Compression c)\<rparr>;
          c = c\<lparr>fl_ObjectStorages := map objstg_fillDefaultValues (fl_ObjectStorages c)\<rparr>
      in c\<lparr>fl_ExternalQueues := map extq_fillDefaultValues (fl_ExternalQueues c)\<rparr>)"

definition flow_redacted :: "'y flow_config \<Rightarrow> 'y flow_config" where
  "flow_redacted c = c\<lparr>fl_Ingestion := ing_redacted (fl_Ingestion c)\<rparr>"

definition flow_validate :: "'y flow_config \<Rightarrow> error option" where
  "flow_validate c =
     (if fl_Name c = [] then Some (Error ''all flows must have a name'')
      else if strings_Contains (fl_Name c) '' '' then Some (Error ''flow name must not have spaces'')
      else if fl_PathPrefixCount c = 0 then Some (Error ''path prefix count cannot be zero'')
      else
        or_else (ing_validate (fl_Ingestion c))
        (or_else (acc_validate (fl_Accumulator c))
        (or_else (comp_validate (fl_Compression c))
        (or_else (first_error objstg_validate (fl_ObjectStorages c))
          (first_error extq_validate (fl_ExternalQueues c))))))"

subsection \<open>Observability\<close>

definition allowedLogConfigLevels :: "string list" where
  "allowedLogConfigLevels = [''debug'', ''info'', ''warn'', ''error'']"

record log_config =
  lg_Level :: string
  lg_Format :: string

definition log_fillDefaults :: "log_config \<Rightarrow> log_config" where
  "log_fillDefaults c =
     (let c = (if lg_Level c = [] then c\<lparr>lg_Level := ''info''\<rparr> else c)
      in (if lg_Format c = [] then c\<lparr>lg_Format := ''json''\<rparr> else c))"

definition log_validate :: "log_config \<Rightarrow> error option" where
  "log_validate c =
     (if lg_Level c \<notin> set allowedLogConfigLevels
      then Some (Error (''log level should be one of '' @ format_slice allowedLogConfigLevels))
      else None)"

record tracing_config =
  tr_Enabled :: bool
  tr_ServiceName :: string

definition DefaultServiceNameOnO11y :: string where "DefaultServiceNameOnO11y = ''jiboia''"

definition tracing_fillDefaults :: "tracing_config \<Rightarrow> tracing_config" where
  "tracing_fillDefaults c =
     (if tr_ServiceName c = [] then c\<lparr>tr_ServiceName := DefaultServiceNameOnO11y\<rparr> else c)"

definition tracing_validate :: "tracing_config \<Rightarrow> error option" where
  "tracing_validate c = None"

record profiling_config =
  pr_Enabled :: bool

definition profiling_fillDefaults :: "profiling_config \<Rightarrow> profiling_config" where
  "profiling_fillDefaults c = c"

definition profiling_validate :: "profiling_config \<Rightarrow> error option" where
  "profiling_validate c = None"

record o11y_config =
  oy_Tracing :: tracing_config
  oy_Log :: log_config
  oy_Profiling :: profiling_config
  oy_ConfigDumpEnabled :: bool

definition o11y_fillDefaults :: "o11y_config \<Rightarrow> o11y_config" where
  "o11y_fillDefaults c =
     c\<lparr>oy_Log := log_fillDefaults (oy_Log c),
       oy_Tracing := tracing_fillDefaults (oy_Tracing c),
       oy_Profiling := profiling_fillDefaults (oy_Profiling c)\<rparr>"

definition o11y_validate :: "o11y_config \<Rightarrow> error option" where
  "o11y_validate c =
     or_else (log_validate (oy_Log c))
     (or_else (profiling_validate (oy_Profiling c)) (tracing_validate (oy_Tracing c)))"

subsection \<open>The whole configuration\<close>

record 'y config =
  co_O11y :: o11y_config
  co_Version :: string
  co_API :: api_config
  co_Flows :: "'y flow_config list"
  co_DisableMaxProcs :: bool

definition config_fillDefaultValues :: "'y config \<Rightarrow> 'y config" where
  "config_fillDefaultValues c =
     c\<lparr>co_O11y := o11y_fillDefaults (co_O11y c),
       co_API := api_fillDefaults (co_API c),
       co_Flows := map flow_fillDefaultValues (co_Flows c)\<rparr>"

text \<open>The loop over the flows with the set of the names seen so far.\<close>

fun validateFlows :: "string list \<Rightarrow> 'y flow_config list \<Rightarrow> error option" where
  "validateFlows flowNamesSet [] = None"
| "validateFlows flowNamesSet (flow # flows) =
     (if fl_Name flow \<in> set flowNamesSet then Some (Error ''flow names must be unique'')
      else or_else (flow_validate flow) (validateFlows (fl_Name flow # flowNamesSet) flows))"

definition config_validate :: "'y config \<Rightarrow> error option" where
  "config_validate c =
     (if co_Flows c = [] then Some (Error ''at least one flow should be declared'')
      else
        or_else (validateFlows [] (co_Flows c))
        (or_else (api_validate (co_API c)) (o11y_validate (co_O11y c))))"

definition config_Redacted :: "'y config \<Rightarrow> 'y config" where
  "config_Redacted c = c\<lparr>co_Flows := map flow_redacted (co_Flows c)\<rparr>"

text \<open>\<open>config.New\<close>; \<open>unmarshal\<close> is \<open>yaml.Unmarshal\<close> into an empty \<open>Config\<close>.\<close>

definition Config_New :: "(bytes \<Rightarrow> error + 'y config) \<Rightarrow> bytes \<Rightarrow> error + 'y config" where
  "Config_New unmarshal confData =
     (case unmarshal confData of
        Inl err \<Rightarrow> Inl err
      | Inr c \<Rightarrow>
          let c = config_fillDefaultValues c in
          (case config_validate c of Some err \<Rightarrow> Inl err | None \<Rightarrow> Inr c))"

subsection \<open>Lemmas\<close>

named_theorems config_defs
declare cb_fillDefaultValues_def [config_defs] acc_fillDefaultValues_def [config_defs]
  api_fillDefaults_def [config_defs] comp_fillDefaultValues_def [config_defs]
  decomp_fillDefaultValues_def [config_defs] ing_fillDefaultValues_def [config_defs]
  extq_fillDefaultValues_def [config_defs] objstg_fillDefaultValues_def [config_defs]
  log_fillDefaults_def [config_defs] tracing_fillDefaults_def [config_defs]
  profiling_fillDefaults_def [config_defs] o11y_fillDefaults_def [config_defs]

declare DefaultOpenInterval_def [simp] DefaultPort_def [simp]
  DefaultPreallocSlicePercentage_def [simp] defaultInitialBufferSize_def [simp]
  DefaultServiceNameOnO11y_def [simp]

lemma strings_Contains_char [simp]: "strings_Contains s [c] \<longleftrightarrow> c \<in> set s"
  by (induction s) (auto simp: strings_HasPrefix_def)

lemma distinct_keys_Cons:
  "distinct (map key (x # xs)) \<and> (\<forall>y \<in> set (x # xs). key y \<notin> set seen \<and> ok y) \<longleftrightarrow>
     key x \<notin> set seen \<and> ok x \<and> distinct (map key xs) \<and>
     (\<forall>y \<in> set xs. key y \<notin> set (key x # seen) \<and> ok y)"
  by (auto simp: image_iff)

lemma validateFlows_None_iff:
  "validateFlows seen fs = None \<longleftrightarrow>
     distinct (map fl_Name fs) \<and> (\<forall>f \<in> set fs. fl_Name f \<notin> set seen \<and> flow_validate f = None)"
proof (induction seen fs rule: validateFlows.induct)
  case (2 seen x xs)
  show ?case unfolding distinct_keys_Cons using 2 by (cases "fl_Name x \<in> set seen") simp_all
qed simp

text \<open>Filling the defaults twice is filling them once, for every part.\<close>

lemma fill_parts_idem:
  "cb_fillDefaultValues (cb_fillDefaultValues cb) = cb_fillDefaultValues cb"
  "acc_fillDefaultValues (acc_fillDefaultValues ac) = acc_fillDefaultValues ac"
  "api_fillDefaults (api_fillDefaults ap) = api_fillDefaults ap"
  "comp_fillDefaultValues (comp_fillDefaultValues cp) = comp_fillDefaultValues cp"
  "ing_fillDefaultValues (ing_fillDefaultValues ig) = ing_fillDefaultValues ig"
  "extq_fillDefaultValues (extq_fillDefaultValues xq) = extq_fillDefaultValues xq"
  "o11y_fillDefaults (o11y_fillDefaults oy) = o11y_fillDefaults oy"
  by (simp_all add: config_defs Let_def)

lemma flow_fill_fields [simp]:
  "fl_Name (flow_fillDefaultValues f) = fl_Name f"
  "fl_QueueMaxSize (flow_fillDefaultValues f) = fl_QueueMaxSize f"
  "fl_MaxConcurrentUploads (flow_fillDefaultValues f) =
     (if fl_MaxConcurrentUploads f \<le> 0 then 50 else fl_MaxConcurrentUploads f)"
  "fl_PathPrefixCount (flow_fillDefaultValues f) =
     (if fl_PathPrefixCount f \<le> 0 then 1 else fl_PathPrefixCount f)"
  "fl_Ingestion (flow_fillDefaultValues f) = ing_fillDefaultValues (fl_Ingestion f)"
  "fl_Accumulator (flow_fillDefaultValues f) = acc_fillDefaultValues (fl_Accumulator f)"
  "fl_ExternalQueues (flow_fillDefaultValues f) = map extq_fillDefaultValues (fl_ExternalQueues f)"
  "fl_ObjectStorages (flow_fillDefaultValues f) = fl_ObjectStorages f"
  "fl_Compression (flow_fillDefaultValues f) = comp_fillDefaultValues (fl_Compression f)"
  by (simp_all add: flow_fillDefaultValues_def Let_def objstg_fillDefaultValues_def map_idI)

lemma flow_fill_idem: "flow_fillDefaultValues (flow_fillDefaultValues f) = flow_fillDefaultValues f"
  by (rule flow_config.equality) (simp_all add: fill_parts_idem)

text \<open>What each part of a raw configuration must satisfy to be valid once its defaults are in.\<close>

lemma cb_valid_filled: "cb_validate (cb_fillDefaultValues c) = None \<longleftrightarrow> 0 \<le> cb_OpenInterval c"
  by (auto simp: cb_validate_def config_defs)

lemma comp_valid_filled:
  "comp_validate (comp_fillDefaultValues c) = None \<longleftrightarrow>
     cp_Type c = [] \<or> (cp_Type c \<in> set allowedCompressions \<and>
       0 \<le> cp_PreallocSlicePercentage c \<and> cp_PreallocSlicePercentage c \<le> 100)"
  by (auto simp: comp_validate_def config_defs)

lemma decomp_valid_filled:
  "decomp_validate (decomp_fillDefaultValues c) = None \<longleftrightarrow>
     dc_ActiveDecompressions c = [] \<or>
     (0 \<le> dc_MaxConcurrency c \<and> set (dc_ActiveDecompressions c) \<subseteq> set allowedDecompressions)"
  by (auto simp: decomp_validate_def config_defs)

lemma extq_valid_filled:
  "extq_validate (extq_fillDefaultValues c) = None \<longleftrightarrow>
     eq_Type c = [] \<or> eq_Type c \<in> set externalQueueConfigAllowedValues"
  by (auto simp: extq_validate_def config_defs externalQueueConfigAllowedValues_def)

lemma log_valid_filled:
  "log_validate (log_fillDefaults c) = None \<longleftrightarrow>
     lg_Level c = [] \<or> lg_Level c \<in> set allowedLogConfigLevels"
  by (auto simp: log_validate_def config_defs Let_def allowedLogConfigLevels_def)

lemma api_valid_filled:
  "api_validate (api_fillDefaults c) = None \<longleftrightarrow>
     api_PayloadSizeLimit c = [] \<or> (\<exists>n. ToBytes (api_PayloadSizeLimit c) = Inr n)"
  by (auto simp: api_validate_def config_defs split: sum.splits)

definition raw_flow_ok :: "'y flow_config \<Rightarrow> bool" where
  "raw_flow_ok f \<longleftrightarrow>
     fl_Name f \<noteq> [] \<and> CHR '' '' \<notin> set (fl_Name f) \<and>
     0 \<le> cb_OpenInterval (ig_CircuitBreaker (fl_Ingestion f)) \<and>
     0 \<le> cb_OpenInterval (ac_CircuitBreaker (fl_Accumulator f)) \<and>
     (let dc = ig_Decompression (fl_Ingestion f) in
      dc_ActiveDecompressions dc = [] \<or>
      (0 \<le> dc_MaxConcurrency dc \<and> set (dc_ActiveDecompressions dc) \<subseteq> set allowedDecompressions)) \<and>
     (let cp = fl_Compression f in
      cp_Type cp = [] \<or> (cp_Type cp \<in> set allowedCompressions \<and>
        0 \<le> cp_PreallocSlicePercentage cp \<and> cp_PreallocSlicePercentage cp \<le> 100)) \<and>
     (\<forall>q \<in> set (fl_ExternalQueues f).
        eq_Type q = [] \<or> eq_Type q \<in> set externalQueueConfigAllowedValues)"

lemma flow_valid_filled: "flow_validate (flow_fillDefaultValues f) = None \<longleftrightarrow> raw_flow_ok f"
  by (auto simp: flow_validate_def raw_flow_ok_def ing_validate_def acc_validate_def
      ing_fillDefaultValues_def acc_fillDefaultValues_def cb_valid_filled comp_valid_filled
      decomp_valid_filled extq_valid_filled objstg_validate_def Let_def)

lemma flow_validate_redacted [simp]: "flow_validate (flow_redacted f) = flow_validate f"
  by (simp add: flow_validate_def flow_redacted_def ing_redacted_def ing_validate_def)

lemma flow_redacted_token:
  "ig_Token (fl_Ingestion (flow_redacted f)) =
     (if ig_Token (fl_Ingestion f) = [] then [] else RedactedValue)"
  "(flow_redacted f)\<lparr>fl_Ingestion := (fl_Ingestion (flow_redacted f))\<lparr>ig_Token := []\<rparr>\<rparr> =
     f\<lparr>fl_Ingestion := (fl_Ingestion f)\<lparr>ig_Token := []\<rparr>\<rparr>"
  "flow_redacted (flow_redacted f) = flow_redacted f"
  by (simp_all add: flow_redacted_def ing_redacted_def RedactedValue_def)

lemma fl_Name_redacted [simp]: "fl_Name (flow_redacted f) = fl_Name f"
  by (simp add: flow_redacted_def)

lemma validateFlows_redacted [simp]:
  "validateFlows seen (map flow_redacted fs) = validateFlows seen fs"
  by (induction seen fs rule: validateFlows.induct) simp_all

lemma config_valid_filled:
  "config_validate (config_fillDefaultValues c) = None \<longleftrightarrow>
     co_Flows c \<noteq> [] \<and> distinct (map fl_Name (co_Flows c)) \<and>
     (\<forall>f \<in> set (co_Flows c). raw_flow_ok f) \<and>
     (api_PayloadSizeLimit (co_API c) = [] \<or>
        (\<exists>n. ToBytes (api_PayloadSizeLimit (co_API c)) = Inr n)) \<and>
     (lg_Level (oy_Log (co_O11y c)) = [] \<or>
        lg_Level (oy_Log (co_O11y c)) \<in> set allowedLogConfigLevels)"
  by (auto simp: config_validate_def config_fillDefaultValues_def validateFlows_None_iff
      flow_valid_filled api_valid_filled o11y_validate_def o11y_fillDefaults_def log_valid_filled
      profiling_validate_def tracing_validate_def comp_def)

subsection \<open>Properties\<close>

text \<open>
  C32 (functional): exactly which configurations are accepted.  After the defaults, validation
  succeeds if and only if there is a flow, the names are unique, every flow is well formed, the
  payload limit is a size, and the log level is known; no other check can fail.
\<close>

theorem config_accepted_iff:
  "config_validate (config_fillDefaultValues c) = None \<longleftrightarrow>
     co_Flows c \<noteq> [] \<and> distinct (map fl_Name (co_Flows c)) \<and>
     (\<forall>f \<in> set (co_Flows c). raw_flow_ok f) \<and>
     (api_PayloadSizeLimit (co_API c) = [] \<or>
        (\<exists>n. ToBytes (api_PayloadSizeLimit (co_API c)) = Inr n)) \<and>
     (lg_Level (oy_Log (co_O11y c)) = [] \<or>
        lg_Level (oy_Log (co_O11y c)) \<in> set allowedLogConfigLevels)"
  by (rule config_valid_filled)


text \<open>A minimal configuration: one flow with a name, everything else left out.\<close>

definition minimal_flow :: "unit flow_config" where
  "minimal_flow = \<lparr>fl_Name = ''flow_1'', fl_QueueMaxSize = 0, fl_MaxConcurrentUploads = 0,
     fl_PathPrefixCount = 0,
     fl_Ingestion = \<lparr>ig_Token = ''secret'',
       ig_Decompression = \<lparr>dc_ActiveDecompressions = [], dc_MaxConcurrency = 0,
         dc_InitialBufferSize = []\<rparr>,
       ig_CircuitBreaker = \<lparr>cb_Disable = False, cb_OpenInterval = 0\<rparr>\<rparr>,
     fl_Accumulator = \<lparr>ac_Size = [], ac_Separator = [], ac_QueueCapacity = 0,
       ac_CircuitBreaker = \<lparr>cb_Disable = False, cb_OpenInterval = 0\<rparr>,
       ac_ForceFlushAfterSeconds = 0\<rparr>,
     fl_ExternalQueues = [], fl_ObjectStorages = [],
     fl_Compression = \<lparr>cp_Level = [], cp_Type = [], cp_PreallocSlicePercentage = 0\<rparr>\<rparr>"

definition minimal_config :: "unit config" where
  "minimal_config = \<lparr>co_O11y = \<lparr>oy_Tracing = \<lparr>tr_Enabled = False, tr_ServiceName = []\<rparr>,
       oy_Log = \<lparr>lg_Level = [], lg_Format = []\<rparr>, oy_Profiling = \<lparr>pr_Enabled = False\<rparr>,
       oy_ConfigDumpEnabled = False\<rparr>,
     co_Version = [], co_API = \<lparr>api_Port = 0, api_PayloadSizeLimit = []\<rparr>,
     co_Flows = [minimal_flow], co_DisableMaxProcs = False\<rparr>"

lemma minimal_config_accepted:
  "Config_New (\<lambda>_. Inr minimal_config) [] = Inr (config_fillDefaultValues minimal_config)"
proof -
  have "config_validate (config_fillDefaultValues minimal_config) = None"
    by (simp add: config_valid_filled minimal_config_def minimal_flow_def raw_flow_ok_def)
  then show ?thesis by (simp add: Config_New_def)
qed

lemma config_accepted_iff_witness:
  "config_validate (config_fillDefaultValues minimal_config) = None"
  using config_accepted_iff[of minimal_config]
  by (simp add: minimal_config_def minimal_flow_def raw_flow_ok_def)


text \<open>Filling in the defaults a second time changes nothing.\<close>

theorem fill_defaults_idempotent:
  "config_fillDefaultValues (config_fillDefaultValues c) = config_fillDefaultValues c"
  by (rule config.equality)
     (simp_all add: config_fillDefaultValues_def fill_parts_idem flow_fill_idem)


end
