(* ===== verification/Compression.thy ===== *)
theory Compression
  imports Config
begin

text \<open>
  Compression: pkg/compression/factory.go and noop_compressor.go, and \<open>compress\<close> of
  pkg/worker/worker.go.  The algorithms are the package klauspost/compress and are a parameter:
  \<open>codecs\<close> has, for each type name, how a writer is opened and what its calls emit, and how a
  reader is opened on a reader.  The no-op writer and reader are the source's own.
\<close>

text \<open>
  An \<open>io.Reader\<close>: what successive \<open>Read\<close> calls have to offer, and how it ends (\<open>None\<close> for EOF).
\<close>

record io_reader =
  rd_chunks :: "bytes list"
  rd_end :: "error option"

definition rd_data :: "io_reader \<Rightarrow> bytes" where
  "rd_data r = concat (rd_chunks r)"

text \<open>
  A compressing writer's state is \<open>'w\<close>; each call gives the bytes it passes on to the writer
  below, and an error or nil.
\<close>

record 'w codecs =
  cd_NewWriter :: "string \<Rightarrow> int option \<Rightarrow> error + 'w"
  cd_Write :: "'w \<Rightarrow> bytes \<Rightarrow> 'w \<times> bytes \<times> error option"
  cd_Flush :: "'w \<Rightarrow> 'w \<times> bytes \<times> error option"
  cd_Close :: "'w \<Rightarrow> bytes \<times> error option"
  cd_NewReader :: "string \<Rightarrow> io_reader \<Rightarrow> error + io_reader"

definition GzipType :: string where "GzipType = ''gzip''"
definition ZlibType :: string where "ZlibType = ''zlib''"
definition DeflateType :: string where "DeflateType = ''deflate''"
definition SnappyType :: string where "SnappyType = ''snappy''"
definition ZstdType :: string where "ZstdType = ''zstd''"

subsection \<open>The no-op compressor\<close>

text \<open>Its writer passes everything on at once; \<open>Close\<close> and \<open>Flush\<close> do nothing.\<close>

definition noop_Write :: "bytes \<Rightarrow> bytes \<times> error option" where "noop_Write p = (p, None)"
definition noop_Flush :: "bytes \<times> error option" where "noop_Flush = ([], None)"
definition noop_Close :: "bytes \<times> error option" where "noop_Close = ([], None)"

text \<open>The no-op reader reads from the wrapped one; so does the \<open>closerAdapter\<close>.\<close>

definition NewNoopCompressorReader :: "io_reader \<Rightarrow> io_reader" where
  "NewNoopCompressorReader r = r"

definition closerAdapter :: "io_reader \<Rightarrow> io_reader" where
  "closerAdapter wrapped = wrapped"

datatype 'w compressor_writer = CodecWriter 'w | NoopWriter

fun writer_Write ::
  "'w codecs \<Rightarrow> 'w compressor_writer \<Rightarrow> bytes \<Rightarrow> 'w compressor_writer \<times> bytes \<times> error option" where
  "writer_Write cd (CodecWriter w) p = (case cd_Write cd w p of (w', out, e) \<Rightarrow> (CodecWriter w', out, e))"
| "writer_Write cd NoopWriter p = (NoopWriter, noop_Write p)"

fun writer_Flush ::
  "'w codecs \<Rightarrow> 'w compressor_writer \<Rightarrow> 'w compressor_writer \<times> bytes \<times> error option" where
  "writer_Flush cd (CodecWriter w) = (case cd_Flush cd w of (w', out, e) \<Rightarrow> (CodecWriter w', out, e))"
| "writer_Flush cd NoopWriter = (NoopWriter, noop_Flush)"

fun writer_Close :: "'w codecs \<Rightarrow> 'w compressor_writer \<Rightarrow> bytes \<times> error option" where
  "writer_Close cd (CodecWriter w) = cd_Close cd w"
| "writer_Close cd NoopWriter = noop_Close"

subsection \<open>The factories\<close>

definition wrap_creating :: "string \<Rightarrow> error \<Rightarrow> error" where
  "wrap_creating t = Wrapf (''error creating '' @ t @ '' reader: %w'')"

definition NewReader :: "'w codecs \<Rightarrow> compression_config \<Rightarrow> io_reader \<Rightarrow> error + io_reader" where
  "NewReader cd conf reader =
     (let t = strings_ToLower (cp_Type conf);
          r = (if t = GzipType \<or> t = ZlibType \<or> t = DeflateType then cd_NewReader cd t reader
               else if t = SnappyType \<or> t = ZstdType then
                 map_sum id closerAdapter (cd_NewReader cd t reader)
               else if t = [] then Inr (NewNoopCompressorReader reader)
               else Inl (Error (''invalid compression type '' @ cp_Type conf)))
      in (case r of Inl err \<Rightarrow> Inl (wrap_creating (cp_Type conf) err) | Inr d \<Rightarrow> Inr d))"

text \<open>
  \<open>NewWriter\<close>: the level, when set, must be a number; snappy has none; \<open>flate.DefaultCompression\<close>
  is -1.
\<close>

definition NewWriter :: "'w codecs \<Rightarrow> compression_config \<Rightarrow> error + 'w compressor_writer" where
  "NewWriter cd conf =
     (let levelSet = cp_Level conf \<noteq> [] in
      case (if levelSet then strconv_ParseInt (cp_Level conf) else Inr 0) of
        Inl err \<Rightarrow> Inl (Wrapf (''invalid compression level '' @ cp_Level conf @ '': %w'') err)
      | Inr level \<Rightarrow>
          let t = strings_ToLower (cp_Type conf);
              lvl = (if levelSet then Some level else None);
              c = (if t = GzipType \<or> t = ZlibType \<or> t = ZstdType then
                     map_sum id CodecWriter (cd_NewWriter cd t lvl)
                   else if t = DeflateType then
                     map_sum id CodecWriter (cd_NewWriter cd t (Some (if levelSet then level else -1)))
                   else if t = SnappyType then map_sum id CodecWriter (cd_NewWriter cd t None)
                   else if t = [] then Inr NoopWriter
                   else Inl (Error (''invalid compression type '' @ cp_Type conf)))
          in (case c of Inl err \<Rightarrow> Inl (wrap_creating (cp_Type conf) err) | Inr w \<Rightarrow> Inr w))"

subsection \<open>compress\<close>

definition SmallestAllowedCompressorWriter :: int where "SmallestAllowedCompressorWriter = 512"

text \<open>
  The bytes by which \<open>newCompressionResultBuffer\<close> grows the result buffer; Go's \<open>/\<close> truncates
  toward zero.  \<open>Grow\<close> panics on a negative number.
\<close>

definition newCompressionResultBuffer :: "compression_config \<Rightarrow> int \<Rightarrow> int go" where
  "newCompressionResultBuffer conf originalDataSize =
     (if cp_Type conf \<noteq> [] then
        let n = originalDataSize * cp_PreallocSlicePercentage conf;
            q = (if 0 \<le> n then n div 100 else - ((- n) div 100));
            relativeSize = (if q < SmallestAllowedCompressorWriter
                            then SmallestAllowedCompressorWriter else q)
        in if relativeSize < 0 then Panic ''bytes.Buffer.Grow: negative count'' else Ret relativeSize
      else Ret 0)"

definition compress :: "'w codecs \<Rightarrow> compression_config \<Rightarrow> bytes \<Rightarrow> (error + bytes) go" where
  "compress cd conf d =
     go_bind (newCompressionResultBuffer conf (int (length d))) (\<lambda>_.
       Ret (case NewWriter cd conf of
          Inl err \<Rightarrow> Inl (Wrapf ''error creating compressor: %w'' err)
        | Inr w \<Rightarrow>
            (case writer_Write cd w d of
               (w, out1, Some err) \<Rightarrow>
                 Inl (Wrapf ''error writing compressed data into memory buffer: %w'' err)
             | (w, out1, None) \<Rightarrow>
                 (case writer_Flush cd w of
                    (w, out2, Some err) \<Rightarrow> Inl (Wrapf
                      ''error writing (at the flush command) compressed data into memory buffer: %w'' err)
                  | (w, out2, None) \<Rightarrow>
                      (case writer_Close cd w of
                         (out3, Some err) \<Rightarrow> Inl (Wrapf
                           ''error writing (at the closing finish) compressed data into memory buffer: %w''
                           err)
                       | (out3, None) \<Rightarrow> Inr (out1 @ out2 @ out3))))))"

subsection \<open>Lemmas\<close>

lemma buffer_never_panics: "go_returns (newCompressionResultBuffer conf n)"
  by (auto simp: newCompressionResultBuffer_def SmallestAllowedCompressorWriter_def Let_def)

lemma compress_returns: "go_returns (compress cd conf d)"
  using buffer_never_panics[of conf "int (length d)"] by (auto simp: compress_def go_returns_iff)

lemma compress_none:
  assumes "cp_Type conf = []" and "cp_Level conf = []"
  shows "compress cd conf d = Ret (Inr d)"
  using assms
  by (simp add: compress_def newCompressionResultBuffer_def NewWriter_def strings_ToLower_def
      GzipType_def ZlibType_def ZstdType_def DeflateType_def SnappyType_def noop_Write_def
      noop_Flush_def noop_Close_def)

text \<open>
  What the packages promise of each algorithm: what a writer emitted for some data, through
  \<open>Write\<close>, \<open>Flush\<close> and \<open>Close\<close>, a reader on any chunking of these bytes gives back.
\<close>

locale lossless_codecs =
  fixes cd :: "'w codecs"
  assumes reader_inverts:
    "cd_NewWriter cd t lvl = Inr w \<Longrightarrow> cd_Write cd w d = (w1, o1, None) \<Longrightarrow>
     cd_Flush cd w1 = (w2, o2, None) \<Longrightarrow> cd_Close cd w2 = (o3, None) \<Longrightarrow>
     rd_data r = o1 @ o2 @ o3 \<Longrightarrow> rd_end r = None \<Longrightarrow>
     \<exists>r'. cd_NewReader cd t r = Inr r' \<and> rd_data r' = d \<and> rd_end r' = None"
begin

lemma NewWriter_cases:
  assumes "NewWriter cd conf = Inr w"
  shows "w = NoopWriter \<and> strings_ToLower (cp_Type conf) = [] \<or>
    (\<exists>v lvl t. w = CodecWriter v \<and> strings_ToLower (cp_Type conf) = t \<and>
       t \<in> {GzipType, ZlibType, DeflateType, SnappyType, ZstdType} \<and> cd_NewWriter cd t lvl = Inr v)"
proof -
  note types = GzipType_def ZlibType_def DeflateType_def SnappyType_def ZstdType_def
  have inr: "map_sum id CodecWriter s = Inr w \<Longrightarrow> \<exists>v. w = CodecWriter v \<and> s = Inr v" for s
    by (cases s) auto
  from assms show ?thesis
    by (auto simp: NewWriter_def Let_def types split: sum.splits if_splits dest!: inr)
qed

lemma NewReader_codec:
  assumes "strings_ToLower (cp_Type conf) = t"
    and "t \<in> {GzipType, ZlibType, DeflateType, SnappyType, ZstdType}"
    and "cd_NewReader cd t r = Inr r'"
  shows "NewReader cd conf r = Inr r'"
  using assms by (auto simp: NewReader_def Let_def closerAdapter_def)

lemma NewReader_none:
  "strings_ToLower (cp_Type conf) = [] \<Longrightarrow> NewReader cd conf r = Inr r"
  by (simp add: NewReader_def Let_def NewNoopCompressorReader_def GzipType_def ZlibType_def
      DeflateType_def SnappyType_def ZstdType_def)

lemma read_back_written:
  assumes c: "compress cd conf d = Ret (Inr out)" and r: "rd_data r = out" "rd_end r = None"
  shows "\<exists>r'. NewReader cd conf r = Inr r' \<and> rd_data r' = d \<and> rd_end r' = None"
proof -
  obtain w w1 o1 w2 o2 o3 where w: "NewWriter cd conf = Inr w" "writer_Write cd w d = (w1, o1, None)"
    "writer_Flush cd w1 = (w2, o2, None)" "writer_Close cd w2 = (o3, None)" "out = o1 @ o2 @ o3"
    using c by (auto simp: compress_def go_ret_iff split: sum.splits prod.splits option.splits)
  from NewWriter_cases[OF w(1)] show ?thesis
  proof
    assume "w = NoopWriter \<and> strings_ToLower (cp_Type conf) = []"
    with w r NewReader_none[of conf r] show ?thesis
      by (auto simp: noop_Write_def noop_Flush_def noop_Close_def)
  next
    assume "\<exists>v lvl t. w = CodecWriter v \<and> strings_ToLower (cp_Type conf) = t \<and>
       t \<in> {GzipType, ZlibType, DeflateType, SnappyType, ZstdType} \<and> cd_NewWriter cd t lvl = Inr v"
    then obtain v lvl t where v: "w = CodecWriter v" "strings_ToLower (cp_Type conf) = t"
      "t \<in> {GzipType, ZlibType, DeflateType, SnappyType, ZstdType}" "cd_NewWriter cd t lvl = Inr v"
      by blast
    obtain v1 v2 where
      "cd_Write cd v d = (v1, o1, None)" "cd_Flush cd v1 = (v2, o2, None)" "cd_Close cd v2 = (o3, None)"
      using w v by (auto split: prod.splits)
    from reader_inverts[OF v(4) this] r w(5) obtain r' where
      "cd_NewReader cd t r = Inr r'" "rd_data r' = d" "rd_end r' = None" by blast
    with NewReader_codec[OF v(2,3)] show ?thesis by blast
  qed
qed

end

subsection \<open>An instance of the parameter\<close>

text \<open>
  An algorithm that satisfies the law, with which the parameter can be instantiated: a header byte,
  the data, a trailer byte written by \<open>Close\<close>.  It refuses levels above 9.
\<close>

definition framed_codecs :: "string codecs" where
  "framed_codecs =
     \<lparr>cd_NewWriter = (\<lambda>t lvl. if lvl = Some 10 then Inl (Error ''invalid level'') else Inr t),
      cd_Write = (\<lambda>w p. (w, 31 # p, None)),
      cd_Flush = (\<lambda>w. (w, [], None)),
      cd_Close = (\<lambda>w. ([0], None)),
      cd_NewReader = (\<lambda>t r.
        if 2 \<le> length (rd_data r) \<and> hd (rd_data r) = 31
        then Inr \<lparr>rd_chunks = [butlast (tl (rd_data r))], rd_end = rd_end r\<rparr>
        else Inl (Error ''invalid header''))\<rparr>"

interpretation framed: lossless_codecs framed_codecs
  by unfold_locales (auto simp: framed_codecs_def rd_data_def split: if_splits)

subsection \<open>Properties\<close>

text \<open>
  C23 (roundtrip): for lossless algorithms, whatever type and level are configured, if \<open>compress\<close>
  returns data without an error then a reader made by \<open>NewReader\<close> for the same configuration, on
  that data in any chunking, yields the original payload and ends without an error.
\<close>

theorem compress_roundtrip:
  assumes "lossless_codecs cd" and "compress cd conf d = Ret (Inr out)"
    and "concat chunks = out"
  shows "\<exists>r. NewReader cd conf \<lparr>rd_chunks = chunks, rd_end = None\<rparr> = Inr r \<and>
    rd_data r = d \<and> rd_end r = None"
  using lossless_codecs.read_back_written[OF assms(1,2), of "\<lparr>rd_chunks = chunks, rd_end = None\<rparr>"]
    assms(3) by (simp add: rd_data_def)

lemma framed_compress:
  "compress framed_codecs \<lparr>cp_Level = ''9'', cp_Type = ''GZip'', cp_PreallocSlicePercentage = 2\<rparr>
     [1, 2] = Ret (Inr [31, 1, 2, 0])"
proof -
  have "strings_ToLower ''GZip'' = ''gzip''" by code_simp
  moreover have "strconv_ParseInt ''9'' = Inr 9"
    by (simp add: strconv_ParseInt_def strconv_ParseUint_def is_digit_def digit_val_def)
  ultimately show ?thesis
    by (simp add: compress_def newCompressionResultBuffer_def NewWriter_def GzipType_def
        framed_codecs_def SmallestAllowedCompressorWriter_def)
qed

lemma compress_roundtrip_witness:
  "\<exists>r. NewReader framed_codecs \<lparr>cp_Level = ''9'', cp_Type = ''GZip'', cp_PreallocSlicePercentage = 2\<rparr>
     \<lparr>rd_chunks = [[31, 1], [2, 0]], rd_end = None\<rparr> = Inr r \<and> rd_data r = [1, 2] \<and> rd_end r = None"
  by (rule compress_roundtrip[OF framed.lossless_codecs_axioms framed_compress]) simp

text \<open>
  \<open>compress\<close> never panics and never blocks, whatever the configuration and the data
  (the preallocation is never negative), and without a compression type it is the identity.
\<close>

lemma compress_total:
  "go_returns (compress cd conf d) \<and>
   (cp_Type conf \<noteq> [] \<or> cp_Level conf \<noteq> [] \<or> compress cd conf d = Ret (Inr d)) \<and>
   (cp_Type conf = [] \<or>
      (\<exists>n. newCompressionResultBuffer conf (int (length d)) = Ret n \<and> 512 \<le> n))"
proof (intro conjI)
  show "go_returns (compress cd conf d)" by (rule compress_returns)
  show "cp_Type conf \<noteq> [] \<or> cp_Level conf \<noteq> [] \<or> compress cd conf d = Ret (Inr d)"
    using compress_none[of conf cd d] by blast
  show "cp_Type conf = [] \<or>
      (\<exists>n. newCompressionResultBuffer conf (int (length d)) = Ret n \<and> 512 \<le> n)"
    by (simp add: newCompressionResultBuffer_def SmallestAllowedCompressorWriter_def Let_def)
qed

end
