(* ===== verification/Http_Middleware.thy ===== *)
theory Http_Middleware
  imports Go_Strings Compression
begin

text \<open>
  HTTP handlers and the middlewares around them: pkg/adapters/httpin/httpmiddleware with auth.go,
  logging.go, metrics.go, recoverer.go, response_writer.go and tracing.go.  Package net/http is
  modelled as far as these use it.  A handler acts on the response writer and on the state \<open>'s\<close> of
  the components behind it, and ends in one of the ways of \<open>exit\<close>; a panic keeps what was done
  before it, because the recoverer goes on from there.
\<close>

subsection \<open>Requests and responses\<close>

record http_request =
  rq_Method :: string
  rq_Path :: string
  rq_Headers :: "string \<Rightarrow> string list"
  rq_Body :: io_reader
  rq_TLS :: bool
  rq_RoutePattern :: string
  rq_RequestURI :: string
  rq_Host :: string
  rq_UserAgent :: string
  rq_Proto :: string
  rq_RemoteAddr :: string

text \<open>\<open>r.Header.Get(k)\<close>: the first value, or the empty string.\<close>

definition header_Get :: "http_request \<Rightarrow> string \<Rightarrow> string" where
  "header_Get r k = (case rq_Headers r k of [] \<Rightarrow> [] | v # vs \<Rightarrow> v)"

text \<open>
  What the client sees: the status and the headers at the time of the first \<open>WriteHeader\<close> (later
  calls and later header changes have no effect), and the body.
\<close>

record response =
  rs_status :: "int option"
  rs_sent_headers :: "(string \<times> string) list"
  rs_headers :: "(string \<times> string) list"
  rs_body :: bytes

text \<open>\<open>responseWriterWrapper\<close>; the writer a handler gets is a stack of them over the server's own.\<close>

record rw_wrapper =
  rw_statusCode :: int
  rw_responseSize :: int

record writer =
  wr_wrappers :: "rw_wrapper list"
  wr_resp :: response

definition resp_WriteHeader :: "int \<Rightarrow> response \<Rightarrow> response" where
  "resp_WriteHeader code r =
     (if rs_status r = None then r\<lparr>rs_status := Some code, rs_sent_headers := rs_headers r\<rparr> else r)"

definition WriteHeader :: "int \<Rightarrow> writer \<Rightarrow> writer" where
  "WriteHeader code w =
     w\<lparr>wr_wrappers := map (\<lambda>x. x\<lparr>rw_statusCode := code\<rparr>) (wr_wrappers w),
       wr_resp := resp_WriteHeader code (wr_resp w)\<rparr>"

definition Write :: "bytes \<Rightarrow> writer \<Rightarrow> writer" where
  "Write d w =
     (let r = resp_WriteHeader 200 (wr_resp w) in
      w\<lparr>wr_wrappers := map (\<lambda>x. x\<lparr>rw_responseSize := int (length d)\<rparr>) (wr_wrappers w),
        wr_resp := r\<lparr>rs_body := rs_body r @ d\<rparr>\<rparr>)"

definition header_Set :: "string \<Rightarrow> string \<Rightarrow> writer \<Rightarrow> writer" where
  "header_Set k v w =
     w\<lparr>wr_resp := (wr_resp w)\<lparr>rs_headers := rs_headers (wr_resp w) @ [(k, v)]\<rparr>\<rparr>"

text \<open>What is sent when the handler returns without having written anything: 200.\<close>

definition final_status :: "writer \<Rightarrow> int" where
  "final_status w = (case rs_status (wr_resp w) of None \<Rightarrow> 200 | Some c \<Rightarrow> c)"

datatype exit = Returned | Panicked string | AbortHandler | Blocked

type_synonym 's handler = "http_request \<Rightarrow> writer \<times> 's \<Rightarrow> (writer \<times> 's) \<times> exit"

definition new_writer :: writer where
  "new_writer = \<lparr>wr_wrappers = [],
     wr_resp = \<lparr>rs_status = None, rs_sent_headers = [], rs_headers = [], rs_body = []\<rparr>\<rparr>"

definition push_wrapper :: "writer \<Rightarrow> writer" where
  "push_wrapper w = w\<lparr>wr_wrappers := \<lparr>rw_statusCode = 0, rw_responseSize = 0\<rparr> # wr_wrappers w\<rparr>"

definition pop_wrapper :: "writer \<Rightarrow> rw_wrapper \<times> writer" where
  "pop_wrapper w = (hd (wr_wrappers w), w\<lparr>wr_wrappers := tl (wr_wrappers w)\<rparr>)"

subsection \<open>Auth\<close>

definition Auth :: "string \<Rightarrow> 's handler \<Rightarrow> 's handler" where
  "Auth token h r st =
     (let formatedToken = ''Bearer '' @ token; reqToken = header_Get r ''Authorization'' in
      if reqToken \<noteq> formatedToken then ((WriteHeader 401 (fst st), snd st), Returned) else h r st)"

subsection \<open>Recoverer\<close>

text \<open>
  The deferred function recovers every panic, also \<open>http.ErrAbortHandler\<close>, for which it then does
  nothing.
\<close>

definition Recoverer :: "'s handler \<Rightarrow> 's handler" where
  "Recoverer h r st =
     (case h r st of
        ((w, s), Panicked m) \<Rightarrow> ((WriteHeader 500 w, s), Returned)
      | ((w, s), AbortHandler) \<Rightarrow> ((w, s), Returned)
      | x \<Rightarrow> x)"

subsection \<open>Metrics and logging\<close>

record log_line =
  ll_method :: string
  ll_path :: string
  ll_status :: int
  ll_size :: int
  ll_from :: string

record span =
  sp_name :: string
  sp_attributes :: "(string \<times> string) list"
  sp_statusCode :: int
  sp_ok :: bool

text \<open>What the middlewares record; \<open>'s\<close> is the state of the handler inside.\<close>

record 's observed =
  ob_inner :: 's
  ob_latency_count :: "string \<Rightarrow> nat"
  ob_reqsCount :: "string \<times> string \<times> string \<Rightarrow> nat"
  ob_log :: "log_line list"
  ob_spans :: "span list"

definition inner_handler :: "'s handler \<Rightarrow> 's observed handler" where
  "inner_handler h r st =
     (case h r (fst st, ob_inner (snd st)) of
        ((w, s), x) \<Rightarrow> ((w, (snd st)\<lparr>ob_inner := s\<rparr>), x))"

definition MetricsMiddleware :: "'s observed handler \<Rightarrow> 's observed handler" where
  "MetricsMiddleware next r st =
     (case next r (push_wrapper (fst st), snd st) of
        ((w, ob), Returned) \<Rightarrow>
          (let (wrapper, w) = pop_wrapper w;
               lab = (strconv_Itoa (rw_statusCode wrapper), rq_Method r, rq_Path r) in
           ((w, ob\<lparr>ob_latency_count := (ob_latency_count ob)
                      (rq_Path r := ob_latency_count ob (rq_Path r) + 1),
                   ob_reqsCount := (ob_reqsCount ob)(lab := ob_reqsCount ob lab + 1)\<rparr>), Returned))
      | ((w, ob), x) \<Rightarrow> ((snd (pop_wrapper w), ob), x))"

definition LoggingMiddleware :: "'s observed handler \<Rightarrow> 's observed handler" where
  "LoggingMiddleware next r st =
     (case next r (push_wrapper (fst st), snd st) of
        ((w, ob), Returned) \<Rightarrow>
          (let (wrapper, w) = pop_wrapper w in
           ((w, ob\<lparr>ob_log := ob_log ob @
              [\<lparr>ll_method = rq_Method r, ll_path = rq_Path r, ll_status = rw_statusCode wrapper,
                ll_size = rw_responseSize wrapper, ll_from = rq_RemoteAddr r\<rparr>]\<rparr>), Returned))
      | ((w, ob), x) \<Rightarrow> ((snd (pop_wrapper w), ob), x))"

subsection \<open>Tracing\<close>

definition SkippedRoutes :: "string list" where "SkippedRoutes = [''/metrics'']"

definition skipRoute :: "string \<Rightarrow> http_request \<Rightarrow> bool" where
  "skipRoute chiRoute r =
     (if chiRoute \<noteq> [] then List.member SkippedRoutes chiRoute
      else List.member SkippedRoutes (rq_Path r))"

definition spanAttributes :: "http_request \<Rightarrow> (string \<times> string) list" where
  "spanAttributes r =
     (let forwarded = header_Get r ''X-Forwarded-Proto'';
          scheme = (if forwarded = [] then (if rq_TLS r then ''https'' else ''http'') else forwarded) in
      [(''http.method'', rq_Method r), (''http.target'', rq_RequestURI r), (''http.host'', rq_Host r),
       (''http.scheme'', scheme), (''http.user_agent'', rq_UserAgent r),
       (''http.flavor'', rq_Proto r), (''http.route'', rq_RoutePattern r)])"

text \<open>
  The span is ended by a deferred call, so it is recorded also when \<open>next\<close> panics, then without a
  status.
\<close>

definition TracingMiddleware :: "'s observed handler \<Rightarrow> 's observed handler" where
  "TracingMiddleware next r st =
     (if skipRoute (rq_RoutePattern r) r then
        (case next r (push_wrapper (fst st), snd st) of
           ((w, ob), x) \<Rightarrow> ((snd (pop_wrapper w), ob), x))
      else
        (case next r (push_wrapper (fst st), snd st) of
           ((w, ob), x) \<Rightarrow>
             (let (wrapper, w) = pop_wrapper w; code = rw_statusCode wrapper;
                  sp = \<lparr>sp_name = rq_Method r @ rq_RoutePattern r,
                        sp_attributes = spanAttributes r,
                        sp_statusCode = (if x = Returned then code else 0),
                        sp_ok = (x = Returned \<and> 100 \<le> code \<and> code < 400)\<rparr> in
              ((w, ob\<lparr>ob_spans := ob_spans ob @ [sp]\<rparr>), x))))"

text \<open>
  \<open>registerDefaultMiddlewares\<close>: logging, tracing, metrics, recoverer, from the outside in, and with
  a limit the body limiter of the package chi, \<open>requestSize limit\<close>, inside them.
\<close>

definition limit_body :: "(int \<Rightarrow> io_reader \<Rightarrow> io_reader) \<Rightarrow> int \<Rightarrow> 's handler \<Rightarrow> 's handler" where
  "limit_body requestSize sizeLimit h r st =
     h (if 0 < sizeLimit then r\<lparr>rq_Body := requestSize sizeLimit (rq_Body r)\<rparr> else r) st"

definition default_middlewares ::
  "(int \<Rightarrow> io_reader \<Rightarrow> io_reader) \<Rightarrow> int \<Rightarrow> 's handler \<Rightarrow> 's observed handler" where
  "default_middlewares requestSize sizeLimit h =
     LoggingMiddleware (TracingMiddleware (MetricsMiddleware (Recoverer
       (inner_handler (limit_body requestSize sizeLimit h)))))"

subsection \<open>Lemmas\<close>

lemma WriteHeader_simps [simp]:
  "length (wr_wrappers (WriteHeader c w)) = length (wr_wrappers w)"
  "final_status (WriteHeader c w) = (if rs_status (wr_resp w) = None then c else final_status w)"
  "rs_status (wr_resp (WriteHeader c w)) =
     (if rs_status (wr_resp w) = None then Some c else rs_status (wr_resp w))"
  "rs_headers (wr_resp (WriteHeader c w)) = rs_headers (wr_resp w)"
  by (auto simp: WriteHeader_def resp_WriteHeader_def final_status_def)

lemma push_wrapper_simps [simp]:
  "wr_wrappers (push_wrapper w) = \<lparr>rw_statusCode = 0, rw_responseSize = 0\<rparr> # wr_wrappers w"
  "wr_resp (push_wrapper w) = wr_resp w"
  by (simp_all add: push_wrapper_def)

text \<open>
  \<open>answers h r s code size' s'\<close>: on request \<open>r\<close> in state \<open>s\<close>, and with nothing sent before it, the
  handler sends the status \<open>code\<close> and ends in state \<open>s'\<close>; the wrappers have seen that status, and
  \<open>size'\<close> as the size of the last \<open>Write\<close>.
\<close>

definition fresh_wrapper :: rw_wrapper where
  "fresh_wrapper = \<lparr>rw_statusCode = 0, rw_responseSize = 0\<rparr>"

definition answers :: "'s handler \<Rightarrow> http_request \<Rightarrow> 's \<Rightarrow> int \<Rightarrow> int \<Rightarrow> 's \<Rightarrow> bool" where
  "answers h r s code size' s' \<longleftrightarrow>
     (\<forall>w. rs_status (wr_resp w) = None \<and> set (wr_wrappers w) \<subseteq> {fresh_wrapper} \<longrightarrow>
        (\<exists>resp. h r (w, s) =
           ((w\<lparr>wr_wrappers := map (\<lambda>x. x\<lparr>rw_statusCode := code, rw_responseSize := size'\<rparr>)
                               (wr_wrappers w),
               wr_resp := resp\<rparr>, s'), Returned) \<and> rs_status resp = Some code))"

lemma WriteHeader_fresh:
  assumes "set (wr_wrappers w) \<subseteq> {fresh_wrapper}"
  shows "WriteHeader c w =
    w\<lparr>wr_wrappers := map (\<lambda>x. x\<lparr>rw_statusCode := c, rw_responseSize := 0\<rparr>) (wr_wrappers w),
      wr_resp := resp_WriteHeader c (wr_resp w)\<rparr>"
proof -
  have "map (\<lambda>x. x\<lparr>rw_statusCode := c\<rparr>) (wr_wrappers w) =
      map (\<lambda>x. x\<lparr>rw_statusCode := c, rw_responseSize := 0\<rparr>) (wr_wrappers w)"
    using assms by (intro map_cong) (auto simp: fresh_wrapper_def)
  then show ?thesis by (simp add: WriteHeader_def)
qed

lemma answers_WriteHeader:
  assumes "\<And>w. h r (w, s) = ((WriteHeader c w, s'), Returned)"
  shows "answers h r s c 0 s'"
  using assms by (auto simp: answers_def WriteHeader_fresh resp_WriteHeader_def)

lemma default_middlewares_answers:
  assumes "answers h (if 0 < sizeLimit then r\<lparr>rq_Body := requestSize sizeLimit (rq_Body r)\<rparr> else r)
      (ob_inner ob) code size' s'"
  shows "\<exists>w ob'. default_middlewares requestSize sizeLimit h r (new_writer, ob) = ((w, ob'), Returned) \<and>
    final_status w = code \<and> ob_inner ob' = s' \<and>
    ob_reqsCount ob' = (let lab = (strconv_Itoa code, rq_Method r, rq_Path r) in
      (ob_reqsCount ob)(lab := ob_reqsCount ob lab + 1)) \<and>
    (\<exists>l. ob_log ob' = ob_log ob @ [l] \<and> ll_status l = code \<and> ll_size l = size' \<and>
       ll_path l = rq_Path r) \<and>
    (if skipRoute (rq_RoutePattern r) r then ob_spans ob' = ob_spans ob
     else \<exists>sp. ob_spans ob' = ob_spans ob @ [sp] \<and> sp_statusCode sp = code \<and>
       sp_ok sp = (100 \<le> code \<and> code < 400))"
proof -
  let ?w = "push_wrapper (push_wrapper (push_wrapper new_writer))"
  have "rs_status (wr_resp ?w) = None \<and> set (wr_wrappers ?w) \<subseteq> {fresh_wrapper}"
    by (simp add: new_writer_def fresh_wrapper_def)
  with assms obtain resp where
    h: "limit_body requestSize sizeLimit h r (?w, ob_inner ob) =
      ((?w\<lparr>wr_wrappers := map (\<lambda>x. x\<lparr>rw_statusCode := code, rw_responseSize := size'\<rparr>) (wr_wrappers ?w),
           wr_resp := resp\<rparr>, s'), Returned)" and st: "rs_status resp = Some code"
    unfolding answers_def limit_body_def by blast
  show ?thesis
    using h st
    by (simp add: default_middlewares_def LoggingMiddleware_def TracingMiddleware_def
        MetricsMiddleware_def Recoverer_def inner_handler_def pop_wrapper_def final_status_def Let_def)
qed

text \<open>What reaches the server's own code: never a panic.\<close>

lemma Recoverer_no_panic: "snd (Recoverer h r st) = Returned \<or> snd (Recoverer h r st) = Blocked"
  by (auto simp: Recoverer_def split: prod.split exit.split)

subsection \<open>Properties\<close>


definition sample_request :: http_request where
  "sample_request = \<lparr>rq_Method = ''GET'', rq_Path = ''/ready'', rq_Headers = (\<lambda>_. []),
     rq_Body = \<lparr>rd_chunks = [], rd_end = None\<rparr>, rq_TLS = False, rq_RoutePattern = [],
     rq_RequestURI = ''/ready'', rq_Host = ''h'', rq_UserAgent = [], rq_Proto = ''HTTP/1.1'',
     rq_RemoteAddr = ''c''\<rparr>"

definition no_observations :: "'s \<Rightarrow> 's observed" where
  "no_observations s = \<lparr>ob_inner = s, ob_latency_count = (\<lambda>_. 0), ob_reqsCount = (\<lambda>_. 0),
     ob_log = [], ob_spans = []\<rparr>"


end
