(* ===== verification/Go_Chan.thy ===== *)
theory Go_Chan
  imports Prelude
begin

text \<open>
  Go channels: a bounded FIFO buffer with a closed flag.  Sending on a closed channel and closing
  it twice panic; receiving from a closed channel yields the buffered values first and then
  "no more" at once; the other operations wait when they cannot proceed.  The interface the
  components rely on is the locale \<open>fifo_channel\<close>; its client lemmas are about the drain loop
  that every shutdown of the program runs.
\<close>

record 'a gochan =
  chan_cap :: nat
  chan_buf :: "'a list"
  chan_closed :: bool

definition make_chan :: "int \<Rightarrow> 'a gochan go" where
  "make_chan n =
     (if n < 0 then Panic ''makechan: size out of range''
      else Ret \<lparr>chan_cap = nat n, chan_buf = [], chan_closed = False\<rparr>)"

text \<open>
  A \<open>select\<close> with a send and a \<open>default\<close>.  The send is taken when the buffer has room, or when a
  receiver is already parked on the channel (\<open>rdy\<close>), which can only be while the buffer is empty:
  the value is then handed over, which is the only way to send on a channel of capacity 0.
\<close>

definition chan_try_send :: "bool \<Rightarrow> 'a gochan \<Rightarrow> 'a \<Rightarrow> ('a gochan \<times> bool) go" where
  "chan_try_send rdy ch x =
     (if chan_closed ch then Panic ''send on closed channel''
      else if length (chan_buf ch) < chan_cap ch \<or> (rdy \<and> chan_buf ch = [])
        then Ret (ch\<lparr>chan_buf := chan_buf ch @ [x]\<rparr>, True)
      else Ret (ch, False))"

text \<open>A plain send \<open>ch <- x\<close> on a buffered channel.\<close>

definition chan_send :: "'a gochan \<Rightarrow> 'a \<Rightarrow> 'a gochan go" where
  "chan_send ch x =
     (if chan_closed ch then Panic ''send on closed channel''
      else if length (chan_buf ch) < chan_cap ch
        then Ret (ch\<lparr>chan_buf := chan_buf ch @ [x]\<rparr>)
      else Block)"

text \<open>\<open>v, more := <-ch\<close>: \<open>Some v\<close> for a value, \<open>None\<close> for "closed and empty".\<close>

definition chan_recv :: "'a gochan \<Rightarrow> ('a gochan \<times> 'a option) go" where
  "chan_recv ch =
     (case chan_buf ch of
        x # xs \<Rightarrow> Ret (ch\<lparr>chan_buf := xs\<rparr>, Some x)
      | [] \<Rightarrow> if chan_closed ch then Ret (ch, None) else Block)"

definition chan_close :: "'a gochan \<Rightarrow> 'a gochan go" where
  "chan_close ch =
     (if chan_closed ch then Panic ''close of closed channel''
      else Ret (ch\<lparr>chan_closed := True\<rparr>))"

text \<open>Within its bounds: at most one value beyond the capacity is being handed over.\<close>

definition chan_wf :: "'a gochan \<Rightarrow> bool" where
  "chan_wf ch \<longleftrightarrow> length (chan_buf ch) \<le> max 1 (chan_cap ch)"

subsection \<open>What each operation does\<close>

lemma make_chan_Ret_iff [go_ret_iff]:
  "make_chan n = Ret ch \<longleftrightarrow>
     0 \<le> n \<and> ch = \<lparr>chan_cap = nat n, chan_buf = [], chan_closed = False\<rparr>"
  by (auto simp: make_chan_def)

lemma chan_recv_Some_iff [go_ret_iff]:
  "chan_recv ch = Ret (ch', Some x) \<longleftrightarrow>
     (\<exists>xs. chan_buf ch = x # xs \<and> ch' = ch\<lparr>chan_buf := xs\<rparr>)"
  by (auto simp: chan_recv_def split: list.splits if_splits)

lemma chan_recv_None_iff [go_ret_iff]:
  "chan_recv ch = Ret (ch', None) \<longleftrightarrow> chan_buf ch = [] \<and> chan_closed ch \<and> ch' = ch"
  by (auto simp: chan_recv_def split: list.splits if_splits)

lemma chan_recv_no_panic [simp]: "\<not> go_panics (chan_recv ch)"
  by (auto simp: chan_recv_def split: list.splits)

lemma chan_close_Ret_iff [go_ret_iff]:
  "chan_close ch = Ret ch' \<longleftrightarrow> \<not> chan_closed ch \<and> ch' = ch\<lparr>chan_closed := True\<rparr>"
  by (auto simp: chan_close_def)

lemma chan_try_send_True_iff [go_ret_iff]:
  "chan_try_send rdy ch x = Ret (ch', True) \<longleftrightarrow>
     \<not> chan_closed ch \<and> (length (chan_buf ch) < chan_cap ch \<or> (rdy \<and> chan_buf ch = [])) \<and>
     ch' = ch\<lparr>chan_buf := chan_buf ch @ [x]\<rparr>"
  by (auto simp: chan_try_send_def)

lemma chan_try_send_False_iff [go_ret_iff]:
  "chan_try_send rdy ch x = Ret (ch', False) \<longleftrightarrow>
     \<not> chan_closed ch \<and> chan_cap ch \<le> length (chan_buf ch) \<and> \<not> (rdy \<and> chan_buf ch = []) \<and>
     ch' = ch"
  by (auto simp: chan_try_send_def)

lemma chan_try_send_returns: "\<not> chan_closed ch \<Longrightarrow> go_returns (chan_try_send rdy ch x)"
  by (auto simp: chan_try_send_def)

lemma chan_send_Ret_iff [go_ret_iff]:
  "chan_send ch x = Ret ch' \<longleftrightarrow>
     \<not> chan_closed ch \<and> length (chan_buf ch) < chan_cap ch \<and>
     ch' = ch\<lparr>chan_buf := chan_buf ch @ [x]\<rparr>"
  by (auto simp: chan_send_def)

subsection \<open>The channel interface\<close>

locale fifo_channel =
  fixes try_send :: "bool \<Rightarrow> 'c \<Rightarrow> 'a \<Rightarrow> ('c \<times> bool) go"
    and recv :: "'c \<Rightarrow> ('c \<times> 'a option) go"
    and close :: "'c \<Rightarrow> 'c go"
    and contents :: "'c \<Rightarrow> 'a list"
    and closed :: "'c \<Rightarrow> bool"
    and wf :: "'c \<Rightarrow> bool"
  assumes try_send_sent: "try_send rdy c x = Ret (c', True) \<Longrightarrow>
      contents c' = contents c @ [x] \<and> closed c' = closed c \<and> (wf c \<longrightarrow> wf c')"
    and try_send_full: "try_send rdy c x = Ret (c', False) \<Longrightarrow> c' = c"
    and try_send_open: "\<not> closed c \<Longrightarrow> go_returns (try_send rdy c x)"
    and recv_value: "recv c = Ret (c', Some x) \<Longrightarrow>
      contents c = x # contents c' \<and> closed c' = closed c \<and> (wf c \<longrightarrow> wf c')"
    and recv_more: "contents c \<noteq> [] \<Longrightarrow> \<exists>c' x. recv c = Ret (c', Some x)"
    and recv_none: "recv c = Ret (c', None) \<longleftrightarrow> contents c = [] \<and> closed c \<and> c' = c"
    and close_open: "\<not> closed c \<Longrightarrow>
      \<exists>c'. close c = Ret c' \<and> contents c' = contents c \<and> closed c' \<and> (wf c \<longrightarrow> wf c')"
begin

text \<open>First in, first out: what a sequence of successful sends put in comes out in order.\<close>

lemma recv_after_sends:
  assumes "contents c = x # xs" and "recv c = Ret (c', v)"
  shows "v = Some x \<and> contents c' = xs"
proof (cases v)
  case None
  with assms show ?thesis by (simp add: recv_none)
next
  case (Some y)
  with assms recv_value[of c c' y] show ?thesis by simp
qed

text \<open>A goroutine that receives from a closed channel never waits.\<close>

lemma recv_closed_returns: "closed c \<Longrightarrow> go_returns (recv c)"
proof (cases "contents c = []")
  case True
  assume "closed c"
  with True have "recv c = Ret (c, None)" by (simp add: recv_none)
  then show ?thesis by simp
next
  case False
  then obtain c' x where "recv c = Ret (c', Some x)" using recv_more by blast
  then show ?thesis by simp
qed

end

interpretation gc: fifo_channel chan_try_send chan_recv chan_close chan_buf chan_closed chan_wf
proof unfold_locales
  fix c :: "'a gochan" and x
  show "chan_buf c \<noteq> [] \<Longrightarrow> \<exists>c' x. chan_recv c = Ret (c', Some x)"
    by (auto simp: chan_recv_def neq_Nil_conv)
qed (auto simp: go_ret_iff chan_wf_def chan_try_send_returns)

subsection \<open>The drain loop\<close>

text \<open>
  \<open>for { x, more := <-ch; if !more { break }; f(x) }\<close>, the loop of every \<open>shutdown\<close> and of the
  workers' \<open>drainWorkChan\<close>.  The channel is the loop's own; the body sees it as it is after the
  receive.
\<close>

function drain :: "('a gochan \<Rightarrow> 'a \<Rightarrow> 's \<Rightarrow> 's go) \<Rightarrow> 'a gochan \<Rightarrow> 's \<Rightarrow> ('a gochan \<times> 's) go" where
  "drain f ch s =
     (case chan_recv ch of
        Block \<Rightarrow> Block
      | Panic m \<Rightarrow> Panic m
      | Ret (ch', None) \<Rightarrow> Ret (ch', s)
      | Ret (ch', Some x) \<Rightarrow>
          (case f ch' x s of
             Ret s' \<Rightarrow> drain f ch' s'
           | Block \<Rightarrow> Block
           | Panic m \<Rightarrow> Panic m))"
  by pat_completeness auto
termination
  by (relation "measure (\<lambda>(f, ch, s). length (chan_buf ch))") (auto simp: go_ret_iff)

declare drain.simps [simp del]

lemma drain_closed_Nil: "chan_buf ch = [] \<Longrightarrow> chan_closed ch \<Longrightarrow> drain f ch s = Ret (ch, s)"
  by (subst drain.simps) (simp add: chan_recv_def)

lemma drain_closed_Cons:
  "chan_buf ch = x # xs \<Longrightarrow>
   drain f ch s =
     go_bind (f (ch\<lparr>chan_buf := xs\<rparr>) x s) (\<lambda>s'. drain f (ch\<lparr>chan_buf := xs\<rparr>) s')"
  by (subst drain.simps) (simp add: chan_recv_def split: go.split)

text \<open>
  On a closed channel the loop works on exactly the buffered values, in order: what the body keeps
  about the values worked on so far (\<open>I\<close>) holds for all of them at the end.
\<close>

lemma drain_closed_rule:
  assumes "\<And>hs x ch s s'. I hs s \<Longrightarrow> f ch x s = Ret s' \<Longrightarrow> I (hs @ [x]) s'"
    and "chan_closed ch" and "I hs s" and "drain f ch s = Ret (ch', s')"
  shows "ch' = ch\<lparr>chan_buf := []\<rparr> \<and> I (hs @ chan_buf ch) s'"
  using assms(2-)
proof (induction "chan_buf ch" arbitrary: ch hs s)
  case Nil
  then show ?case by (simp add: drain_closed_Nil)
next
  case (Cons x xs)
  then obtain t where t: "f (ch\<lparr>chan_buf := xs\<rparr>) x s = Ret t"
    "drain f (ch\<lparr>chan_buf := xs\<rparr>) t = Ret (ch', s')"
    by (auto simp: drain_closed_Cons[OF Cons.hyps(2)[symmetric]] go_ret_iff)
  from Cons.hyps(1)[OF _ _ assms(1)[OF Cons.prems(2) t(1)] t(2)] Cons.prems(1)
  show ?case by (simp flip: Cons.hyps(2))
qed

text \<open>And it terminates when the body does.\<close>

lemma drain_closed_returns:
  assumes "\<And>x ch s. P s \<Longrightarrow> \<exists>s'. f ch x s = Ret s' \<and> P s'"
    and "chan_closed ch" and "P s"
  shows "\<exists>ch' s'. drain f ch s = Ret (ch', s') \<and> P s'"
  using assms(2-)
proof (induction "chan_buf ch" arbitrary: ch s)
  case Nil
  then show ?case by (simp add: drain_closed_Nil)
next
  case (Cons x xs)
  obtain t where "f (ch\<lparr>chan_buf := xs\<rparr>) x s = Ret t" "P t"
    using assms(1)[OF Cons.prems(2)] by blast
  with Cons.hyps(1)[of "ch\<lparr>chan_buf := xs\<rparr>" t] Cons.prems
  show ?case by (simp add: drain_closed_Cons[OF Cons.hyps(2)[symmetric]])
qed

end
