(* ===== verification/Delivery.thy ===== *)
theory Delivery
  imports Prelude
begin

text \<open>
  The interfaces between two consecutive components of a flow, and the code that joins them:
  \<open>domain.DataFlow\<close> (pkg/domain/domain.go), \<open>circuitbreaker.CircuitBreaker\<close> and its dummy
  implementation (pkg/circuitbreaker/domain.go, dummy.go), and the retry loop of
  \<open>enqueueOnNext\<close> (both accumulators).

  The breaker a flow really gets is that of the package gobreaker, which is not part of the
  sources: \<open>execute\<close> is a parameter, and the locale \<open>circuit_breaker\<close> states what its
  documentation promises and the code relies on.
\<close>

subsection \<open>domain.DataFlow\<close>

text \<open>
  \<open>Enqueue\<close> of the next component, on its state \<open>'n\<close>: nil means the component has taken the
  data, an error means that it has not.  \<open>accepted\<close> lists what it has taken so far.
\<close>

locale data_flow =
  fixes enq :: "'n \<Rightarrow> 'd \<Rightarrow> ('n \<times> error option) go"
    and accepted :: "'n \<Rightarrow> 'd list"
    and sound :: "'n \<Rightarrow> bool"
  assumes enq_returns: "sound n \<Longrightarrow> go_returns (enq n d)"
    and enq_ok: "sound n \<Longrightarrow> enq n d = Ret (n', None) \<Longrightarrow> sound n' \<and> accepted n' = accepted n @ [d]"
    and enq_err: "sound n \<Longrightarrow> enq n d = Ret (n', Some e) \<Longrightarrow> sound n' \<and> accepted n' = accepted n"

subsection \<open>circuitbreaker.CircuitBreaker\<close>

text \<open>
  \<open>Execute\<close> either runs the request once and gives its result back, or rejects it without running
  it, with an error.
\<close>

locale circuit_breaker =
  fixes execute ::
    "'b \<Rightarrow> ('n \<Rightarrow> ('n \<times> error option) go) \<Rightarrow> 'n \<Rightarrow> ('b \<times> 'n \<times> error option) go"
  assumes execute_runs_or_rejects: "execute b f n = Ret (b', n', e) \<Longrightarrow>
      f n = Ret (n', e) \<or> (n' = n \<and> e \<noteq> None)"
    and execute_returns: "go_returns (f n) \<Longrightarrow> go_returns (execute b f n)"

text \<open>\<open>DummyCircuitBreaker.Execute\<close>: \<open>return f()\<close>.\<close>

definition dummy_execute ::
  "unit \<Rightarrow> ('n \<Rightarrow> ('n \<times> error option) go) \<Rightarrow> 'n \<Rightarrow> (unit \<times> 'n \<times> error option) go" where
  "dummy_execute cb f n = go_bind (f n) (\<lambda>(n', e). Ret (cb, n', e))"

interpretation dummy: circuit_breaker dummy_execute
  by unfold_locales (auto simp: dummy_execute_def go_ret_iff go_returns_iff)

subsection \<open>One attempt: circBreaker.Execute(func() { acc.next.Enqueue(data) })\<close>

definition breaker_enqueue ::
  "('b \<Rightarrow> ('n \<Rightarrow> ('n \<times> error option) go) \<Rightarrow> 'n \<Rightarrow> ('b \<times> 'n \<times> error option) go) \<Rightarrow>
   ('n \<Rightarrow> bytes \<Rightarrow> ('n \<times> error option) go) \<Rightarrow>
   'b \<times> 'n \<Rightarrow> bytes \<Rightarrow> (('b \<times> 'n) \<times> error option) go" where
  "breaker_enqueue execute enq w d =
     go_bind (execute (fst w) (\<lambda>n. enq n d) (snd w)) (\<lambda>(b', n', e). Ret ((b', n'), e))"

subsection \<open>The retry loop\<close>

text \<open>
  \<open>for err != nil { time.Sleep(CBRetrySleepDuration); _, err = circBreaker.Execute(\<dots>) }\<close>.
  \<open>exec\<close> is one attempt, \<open>rest\<close> what the rest of the system does while this goroutine sleeps.
  The loop has no bound: \<open>None\<close> is "never leaves the loop".
\<close>

partial_function (option) enqueue_retry ::
  "('w \<Rightarrow> bytes \<Rightarrow> ('w \<times> error option) go) \<Rightarrow> ('w \<Rightarrow> 'w) \<Rightarrow> bytes \<Rightarrow> 'w \<Rightarrow> 'w go option" where
  "enqueue_retry exec rest d w =
     (case exec w d of
        Block \<Rightarrow> Some Block
      | Panic m \<Rightarrow> Some (Panic m)
      | Ret r \<Rightarrow>
          (if snd r = None then Some (Ret (fst r)) else enqueue_retry exec rest d (rest (fst r))))"

definition deliver ::
  "('w \<Rightarrow> bytes \<Rightarrow> ('w \<times> error option) go) \<Rightarrow> ('w \<Rightarrow> 'w) \<Rightarrow> bytes \<Rightarrow> 'w \<Rightarrow> 'w go" where
  "deliver exec rest d w = (case enqueue_retry exec rest d w of None \<Rightarrow> Block | Some r \<Rightarrow> r)"

declare enqueue_retry.simps [code]

lemma deliver_unfold:
  "deliver exec rest d w =
     go_bind (exec w d) (\<lambda>r. if snd r = None then Ret (fst r) else deliver exec rest d (rest (fst r)))"
  by (cases "exec w d")
     (simp_all add: deliver_def enqueue_retry.simps[of exec rest d w] split: option.split)

text \<open>The world before attempt number \<open>n\<close>, when all the attempts before it failed.\<close>

fun after_failures ::
  "('w \<Rightarrow> bytes \<Rightarrow> ('w \<times> error option) go) \<Rightarrow> ('w \<Rightarrow> 'w) \<Rightarrow> bytes \<Rightarrow> nat \<Rightarrow> 'w \<Rightarrow> 'w option" where
  "after_failures exec rest d 0 w = Some w"
| "after_failures exec rest d (Suc n) w =
     (case exec w d of
        Ret (w', Some e) \<Rightarrow> after_failures exec rest d n (rest w')
      | _ \<Rightarrow> None)"

lemma deliver_after_failures:
  "after_failures exec rest d n w = Some v \<Longrightarrow> exec v d = Ret (w', None) \<Longrightarrow>
   deliver exec rest d w = Ret w'"
proof (induction n arbitrary: w)
  case 0
  then show ?case by (subst deliver_unfold) simp
next
  case (Suc n)
  then show ?case
    by (subst deliver_unfold) (auto split: go.splits option.splits)
qed

lemma enqueue_retry_attempts:
  assumes ret: "enqueue_retry exec rest d w = Some r"
  shows "r = Ret w' \<longrightarrow> (\<exists>n v. after_failures exec rest d n w = Some v \<and> exec v d = Ret (w', None))"
proof (rule enqueue_retry.raw_induct
    [where P = "\<lambda>exec rest d w r. r = Ret w' \<longrightarrow>
       (\<exists>n v. after_failures exec rest d n w = Some v \<and> exec v d = Ret (w', None))", OF _ ret],
   intro impI)
  fix f exec rest d w r
  assume IH: "\<And>exec rest d w r. f exec rest d w = Some r \<Longrightarrow> r = Ret w' \<longrightarrow>
       (\<exists>n v. after_failures exec rest d n w = Some v \<and> exec v d = Ret (w', None))"
    and eq: "(case exec w d of
        Block \<Rightarrow> Some Block
      | Panic m \<Rightarrow> Some (Panic m)
      | Ret r \<Rightarrow>
          (if snd r = None then Some (Ret (fst r)) else f exec rest d (rest (fst r)))) = Some r"
    and r: "r = Ret w'"
  from eq r obtain x e where x: "exec w d = Ret (x, e)" by (auto split: go.splits)
  show "\<exists>n v. after_failures exec rest d n w = Some v \<and> exec v d = Ret (w', None)"
  proof (cases e)
    case None
    with x eq r show ?thesis by (intro exI[of _ 0] exI[of _ w]) simp
  next
    case (Some err)
    with x eq r have "f exec rest d (rest x) = Some (Ret w')" by simp
    from IH[OF this] obtain n v where "after_failures exec rest d n (rest x) = Some v"
      "exec v d = Ret (w', None)" by blast
    with x Some show ?thesis by (intro exI[of _ "Suc n"] exI[of _ v]) simp
  qed
qed

text \<open>The loop returns exactly when some attempt succeeds after finitely many failures.\<close>

lemma deliver_returns_iff:
  "deliver exec rest d w = Ret w' \<longleftrightarrow>
     (\<exists>n v. after_failures exec rest d n w = Some v \<and> exec v d = Ret (w', None))"
proof
  assume "deliver exec rest d w = Ret w'"
  then have "enqueue_retry exec rest d w = Some (Ret w')"
    by (auto simp: deliver_def split: option.splits)
  from enqueue_retry_attempts[OF this, of w']
  show "\<exists>n v. after_failures exec rest d n w = Some v \<and> exec v d = Ret (w', None)" by simp
qed (blast intro: deliver_after_failures)

subsection \<open>What the retry loop guarantees\<close>

text \<open>
  The world into which an accumulator pushes: \<open>taken\<close> lists what has been taken by the next
  component.
\<close>

locale next_stage =
  fixes exec :: "'w \<Rightarrow> bytes \<Rightarrow> ('w \<times> error option) go"
    and rest :: "'w \<Rightarrow> 'w"
    and taken :: "'w \<Rightarrow> bytes list"
    and good :: "'w \<Rightarrow> bool"
  assumes exec_ok: "good w \<Longrightarrow> exec w d = Ret (w', None) \<Longrightarrow> good w' \<and> taken w' = taken w @ [d]"
    and exec_err: "good w \<Longrightarrow> exec w d = Ret (w', Some e) \<Longrightarrow> good w' \<and> taken w' = taken w"
    and exec_returns: "good w \<Longrightarrow> go_returns (exec w d)"
    and rest_keeps: "good w \<Longrightarrow> good (rest w) \<and> taken (rest w) = taken w"
begin

lemma after_failures_keeps:
  "good w \<Longrightarrow> after_failures exec rest d n w = Some v \<Longrightarrow> good v \<and> taken v = taken w"
proof (induction n arbitrary: w)
  case (Suc n)
  then obtain x e where x: "exec w d = Ret (x, Some e)"
    "after_failures exec rest d n (rest x) = Some v"
    by (auto split: go.splits option.splits)
  with Suc.prems(1) exec_err have "good x" "taken x = taken w" by blast+
  with Suc.IH[OF _ x(2)] rest_keeps show ?case by simp
qed simp

text \<open>Whatever the number of attempts, the payload enters the next component exactly once.\<close>

lemma deliver_once:
  assumes "good w" and "deliver exec rest d w = Ret w'"
  shows "good w' \<and> taken w' = taken w @ [d]"
proof -
  obtain n v where v: "after_failures exec rest d n w = Some v" "exec v d = Ret (w', None)"
    using assms(2) by (auto simp: deliver_returns_iff)
  with after_failures_keeps[OF assms(1) v(1)] exec_ok[of v d w'] show ?thesis by simp
qed

lemma enqueue_retry_no_panic:
  assumes ret: "enqueue_retry exec rest d w = Some r" and "good w"
  shows "go_returns r"
proof -
  have "(\<forall>w d. good w \<longrightarrow> go_returns (exec' w d) \<and>
           (\<forall>w' e. exec' w d = Ret (w', Some e) \<longrightarrow> good (rest' w'))) \<longrightarrow> good w \<longrightarrow> go_returns r"
    if "enqueue_retry exec' rest' d w = Some r" for exec' rest'
  proof (rule enqueue_retry.raw_induct [where P = "\<lambda>exec' rest' d w r.
      (\<forall>w d. good w \<longrightarrow> go_returns (exec' w d) \<and>
         (\<forall>w' e. exec' w d = Ret (w', Some e) \<longrightarrow> good (rest' w'))) \<longrightarrow> good w \<longrightarrow> go_returns r",
      OF _ that], goal_cases)
    case (1 f exec' rest' d w r)
    show ?case
    proof (intro impI)
      assume ok: "\<forall>w d. good w \<longrightarrow> go_returns (exec' w d) \<and>
          (\<forall>w' e. exec' w d = Ret (w', Some e) \<longrightarrow> good (rest' w'))" and "good w"
      then obtain x e where x: "exec' w d = Ret (x, e)" by (fastforce simp: go_returns_iff)
      show "go_returns r"
      proof (cases e)
        case None
        with 1(2) x show ?thesis by auto
      next
        case (Some err)
        with ok x \<open>good w\<close> have "good (rest' x)" by blast
        with 1(1)[of exec' rest' d "rest' x" r] 1(2) x Some ok show ?thesis by simp
      qed
    qed
  qed
  from this[OF ret] assms(2) exec_returns exec_err rest_keeps show ?thesis by blast
qed

lemma deliver_no_panic: "good w \<Longrightarrow> \<not> go_panics (deliver exec rest d w)"
  using enqueue_retry_no_panic[of d w]
  by (auto simp: deliver_def go_returns_iff split: option.split)

text \<open>The same for a sequence of payloads, sent in order.\<close>

lemma deliver_all_once:
  "good w \<Longrightarrow> go_foreach (deliver exec rest) ds w = Ret w' \<Longrightarrow> good w' \<and> taken w' = taken w @ ds"
proof (induction ds arbitrary: w)
  case (Cons d ds)
  then obtain v where v: "deliver exec rest d w = Ret v"
    "go_foreach (deliver exec rest) ds v = Ret w'" by (auto simp: go_ret_iff)
  with deliver_once[OF Cons.prems(1) v(1)] Cons.IH[OF _ v(2)] show ?case by simp
qed simp

end

text \<open>
  When failing attempts bring the next success nearer (the next component works off its queue, the
  breaker's open interval runs down), the loop terminates.
\<close>

locale responsive_stage = next_stage exec rest taken good
  for exec :: "'w \<Rightarrow> bytes \<Rightarrow> ('w \<times> error option) go"
    and rest :: "'w \<Rightarrow> 'w" and taken :: "'w \<Rightarrow> bytes list" and good :: "'w \<Rightarrow> bool" +
  fixes backlog :: "'w \<Rightarrow> nat"
  assumes backlog_decreases:
    "good w \<Longrightarrow> exec w d = Ret (w', Some e) \<Longrightarrow> backlog (rest w') < backlog w"
begin

lemma deliver_returns: "good w \<Longrightarrow> \<exists>w'. deliver exec rest d w = Ret w'"
proof (induction "backlog w" arbitrary: w rule: less_induct)
  case less
  obtain x e where x: "exec w d = Ret (x, e)"
    using exec_returns[OF less.prems, of d] by (auto simp: go_returns_iff)
  show ?case
  proof (cases e)
    case None
    with x show ?thesis by (subst deliver_unfold) simp
  next
    case (Some err)
    with x less.prems backlog_decreases exec_err rest_keeps
    have "backlog (rest x) < backlog w" "good (rest x)" by blast+
    with less.hyps obtain w' where "deliver exec rest d (rest x) = Ret w'" by blast
    with x Some show ?thesis by (subst deliver_unfold) simp
  qed
qed

end

subsection \<open>A breaker in front of a data flow\<close>

locale breaker_flow = circuit_breaker execute + data_flow enq accepted sound
  for execute :: "'b \<Rightarrow> ('n \<Rightarrow> ('n \<times> error option) go) \<Rightarrow> 'n \<Rightarrow> ('b \<times> 'n \<times> error option) go"
    and enq :: "'n \<Rightarrow> bytes \<Rightarrow> ('n \<times> error option) go"
    and accepted :: "'n \<Rightarrow> bytes list" and sound :: "'n \<Rightarrow> bool" +
  fixes rest :: "'b \<times> 'n \<Rightarrow> 'b \<times> 'n"
  assumes rest_sound: "sound (snd w) \<Longrightarrow>
    sound (snd (rest w)) \<and> accepted (snd (rest w)) = accepted (snd w)"

sublocale breaker_flow \<subseteq> next_stage "breaker_enqueue execute enq" rest
  "\<lambda>w. accepted (snd w)" "\<lambda>w. sound (snd w)"
proof unfold_locales
  fix w w' :: "'b \<times> 'n" and d
  assume s: "sound (snd w)" and r: "breaker_enqueue execute enq w d = Ret (w', None)"
  from r have "execute (fst w) (\<lambda>n. enq n d) (snd w) = Ret (fst w', snd w', None)"
    by (auto simp: breaker_enqueue_def go_ret_iff)
  from execute_runs_or_rejects[OF this] s enq_ok
  show "sound (snd w') \<and> accepted (snd w') = accepted (snd w) @ [d]" by blast
next
  fix w w' :: "'b \<times> 'n" and d e
  assume s: "sound (snd w)" and r: "breaker_enqueue execute enq w d = Ret (w', Some e)"
  from r have "execute (fst w) (\<lambda>n. enq n d) (snd w) = Ret (fst w', snd w', Some e)"
    by (auto simp: breaker_enqueue_def go_ret_iff)
  from execute_runs_or_rejects[OF this] s enq_err
  show "sound (snd w') \<and> accepted (snd w') = accepted (snd w)" by auto
next
  fix w :: "'b \<times> 'n" and d assume "sound (snd w)"
  then have "go_returns (enq (snd w) d)" by (rule enq_returns)
  then have "go_returns (execute (fst w) (\<lambda>n. enq n d) (snd w))" by (rule execute_returns)
  then show "go_returns (breaker_enqueue execute enq w d)"
    by (auto simp: breaker_enqueue_def go_returns_iff)
qed (use rest_sound in blast)

context breaker_flow
begin

lemma next_stage_flow:
  "next_stage (breaker_enqueue execute enq) rest (\<lambda>w. accepted (snd w)) (\<lambda>w. sound (snd w))"
  by (rule next_stage_axioms)

end

subsection \<open>Properties\<close>

text \<open>
  C12 (safety): however often the retry loop of \<open>enqueueOnNext\<close> is turned away, by the breaker or by
  a full queue, it returns exactly when some attempt succeeds after finitely many failed ones, and
  then the next component has accepted the payload exactly once, and nothing else; it never panics.
\<close>

theorem retry_loop_delivers_once:
  assumes "circuit_breaker execute" and "data_flow enq accepted sound"
    and "\<And>w. sound (snd w) \<Longrightarrow>
      sound (snd (rest w)) \<and> accepted (snd (rest w)) = accepted (snd w)"
    and "sound n"
  shows "(deliver (breaker_enqueue execute enq) rest d (b, n) = Ret w' \<longleftrightarrow>
      (\<exists>k v. after_failures (breaker_enqueue execute enq) rest d k (b, n) = Some v \<and>
             breaker_enqueue execute enq v d = Ret (w', None))) \<and>
    (deliver (breaker_enqueue execute enq) rest d (b, n) = Ret w' \<longrightarrow>
       sound (snd w') \<and> accepted (snd w') = accepted n @ [d]) \<and>
    \<not> go_panics (deliver (breaker_enqueue execute enq) rest d (b, n))"
proof -
  have bf: "breaker_flow execute enq accepted sound rest"
    using assms by (intro breaker_flow.intro breaker_flow_axioms.intro)
  have "next_stage (breaker_enqueue execute enq) rest (\<lambda>w. accepted (snd w)) (\<lambda>w. sound (snd w))"
    by (rule breaker_flow.next_stage_flow[OF bf])
  from next_stage.deliver_once[OF this, of "(b, n)"] next_stage.deliver_no_panic[OF this, of "(b, n)"]
    assms(4) show ?thesis by (simp add: deliver_returns_iff)
qed

text \<open>A next component whose queue has no room during the first \<open>k\<close> attempts.\<close>

definition busy_enqueue ::
  "nat \<times> bytes list \<Rightarrow> bytes \<Rightarrow> ((nat \<times> bytes list) \<times> error option) go" where
  "busy_enqueue n d = (if 0 < fst n then Ret (n, Some (Error ''queue is full''))
                       else Ret ((0, snd n @ [d]), None))"

lemma retry_loop_delivers_once_witness:
  "\<exists>w'. deliver (breaker_enqueue dummy_execute busy_enqueue) (\<lambda>(b, k, q). (b, k - 1, q)) [7]
      ((), 2, [[1]]) = Ret w' \<and> snd (snd w') = [[1], [7]]"
proof -
  have df: "data_flow busy_enqueue snd (\<lambda>n. True)"
    by unfold_locales (auto simp: busy_enqueue_def split: if_splits)
  have "deliver (breaker_enqueue dummy_execute busy_enqueue) (\<lambda>(b, k, q). (b, k - 1, q)) [7]
      ((), 2, [[1]]) = Ret ((), 0, [[1], [7]])" by code_simp
  moreover from this retry_loop_delivers_once[OF dummy.circuit_breaker_axioms df,
      where rest = "\<lambda>(b, k, q). (b, k - 1, q)" and n = "(2, [[1]])" and d = "[7]" and b = "()"
        and w' = "((), 0, [[1], [7]])"]
  have "snd (snd ((), 0 :: nat, [[1], [7]])) = snd (2 :: nat, [[1]]) @ [[7 :: byte]]"
    by (auto simp: case_prod_beta)
  ultimately show ?thesis by auto
qed

end
