(* ===== verification/Stage_Loop.thy ===== *)
theory Stage_Loop
  imports Go_Chan Delivery
begin

text \<open>
  The concurrent shell that the two accumulators and the uploader share in the source: callers on
  any goroutine run \<open>Enqueue\<close> (under the read lock of \<open>shutdownMutex\<close>), one goroutine runs
  \<open>Run\<close>, which receives from the internal channel and handles one payload after the other until
  its context is cancelled, and then \<open>shutdown\<close>: set the flag under the write lock, close the
  channel, drain it, finish.

  Each rule of \<open>stage_step\<close> is one atomic action of one goroutine; a state with several enabled
  rules is a scheduler choice (or Go's random choice among ready \<open>select\<close> cases).  What differs
  between the components is the record \<open>stage_ops\<close> of their own operations; the laws these must
  satisfy are the locale \<open>stage\<close>, and every guarantee that only depends on them is proved there
  once.
\<close>

datatype phase = Running | Flagged | Draining | Finished

record ('c, 'd, 'w) stage_ops =
  op_enqueue :: "bool \<Rightarrow> 'c \<Rightarrow> 'd \<Rightarrow> ('c \<times> error option) go"
  op_chan :: "'c \<Rightarrow> 'd gochan"
  op_set_chan :: "'d gochan \<Rightarrow> 'c \<Rightarrow> 'c"
  op_shutting_down :: "'c \<Rightarrow> bool"
  op_set_shutdown :: "'c \<Rightarrow> 'c"
  op_handle :: "int \<Rightarrow> 'd \<Rightarrow> 'c \<Rightarrow> 'w \<Rightarrow> ('c \<times> 'w) go"
  op_tick :: "int \<Rightarrow> 'c \<Rightarrow> 'w \<Rightarrow> ('c \<times> 'w) go"
  op_finish :: "'c \<Rightarrow> 'w \<Rightarrow> ('c \<times> 'w) go"
  op_env :: "'w \<Rightarrow> 'w \<Rightarrow> bool"

text \<open>
  The state: the component's own fields, the world it pushes data into, where its goroutine is,
  the payload it has received and not yet handled, and two histories that only the theorems read:
  the payloads whose \<open>Enqueue\<close> returned nil, and the payloads handled, both in order.
\<close>

record ('c, 'd, 'w) stage_state =
  st_comp :: 'c
  st_world :: 'w
  st_phase :: phase
  st_hand :: "'d option"
  st_accepted :: "'d list"
  st_handled :: "'d list"

definition stage_start :: "'c \<Rightarrow> 'w \<Rightarrow> ('c, 'd, 'w) stage_state" where
  "stage_start c w = \<lparr>st_comp = c, st_world = w, st_phase = Running, st_hand = None,
                      st_accepted = [], st_handled = []\<rparr>"

definition st_buf :: "('c, 'd, 'w) stage_ops \<Rightarrow> ('c, 'd, 'w) stage_state \<Rightarrow> 'd list" where
  "st_buf ops s = chan_buf (op_chan ops (st_comp s))"

text \<open>The goroutine waits in its \<open>select\<close> exactly when it runs and holds no payload.\<close>

definition st_parked :: "('c, 'd, 'w) stage_state \<Rightarrow> bool" where
  "st_parked s \<longleftrightarrow> st_phase s = Running \<and> st_hand s = None"

definition hand_list :: "'d option \<Rightarrow> 'd list" where
  "hand_list h = (case h of None \<Rightarrow> [] | Some d \<Rightarrow> [d])"

lemma hand_list_simps [simp]: "hand_list None = []" "hand_list (Some d) = [d]"
  by (simp_all add: hand_list_def)

inductive stage_step ::
  "('c, 'd, 'w) stage_ops \<Rightarrow> ('c, 'd, 'w) stage_state \<Rightarrow> ('c, 'd, 'w) stage_state \<Rightarrow> bool"
  for ops where
  enqueue:
    "rdy = st_parked s \<Longrightarrow>
     op_enqueue ops rdy (st_comp s) d = Ret (c', err) \<Longrightarrow>
     stage_step ops s
       (s\<lparr>st_comp := c', st_accepted := st_accepted s @ (if err = None then [d] else [])\<rparr>)"
| receive:
    "st_phase s = Running \<Longrightarrow> st_hand s = None \<Longrightarrow>
     chan_recv (op_chan ops (st_comp s)) = Ret (ch', Some d) \<Longrightarrow>
     stage_step ops s (s\<lparr>st_comp := op_set_chan ops ch' (st_comp s), st_hand := Some d\<rparr>)"
| handle:
    "st_hand s = Some d \<Longrightarrow>
     op_handle ops now d (st_comp s) (st_world s) = Ret (c', w') \<Longrightarrow>
     stage_step ops s
       (s\<lparr>st_comp := c', st_world := w', st_hand := None, st_handled := st_handled s @ [d]\<rparr>)"
| tick:
    "st_phase s = Running \<Longrightarrow> st_hand s = None \<Longrightarrow>
     op_tick ops now (st_comp s) (st_world s) = Ret (c', w') \<Longrightarrow>
     stage_step ops s (s\<lparr>st_comp := c', st_world := w'\<rparr>)"
| cancelled:
    "st_phase s = Running \<Longrightarrow> st_hand s = None \<Longrightarrow>
     stage_step ops s (s\<lparr>st_comp := op_set_shutdown ops (st_comp s), st_phase := Flagged\<rparr>)"
| close:
    "st_phase s = Flagged \<Longrightarrow> chan_close (op_chan ops (st_comp s)) = Ret ch' \<Longrightarrow>
     stage_step ops s (s\<lparr>st_comp := op_set_chan ops ch' (st_comp s), st_phase := Draining\<rparr>)"
| drain:
    "st_phase s = Draining \<Longrightarrow> st_hand s = None \<Longrightarrow>
     chan_recv (op_chan ops (st_comp s)) = Ret (ch', Some d) \<Longrightarrow>
     stage_step ops s (s\<lparr>st_comp := op_set_chan ops ch' (st_comp s), st_hand := Some d\<rparr>)"
| finish:
    "st_phase s = Draining \<Longrightarrow> st_hand s = None \<Longrightarrow>
     chan_recv (op_chan ops (st_comp s)) = Ret (ch', None) \<Longrightarrow>
     op_finish ops (st_comp s) (st_world s) = Ret (c', w') \<Longrightarrow>
     stage_step ops s (s\<lparr>st_comp := c', st_world := w', st_phase := Finished\<rparr>)"
| environment:
    "op_env ops (st_world s) w' \<Longrightarrow> stage_step ops s (s\<lparr>st_world := w'\<rparr>)"

inductive stage_reach ::
  "('c, 'd, 'w) stage_ops \<Rightarrow> ('c, 'd, 'w) stage_state \<Rightarrow> ('c, 'd, 'w) stage_state \<Rightarrow> bool"
  for ops s where
  start: "stage_reach ops s s"
| step: "stage_reach ops s t \<Longrightarrow> stage_step ops t u \<Longrightarrow> stage_reach ops s u"

lemma stage_reach_trans: "stage_reach ops t u \<Longrightarrow> stage_reach ops s t \<Longrightarrow> stage_reach ops s u"
  by (induction rule: stage_reach.induct) (auto intro: stage_reach.step)

text \<open>One step or a chain of steps, from the state at hand.\<close>

lemma stage_reach_step: "stage_step ops s t \<Longrightarrow> stage_reach ops s t"
  by (blast intro: stage_reach.intros)

lemma stage_reach_Cons: "stage_step ops s t \<Longrightarrow> stage_reach ops t u \<Longrightarrow> stage_reach ops s u"
  by (blast intro: stage_reach_trans stage_reach_step)

text \<open>A producer's call, as the rule \<open>enqueue\<close> has it: the interface \<open>domain.DataFlow\<close> of a stage.\<close>

definition stage_enqueue ::
  "('c, 'd, 'w) stage_ops \<Rightarrow> ('c, 'd, 'w) stage_state \<Rightarrow> 'd \<Rightarrow>
   (('c, 'd, 'w) stage_state \<times> error option) go" where
  "stage_enqueue ops s d =
     go_bind (op_enqueue ops (st_parked s) (st_comp s) d) (\<lambda>(c', err).
       Ret (s\<lparr>st_comp := c',
              st_accepted := st_accepted s @ (if err = None then [d] else [])\<rparr>, err))"

lemma stage_enqueue_step: "stage_enqueue ops s d = Ret (s', err) \<Longrightarrow> stage_step ops s s'"
  by (auto simp: stage_enqueue_def go_ret_iff intro: stage_step.enqueue)

text \<open>The other actors of the system: any sequence of environment steps.\<close>

lemma stage_reach_environment:
  "(op_env ops)\<^sup>*\<^sup>* (st_world s) w \<Longrightarrow> stage_reach ops s (s\<lparr>st_world := w\<rparr>)"
proof (induction rule: rtranclp_induct)
  case base
  then show ?case by (simp add: stage_reach.start)
next
  case (step v w)
  from stage_step.environment[of ops "s\<lparr>st_world := v\<rparr>" w] step
  show ?case by (auto intro: stage_reach.step)
qed

subsection \<open>Scheduled runs\<close>

text \<open>
  The same steps as a function of the scheduler's choices: an event names the rule to take (and the
  payload or the clock reading where one is involved); \<open>None\<close> means that it cannot be taken.
\<close>

datatype 'd stage_event =
  Enq 'd | Recv | Handle int | Tick int | Cancel | Close | Finish

fun stage_exec ::
  "('c, 'd, 'w) stage_ops \<Rightarrow> 'd stage_event \<Rightarrow> ('c, 'd, 'w) stage_state \<Rightarrow>
   ('c, 'd, 'w) stage_state option" where
  "stage_exec ops (Enq d) s =
     (case op_enqueue ops (st_parked s) (st_comp s) d of
        Ret (c', err) \<Rightarrow>
          Some (s\<lparr>st_comp := c',
                  st_accepted := st_accepted s @ (if err = None then [d] else [])\<rparr>)
      | _ \<Rightarrow> None)"
| "stage_exec ops Recv s =
     (if (st_phase s = Running \<or> st_phase s = Draining) \<and> st_hand s = None then
        (case chan_recv (op_chan ops (st_comp s)) of
           Ret (ch', Some d) \<Rightarrow>
             Some (s\<lparr>st_comp := op_set_chan ops ch' (st_comp s), st_hand := Some d\<rparr>)
         | _ \<Rightarrow> None)
      else None)"
| "stage_exec ops (Handle now) s =
     (case st_hand s of
        None \<Rightarrow> None
      | Some d \<Rightarrow>
          (case op_handle ops now d (st_comp s) (st_world s) of
             Ret (c', w') \<Rightarrow>
               Some (s\<lparr>st_comp := c', st_world := w', st_hand := None,
                       st_handled := st_handled s @ [d]\<rparr>)
           | _ \<Rightarrow> None))"
| "stage_exec ops (Tick now) s =
     (if st_parked s then
        (case op_tick ops now (st_comp s) (st_world s) of
           Ret (c', w') \<Rightarrow> Some (s\<lparr>st_comp := c', st_world := w'\<rparr>)
         | _ \<Rightarrow> None)
      else None)"
| "stage_exec ops Cancel s =
     (if st_parked s
      then Some (s\<lparr>st_comp := op_set_shutdown ops (st_comp s), st_phase := Flagged\<rparr>) else None)"
| "stage_exec ops Close s =
     (if st_phase s = Flagged then
        (case chan_close (op_chan ops (st_comp s)) of
           Ret ch' \<Rightarrow> Some (s\<lparr>st_comp := op_set_chan ops ch' (st_comp s), st_phase := Draining\<rparr>)
         | _ \<Rightarrow> None)
      else None)"
| "stage_exec ops Finish s =
     (if st_phase s = Draining \<and> st_hand s = None \<and>
         (case chan_recv (op_chan ops (st_comp s)) of Ret (_, None) \<Rightarrow> True | _ \<Rightarrow> False) then
        (case op_finish ops (st_comp s) (st_world s) of
           Ret (c', w') \<Rightarrow> Some (s\<lparr>st_comp := c', st_world := w', st_phase := Finished\<rparr>)
         | _ \<Rightarrow> None)
      else None)"

fun stage_run ::
  "('c, 'd, 'w) stage_ops \<Rightarrow> 'd stage_event list \<Rightarrow> ('c, 'd, 'w) stage_state \<Rightarrow>
   ('c, 'd, 'w) stage_state option" where
  "stage_run ops [] s = Some s"
| "stage_run ops (e # es) s = Option.bind (stage_exec ops e s) (stage_run ops es)"

lemma stage_exec_step: "stage_exec ops e s = Some t \<Longrightarrow> stage_step ops s t"
proof (cases e)
  case (Enq d)
  assume "stage_exec ops e s = Some t"
  with Enq show ?thesis
    using stage_step.enqueue[of "st_parked s" s ops d] by (auto split: go.splits prod.splits)
next
  case Recv
  assume "stage_exec ops e s = Some t"
  with Recv show ?thesis
    by (auto intro: stage_step.receive stage_step.drain split: go.splits option.splits if_splits)
next
  case (Handle now)
  assume "stage_exec ops e s = Some t"
  with Handle show ?thesis by (auto intro: stage_step.handle split: go.splits option.splits)
next
  case (Tick now)
  assume "stage_exec ops e s = Some t"
  with Tick show ?thesis
    by (auto simp: st_parked_def intro: stage_step.tick split: go.splits if_splits)
next
  case Cancel
  assume "stage_exec ops e s = Some t"
  with Cancel show ?thesis
    by (auto simp: st_parked_def intro: stage_step.cancelled split: if_splits)
next
  case Close
  assume "stage_exec ops e s = Some t"
  with Close show ?thesis by (auto intro: stage_step.close split: go.splits if_splits)
next
  case Finish
  assume "stage_exec ops e s = Some t"
  with Finish show ?thesis
    by (auto intro: stage_step.finish split: go.splits option.splits if_splits)
qed

lemma stage_run_reach: "stage_run ops es s = Some t \<Longrightarrow> stage_reach ops s t"
proof (induction es arbitrary: s)
  case Nil
  then show ?case by (auto intro: stage_reach.start)
next
  case (Cons e es)
  then obtain u where "stage_exec ops e s = Some u" "stage_run ops es u = Some t"
    by (auto simp: bind_eq_Some_conv)
  with Cons.IH show ?case by (blast intro: stage_reach_Cons stage_exec_step)
qed

subsection \<open>The laws of a stage's operations\<close>

text \<open>
  \<open>valid\<close> is the component's own invariant, \<open>relates hs c w\<close> says how its fields and the world
  look after it has handled the payloads \<open>hs\<close>, and \<open>done hs w\<close> how the world looks when the
  stage has finished after \<open>hs\<close>.
\<close>

locale stage =
  fixes ops :: "('c, 'd, 'w) stage_ops"
    and relates :: "'d list \<Rightarrow> 'c \<Rightarrow> 'w \<Rightarrow> bool"
    and complete :: "'d list \<Rightarrow> 'c \<Rightarrow> 'w \<Rightarrow> bool"
  assumes chan_set [simp]: "op_chan ops (op_set_chan ops ch c) = ch"
    and flag_set_chan [simp]:
      "op_shutting_down ops (op_set_chan ops ch c) = op_shutting_down ops c"
    and flag_set [simp]: "op_shutting_down ops (op_set_shutdown ops c)"
    and chan_set_shutdown [simp]: "op_chan ops (op_set_shutdown ops c) = op_chan ops c"
    and enqueue_flagged: "op_shutting_down ops c \<Longrightarrow>
      \<exists>c' e. op_enqueue ops rdy c d = Ret (c', Some e) \<and> op_chan ops c' = op_chan ops c \<and>
             op_shutting_down ops c'"
    and enqueue_open: "\<not> chan_closed (op_chan ops c) \<Longrightarrow> go_returns (op_enqueue ops rdy c d)"
    and enqueue_ok: "op_enqueue ops rdy c d = Ret (c', None) \<Longrightarrow>
      \<not> op_shutting_down ops c \<and> op_shutting_down ops c' = op_shutting_down ops c \<and>
      chan_try_send rdy (op_chan ops c) d = Ret (op_chan ops c', True)"
    and enqueue_err: "op_enqueue ops rdy c d = Ret (c', Some e) \<Longrightarrow>
      op_chan ops c' = op_chan ops c \<and> op_shutting_down ops c' = op_shutting_down ops c"
    and handle_chan: "op_handle ops now d c w = Ret (c', w') \<Longrightarrow>
      op_chan ops c' = op_chan ops c \<and> op_shutting_down ops c' = op_shutting_down ops c"
    and tick_chan: "op_tick ops now c w = Ret (c', w') \<Longrightarrow>
      op_chan ops c' = op_chan ops c \<and> op_shutting_down ops c' = op_shutting_down ops c"
    and finish_chan: "op_finish ops c w = Ret (c', w') \<Longrightarrow>
      op_chan ops c' = op_chan ops c \<and> op_shutting_down ops c' = op_shutting_down ops c"
    and relates_enqueue:
      "relates hs c w \<Longrightarrow> op_enqueue ops rdy c d = Ret (c', err) \<Longrightarrow> relates hs c' w"
    and relates_chan: "relates hs c w \<Longrightarrow> relates hs (op_set_chan ops ch c) w"
    and relates_flag: "relates hs c w \<Longrightarrow> relates hs (op_set_shutdown ops c) w"
    and relates_handle:
      "relates hs c w \<Longrightarrow> op_handle ops now d c w = Ret (c', w') \<Longrightarrow> relates (hs @ [d]) c' w'"
    and relates_tick: "relates hs c w \<Longrightarrow> op_tick ops now c w = Ret (c', w') \<Longrightarrow> relates hs c' w'"
    and relates_env: "relates hs c w \<Longrightarrow> op_env ops w w' \<Longrightarrow> relates hs c w'"
    and relates_finish: "relates hs c w \<Longrightarrow> op_finish ops c w = Ret (c', w') \<Longrightarrow> complete hs c' w'"
    and complete_env: "complete hs c w \<Longrightarrow> op_env ops w w' \<Longrightarrow> complete hs c w'"
    and complete_enqueue:
      "complete hs c w \<Longrightarrow> op_enqueue ops rdy c d = Ret (c', err) \<Longrightarrow> complete hs c' w"
begin

text \<open>
  The invariant: every accepted payload is handled, held, or buffered, in the order of acceptance;
  the flag and the channel follow the phase of the goroutine; the buffer keeps its bound; nothing
  is held once the goroutine has finished.
\<close>

definition stage_inv :: "('c, 'd, 'w) stage_state \<Rightarrow> bool" where
  "stage_inv s \<longleftrightarrow>
     st_accepted s = st_handled s @ hand_list (st_hand s) @ st_buf ops s \<and>
     (chan_closed (op_chan ops (st_comp s)) \<longleftrightarrow> st_phase s \<in> {Draining, Finished}) \<and>
     (op_shutting_down ops (st_comp s) \<longleftrightarrow> st_phase s \<noteq> Running) \<and>
     chan_wf (op_chan ops (st_comp s)) \<and>
     (st_phase s = Flagged \<longrightarrow> st_hand s = None) \<and>
     (st_phase s = Finished \<longrightarrow> st_hand s = None \<and> st_buf ops s = []) \<and>
     (if st_phase s = Finished then complete (st_handled s) (st_comp s) (st_world s)
      else relates (st_handled s) (st_comp s) (st_world s))"

lemma stage_inv_start:
  assumes "op_chan ops c = \<lparr>chan_cap = n, chan_buf = [], chan_closed = False\<rparr>"
    and "\<not> op_shutting_down ops c" and "relates [] c w"
  shows "stage_inv (stage_start c w)"
  using assms by (simp add: stage_inv_def stage_start_def st_buf_def chan_wf_def)

lemma stage_inv_enqueue:
  assumes inv: "stage_inv s" and enq: "op_enqueue ops rdy (st_comp s) d = Ret (c', err)"
  shows "stage_inv
    (s\<lparr>st_comp := c', st_accepted := st_accepted s @ (if err = None then [d] else [])\<rparr>)"
proof (cases err)
  case None
  with enq have sent: "chan_try_send rdy (op_chan ops (st_comp s)) d = Ret (op_chan ops c', True)"
    and run: "\<not> op_shutting_down ops (st_comp s)" "\<not> op_shutting_down ops c'"
    using enqueue_ok by auto
  from run(1) inv have "st_phase s = Running" by (simp add: stage_inv_def)
  with None sent run inv relates_enqueue[OF _ enq] gc.try_send_sent[OF sent]
  show ?thesis by (auto simp: stage_inv_def st_buf_def)
next
  case (Some e)
  with enq have "op_chan ops c' = op_chan ops (st_comp s)"
    "op_shutting_down ops c' = op_shutting_down ops (st_comp s)" using enqueue_err by auto
  with Some inv relates_enqueue[OF _ enq] complete_enqueue[OF _ enq]
  show ?thesis by (cases "st_phase s = Finished") (simp_all add: stage_inv_def st_buf_def)
qed

lemma stage_inv_step: "stage_step ops s t \<Longrightarrow> stage_inv s \<Longrightarrow> stage_inv t"
proof (induction rule: stage_step.induct)
  case (enqueue rdy s d c' err)
  then show ?case by (blast intro: stage_inv_enqueue)
next
  case (receive s ch' d)
  then show ?case
    by (auto simp: stage_inv_def st_buf_def go_ret_iff chan_wf_def intro: relates_chan)
next
  case (handle s d now c' w')
  then show ?case
    using handle_chan[OF handle(2)] relates_handle[OF _ handle(2)]
    by (auto simp: stage_inv_def st_buf_def split: if_splits)
next
  case (tick s now c' w')
  then show ?case
    using tick_chan[OF tick(3)] relates_tick[OF _ tick(3)] by (auto simp: stage_inv_def st_buf_def)
next
  case (cancelled s)
  then show ?case by (auto simp: stage_inv_def st_buf_def intro: relates_flag)
next
  case (close s ch')
  then show ?case
    by (auto simp: stage_inv_def st_buf_def go_ret_iff chan_wf_def intro: relates_chan)
next
  case (drain s ch' d)
  then show ?case
    by (auto simp: stage_inv_def st_buf_def go_ret_iff chan_wf_def intro: relates_chan)
next
  case (finish s ch' c' w')
  then show ?case
    using finish_chan[OF finish(4)] relates_finish[OF _ finish(4)]
    by (auto simp: stage_inv_def st_buf_def go_ret_iff)
next
  case (environment s w')
  then show ?case
    by (auto simp: stage_inv_def st_buf_def intro: relates_env complete_env split: if_splits)
qed

lemma stage_inv_reach: "stage_reach ops s t \<Longrightarrow> stage_inv s \<Longrightarrow> stage_inv t"
  by (induction rule: stage_reach.induct) (blast intro: stage_inv_step)+

text \<open>A producer can call \<open>Enqueue\<close> at any moment: it returns, and never sends on a closed channel.\<close>

lemma enqueue_never_stuck: "stage_inv s \<Longrightarrow> go_returns (op_enqueue ops rdy (st_comp s) d)"
proof (cases "st_phase s = Running")
  case True
  then show "stage_inv s \<Longrightarrow> ?thesis" by (auto simp: stage_inv_def intro: enqueue_open)
next
  case False
  assume "stage_inv s"
  with False have "op_shutting_down ops (st_comp s)" by (simp add: stage_inv_def)
  from enqueue_flagged[OF this, of rdy d] show ?thesis by (auto simp: go_returns_iff)
qed

text \<open>So a stage is a data flow for the component before it.\<close>

lemma stage_is_data_flow: "data_flow (stage_enqueue ops) st_accepted stage_inv"
proof
  fix s d
  assume "stage_inv s"
  from enqueue_never_stuck[OF this, of "st_parked s" d]
  show "go_returns (stage_enqueue ops s d)" by (auto simp: stage_enqueue_def go_returns_iff)
next
  fix s d s'
  assume "stage_inv s" and r: "stage_enqueue ops s d = Ret (s', None)"
  with stage_inv_step[OF stage_enqueue_step[OF r]] r
  show "stage_inv s' \<and> st_accepted s' = st_accepted s @ [d]"
    by (auto simp: stage_enqueue_def go_ret_iff)
next
  fix s d s' e
  assume "stage_inv s" and r: "stage_enqueue ops s d = Ret (s', Some e)"
  with stage_inv_step[OF stage_enqueue_step[OF r]] r
  show "stage_inv s' \<and> st_accepted s' = st_accepted s"
    by (auto simp: stage_enqueue_def go_ret_iff)
qed

text \<open>When the stage has finished, what it handled is exactly what it accepted.\<close>

lemma finished_handled_all:
  assumes "stage_inv s" and "st_phase s = Finished"
  shows "st_handled s = st_accepted s \<and> complete (st_accepted s) (st_comp s) (st_world s)"
  using assms by (auto simp: stage_inv_def)

text \<open>\<open>close\<close> is always possible when its turn comes: the channel is closed once only.\<close>

lemma close_never_panics:
  assumes "stage_inv s" and "st_phase s = Flagged"
  shows "\<exists>ch'. chan_close (op_chan ops (st_comp s)) = Ret ch'"
  using assms by (auto simp: stage_inv_def chan_close_def)

text \<open>Once draining, the goroutine's receive returns at once, with a value or with "no more".\<close>

lemma drain_never_waits:
  assumes "stage_inv s" and "st_phase s = Draining"
  shows "go_returns (chan_recv (op_chan ops (st_comp s)))"
  using assms by (intro gc.recv_closed_returns) (simp add: stage_inv_def)

end

sublocale stage \<subseteq> flow: data_flow "stage_enqueue ops" st_accepted stage_inv
  by (rule stage_is_data_flow)

subsection \<open>Shutdown terminates\<close>

text \<open>
  A stage whose handler and whose last action can always return, if need be after the environment
  has moved, gets from its shutdown to its end.
\<close>

locale finishing_stage = stage ops relates complete
  for ops :: "('c, 'd, 'w) stage_ops" and relates and complete +
  assumes handle_possible: "relates hs c w \<Longrightarrow>
      \<exists>w'. (op_env ops)\<^sup>*\<^sup>* w w' \<and> go_returns (op_handle ops now d c w')"
    and finish_possible: "relates hs c w \<Longrightarrow> go_returns (op_finish ops c w)"
begin

text \<open>One payload less: what is held is handled, otherwise the next one is received, or it ends.\<close>

definition work_left :: "('c, 'd, 'w) stage_state \<Rightarrow> nat" where
  "work_left s = 2 * length (st_buf ops s) + length (hand_list (st_hand s))"

lemma held_is_handled:
  assumes rel: "relates hs (st_comp s) (st_world s)" and hold: "st_hand s = Some d"
  shows "\<exists>t. stage_reach ops s t \<and> st_accepted t = st_accepted s \<and> st_phase t = st_phase s \<and>
    st_hand t = None \<and> st_buf ops t = st_buf ops s"
proof -
  obtain w1 c' w' where w1: "(op_env ops)\<^sup>*\<^sup>* (st_world s) w1"
    and h: "op_handle ops 0 d (st_comp s) w1 = Ret (c', w')"
    using handle_possible[OF rel, of 0 d] by (fastforce simp: go_returns_iff)
  let ?u = "s\<lparr>st_world := w1\<rparr>"
  have "stage_step ops ?u (?u\<lparr>st_comp := c', st_world := w', st_hand := None,
      st_handled := st_handled ?u @ [d]\<rparr>)"
    using stage_step.handle[of ?u d ops 0 c' w'] hold h by simp
  with stage_reach_environment[OF w1]
  have "stage_reach ops s (?u\<lparr>st_comp := c', st_world := w', st_hand := None,
      st_handled := st_handled ?u @ [d]\<rparr>)" by (rule stage_reach.step)
  with handle_chan[OF h] show ?thesis by (fastforce simp: st_buf_def)
qed

lemma drains_to_finish:
  assumes "stage_inv s" and "st_phase s = Draining"
  shows "\<exists>t. stage_reach ops s t \<and> st_phase t = Finished \<and> st_accepted t = st_accepted s"
  using assms
proof (induction "work_left s" arbitrary: s rule: less_induct)
  case less
  have rel: "relates (st_handled s) (st_comp s) (st_world s)"
    using less.prems by (simp add: stage_inv_def)
  have "\<exists>t. stage_reach ops s t \<and> st_accepted t = st_accepted s \<and>
      (st_phase t = Finished \<or> st_phase t = Draining \<and> work_left t < work_left s)"
  proof (cases "st_hand s")
    case (Some d)
    then obtain t where t: "stage_reach ops s t" "st_accepted t = st_accepted s"
      "st_phase t = st_phase s" "st_hand t = None" "st_buf ops t = st_buf ops s"
      using held_is_handled[OF rel] by blast
    with Some less.prems(2) show ?thesis by (intro exI[of _ t]) (simp add: work_left_def)
  next
    case None
    show ?thesis
    proof (cases "st_buf ops s")
      case Nil
      then have r: "chan_recv (op_chan ops (st_comp s)) = Ret (op_chan ops (st_comp s), None)"
        using less.prems by (simp add: chan_recv_def st_buf_def stage_inv_def)
      obtain c' w' where f: "op_finish ops (st_comp s) (st_world s) = Ret (c', w')"
        using finish_possible[OF rel] by (fastforce simp: go_returns_iff)
      from stage_step.finish[OF less.prems(2) None r f] show ?thesis
        by (intro exI[of _ "s\<lparr>st_comp := c', st_world := w', st_phase := Finished\<rparr>"])
           (auto intro: stage_reach_step)
    next
      case (Cons d xs)
      then have r: "chan_recv (op_chan ops (st_comp s)) =
          Ret ((op_chan ops (st_comp s))\<lparr>chan_buf := xs\<rparr>, Some d)"
        by (simp add: chan_recv_def st_buf_def)
      from stage_step.drain[OF less.prems(2) None r] Cons None less.prems(2) show ?thesis
        by (intro exI[of _ "s\<lparr>st_comp := op_set_chan ops
              ((op_chan ops (st_comp s))\<lparr>chan_buf := xs\<rparr>) (st_comp s), st_hand := Some d\<rparr>"])
           (auto simp: work_left_def st_buf_def intro: stage_reach_step)
    qed
  qed
  then obtain t where t: "stage_reach ops s t" "st_accepted t = st_accepted s"
    and or: "st_phase t = Finished \<or> st_phase t = Draining \<and> work_left t < work_left s" by blast
  from or show ?case
  proof
    assume "st_phase t = Finished"
    with t show ?thesis by blast
  next
    assume d: "st_phase t = Draining \<and> work_left t < work_left s"
    with less.hyps[of t] stage_inv_reach[OF t(1) less.prems(1)]
    obtain u where "stage_reach ops t u" "st_phase u = Finished" "st_accepted u = st_accepted t"
      by blast
    with t show ?thesis by (metis stage_reach_trans)
  qed
qed

text \<open>From any point of the run, with an idle goroutine, cancelling the context leads to the end.\<close>

lemma shutdown_reaches_finish:
  assumes inv: "stage_inv s" and idle: "st_parked s"
  shows "\<exists>t. stage_reach ops s t \<and> st_phase t = Finished \<and> st_accepted t = st_accepted s"
proof -
  let ?a = "s\<lparr>st_comp := op_set_shutdown ops (st_comp s), st_phase := Flagged\<rparr>"
  have a: "stage_step ops s ?a"
    using idle by (intro stage_step.cancelled) (auto simp: st_parked_def)
  then have inva: "stage_inv ?a" using inv by (rule stage_inv_step)
  obtain ch' where ch: "chan_close (op_chan ops (st_comp ?a)) = Ret ch'"
    using close_never_panics[OF inva] by auto
  let ?b = "?a\<lparr>st_comp := op_set_chan ops ch' (st_comp ?a), st_phase := Draining\<rparr>"
  have b: "stage_step ops ?a ?b" using ch by (intro stage_step.close) auto
  then have "stage_inv ?b" using inva by (rule stage_inv_step)
  then obtain t where "stage_reach ops ?b t" "st_phase t = Finished"
    "st_accepted t = st_accepted ?b"
    using drains_to_finish[of ?b] by auto
  moreover from this have "stage_reach ops s t" using a b by (blast intro: stage_reach_Cons)
  ultimately show ?thesis by auto
qed

text \<open>Even when it is busy at that moment.\<close>

lemma shutdown_reaches_finish_busy:
  assumes inv: "stage_inv s" and run: "st_phase s = Running"
  shows "\<exists>t. stage_reach ops s t \<and> st_phase t = Finished \<and> st_accepted t = st_accepted s"
proof (cases "st_hand s")
  case None
  with run have "st_parked s" by (simp add: st_parked_def)
  with inv show ?thesis by (rule shutdown_reaches_finish)
next
  case (Some d)
  have "relates (st_handled s) (st_comp s) (st_world s)" using inv run by (simp add: stage_inv_def)
  from held_is_handled[OF this Some] obtain u where
    u: "stage_reach ops s u" "st_accepted u = st_accepted s" "st_parked u"
    using run by (auto simp: st_parked_def)
  from shutdown_reaches_finish[OF stage_inv_reach[OF u(1) inv] u(3)] u
  show ?thesis by (metis stage_reach_trans)
qed

end

end
