(* ===== verification/Domain.thy ===== *)
theory Domain
  imports Prelude
begin

text \<open>
  The data types of pkg/domain/domain.go that the components exchange, and the interface
  \<open>FilePathProvider\<close> as a locale.
\<close>

definition MsgSchemaVersion :: string where "MsgSchemaVersion = ''0.0.1''"

record upload_result =
  ur_Bucket :: string
  ur_Region :: string
  ur_Path :: string
  ur_URL :: string
  ur_SizeInBytes :: int

record message_context =
  mc_Bucket :: string
  mc_Region :: string
  mc_Path :: string
  mc_URL :: string
  mc_SizeInBytes :: int
  mc_CompressionType :: string
  mc_SavedAt :: int

record work_unit =
  wu_Filename :: string
  wu_Prefix :: string
  wu_Data :: bytes

text \<open>
  \<open>FilePathProvider\<close>: both methods return a string (the code dereferences the pointers at once).
  \<open>'p\<close> is whatever the provider keeps or reads: its random sources and the clock.
\<close>

locale file_path_provider =
  fixes Filename :: "'p \<Rightarrow> (string \<times> 'p) go"
    and Prefix :: "'p \<Rightarrow> (string \<times> 'p) go"
    and provider_ok :: "'p \<Rightarrow> bool"
  assumes filename_ok: "provider_ok p \<Longrightarrow> \<exists>s p'. Filename p = Ret (s, p') \<and> provider_ok p'"
    and prefix_ok: "provider_ok p \<Longrightarrow> \<exists>s p'. Prefix p = Ret (s, p') \<and> provider_ok p'"
begin

text \<open>A name and a prefix, drawn one after the other.\<close>

lemma names_ok:
  "provider_ok p \<Longrightarrow>
   \<exists>f x q r. Filename p = Ret (f, q) \<and> Prefix q = Ret (x, r) \<and> provider_ok r"
  using filename_ok prefix_ok by blast

end

end
