(* ===== verification/File_Pather.thy ===== *)
theory File_Pather
  imports Domain Go_Strings
begin

text \<open>
  Where an object is stored: pkg/uploader/filepather/filepather.go and
  pkg/datetimeprovider/datetimeprovider.go.  The UUIDs (package google/uuid), the random draws and
  the clock are inputs: \<open>fe_uuid n\<close> is the n-th UUID drawn, \<open>fe_intn n k\<close> the result of the n-th
  call \<open>Intn(k)\<close>, \<open>fe_now\<close> the local date and hour.
\<close>

record date_time =
  dt_year :: nat
  dt_month :: nat
  dt_day :: nat
  dt_hour :: nat

record fp_env =
  fe_uuid :: "nat \<Rightarrow> string"
  fe_uuids_drawn :: nat
  fe_intn :: "nat \<Rightarrow> int \<Rightarrow> int"
  fe_ints_drawn :: nat
  fe_now :: date_time

definition uuid_New :: "fp_env \<Rightarrow> string \<times> fp_env" where
  "uuid_New e = (fe_uuid e (fe_uuids_drawn e), e\<lparr>fe_uuids_drawn := Suc (fe_uuids_drawn e)\<rparr>)"

definition rand_Intn :: "int \<Rightarrow> fp_env \<Rightarrow> (int \<times> fp_env) go" where
  "rand_Intn n e =
     (if n \<le> 0 then Panic ''invalid argument to Intn''
      else Ret (fe_intn e (fe_ints_drawn e) n, e\<lparr>fe_ints_drawn := Suc (fe_ints_drawn e)\<rparr>))"

subsection \<open>The date time provider\<close>

definition pad :: "nat \<Rightarrow> nat \<Rightarrow> string" where
  "pad k n = replicate (k - length (nat_to_dec n)) (CHR ''0'') @ nat_to_dec n"

text \<open>\<open>Format(time.DateOnly)\<close>: year-month-day; \<open>strconv.Itoa(Hour())\<close>: not padded.\<close>

definition Date :: "date_time \<Rightarrow> string" where
  "Date dt = pad 4 (dt_year dt) @ ''-'' @ pad 2 (dt_month dt) @ ''-'' @ pad 2 (dt_day dt)"

definition Hour :: "date_time \<Rightarrow> string" where
  "Hour dt = strconv_Itoa (int (dt_hour dt))"

subsection \<open>The two file pathers\<close>

record single_prefix =
  sp_randomPrefix :: string
  sp_fileExtension :: string

record multiple_prefixes =
  mp_randomPrefixes :: "string list"
  mp_prefixCount :: int
  mp_fileExtension :: string

datatype file_pather =
  SinglePrefixFilePather single_prefix
| MultiplePrefixesFilePather multiple_prefixes

fun drawUuids :: "nat \<Rightarrow> fp_env \<Rightarrow> string list \<times> fp_env" where
  "drawUuids 0 e = ([], e)"
| "drawUuids (Suc n) e =
     (let (u, e1) = uuid_New e; (us, e2) = drawUuids n e1 in (u # us, e2))"

definition NewFilePather :: "int \<Rightarrow> string \<Rightarrow> fp_env \<Rightarrow> (file_pather \<times> fp_env) go" where
  "NewFilePather prefixVariety fileExtension e =
     (if prefixVariety < 1 then Panic ''filepather: prefixVariety cannot be less than 1''
      else if prefixVariety = 1 then
        (let (u, e') = uuid_New e in
         Ret (SinglePrefixFilePather \<lparr>sp_randomPrefix = u, sp_fileExtension = fileExtension\<rparr>, e'))
      else
        (let (prefixes, e') = drawUuids (nat prefixVariety) e in
         Ret (MultiplePrefixesFilePather
                \<lparr>mp_randomPrefixes = prefixes, mp_prefixCount = int (length prefixes),
                 mp_fileExtension = fileExtension\<rparr>, e')))"

text \<open>\<open>fmt.Sprintf("date=%s/hour=%s/%s/", \<dots>)\<close>, the same in both \<open>Prefix\<close> methods.\<close>

definition formatPrefix :: "date_time \<Rightarrow> string \<Rightarrow> string" where
  "formatPrefix dt p = ''date='' @ Date dt @ ''/hour='' @ Hour dt @ ''/'' @ p @ ''/''"

definition single_Filename :: "single_prefix \<Rightarrow> fp_env \<Rightarrow> string \<times> fp_env" where
  "single_Filename fp e =
     (let (filename, e') = uuid_New e in
      (if sp_fileExtension fp \<noteq> [] then filename @ ''.'' @ sp_fileExtension fp else filename, e'))"

definition single_Prefix :: "single_prefix \<Rightarrow> fp_env \<Rightarrow> string" where
  "single_Prefix fp e = formatPrefix (fe_now e) (sp_randomPrefix fp)"

definition multiple_Filename :: "multiple_prefixes \<Rightarrow> fp_env \<Rightarrow> string \<times> fp_env" where
  "multiple_Filename fp e =
     (let (filename, e') = uuid_New e in
      (if mp_fileExtension fp \<noteq> [] then filename @ ''.'' @ mp_fileExtension fp else filename, e'))"

definition multiple_Prefix :: "multiple_prefixes \<Rightarrow> fp_env \<Rightarrow> (string \<times> fp_env) go" where
  "multiple_Prefix fp e =
     go_bind (rand_Intn (mp_prefixCount fp) e) (\<lambda>(i, e').
       if i < 0 \<or> int (length (mp_randomPrefixes fp)) \<le> i then Panic ''index out of range''
       else Ret (formatPrefix (fe_now e) (mp_randomPrefixes fp ! nat i), e'))"

text \<open>The provider a flow uses: the file pather together with its sources.\<close>

fun fp_Filename :: "file_pather \<times> fp_env \<Rightarrow> (string \<times> file_pather \<times> fp_env) go" where
  "fp_Filename (SinglePrefixFilePather fp, e) =
     (let (f, e') = single_Filename fp e in Ret (f, SinglePrefixFilePather fp, e'))"
| "fp_Filename (MultiplePrefixesFilePather fp, e) =
     (let (f, e') = multiple_Filename fp e in Ret (f, MultiplePrefixesFilePather fp, e'))"

fun fp_Prefix :: "file_pather \<times> fp_env \<Rightarrow> (string \<times> file_pather \<times> fp_env) go" where
  "fp_Prefix (SinglePrefixFilePather fp, e) =
     Ret (single_Prefix fp e, SinglePrefixFilePather fp, e)"
| "fp_Prefix (MultiplePrefixesFilePather fp, e) =
     go_bind (multiple_Prefix fp e) (\<lambda>(p, e'). Ret (p, MultiplePrefixesFilePather fp, e'))"

subsection \<open>Lemmas\<close>

text \<open>What the package math/rand documents: \<open>Intn(n)\<close> is in \<open>[0, n)\<close>.\<close>

definition intn_in_range :: "fp_env \<Rightarrow> bool" where
  "intn_in_range e \<longleftrightarrow> (\<forall>k n. 0 < n \<longrightarrow> 0 \<le> fe_intn e k n \<and> fe_intn e k n < n)"

fun pather_prefixes :: "file_pather \<Rightarrow> string list" where
  "pather_prefixes (SinglePrefixFilePather fp) = [sp_randomPrefix fp]"
| "pather_prefixes (MultiplePrefixesFilePather fp) = mp_randomPrefixes fp"

fun pather_extension :: "file_pather \<Rightarrow> string" where
  "pather_extension (SinglePrefixFilePather fp) = sp_fileExtension fp"
| "pather_extension (MultiplePrefixesFilePather fp) = mp_fileExtension fp"

text \<open>The invariant of a file pather: it has a prefix to give, and counts them right.\<close>

fun pather_ok :: "file_pather \<times> fp_env \<Rightarrow> bool" where
  "pather_ok (SinglePrefixFilePather fp, e) = intn_in_range e"
| "pather_ok (MultiplePrefixesFilePather fp, e) \<longleftrightarrow>
     intn_in_range e \<and> mp_randomPrefixes fp \<noteq> [] \<and>
     mp_prefixCount fp = int (length (mp_randomPrefixes fp))"

lemma drawUuids_spec:
  "drawUuids n e = (us, e') \<Longrightarrow> length us = n \<and> fe_intn e' = fe_intn e"
proof (induction n arbitrary: e us e')
  case (Suc n)
  obtain vs e2 where d: "drawUuids n (snd (uuid_New e)) = (vs, e2)" by fastforce
  with Suc.IH[OF d] Suc.prems show ?case by (auto simp: uuid_New_def)
qed simp

lemma NewFilePather_ok:
  assumes "NewFilePather n ext e = Ret (fp, e')" and "intn_in_range e"
  shows "pather_ok (fp, e') \<and> int (length (pather_prefixes fp)) = n \<and> pather_extension fp = ext"
proof -
  obtain us e2 where d: "drawUuids (nat n) e = (us, e2)" by fastforce
  with assms drawUuids_spec[OF d] show ?thesis
    by (auto simp: NewFilePather_def uuid_New_def intn_in_range_def split: if_splits)
qed

lemma fp_Filename_spec:
  assumes "pather_ok s"
  shows "\<exists>u. fp_Filename s = Ret (u @ (if pather_extension (fst s) = [] then []
           else ''.'' @ pather_extension (fst s)), fst s, snd (uuid_New (snd s))) \<and>
         pather_ok (fst s, snd (uuid_New (snd s)))"
  using assms
  by (cases s rule: fp_Filename.cases)
     (auto simp: single_Filename_def multiple_Filename_def uuid_New_def intn_in_range_def)

lemma fp_Prefix_spec:
  assumes "pather_ok s"
  shows "\<exists>p s'. p \<in> set (pather_prefixes (fst s)) \<and>
    fp_Prefix s = Ret (formatPrefix (fe_now (snd s)) p, s') \<and> fst s' = fst s \<and> pather_ok s'"
proof (cases s rule: fp_Prefix.cases)
  case (1 fp e)
  with assms show ?thesis by (simp add: single_Prefix_def)
next
  case (2 fp e)
  let ?n = "mp_prefixCount fp"
  let ?i = "fe_intn e (fe_ints_drawn e) ?n"
  have n: "0 < ?n" "?n = int (length (mp_randomPrefixes fp))" using 2 assms by auto
  with 2 assms have i: "0 \<le> ?i" "?i < ?n" by (auto simp: intn_in_range_def)
  with n 2 have r: "fp_Prefix s = Ret (formatPrefix (fe_now e) (mp_randomPrefixes fp ! nat ?i),
      fst s, e\<lparr>fe_ints_drawn := Suc (fe_ints_drawn e)\<rparr>)"
    by (simp add: multiple_Prefix_def rand_Intn_def)
  have "mp_randomPrefixes fp ! nat ?i \<in> set (mp_randomPrefixes fp)" using i n by simp
  with r 2 assms show ?thesis by (auto simp: intn_in_range_def)
qed

interpretation fp: file_path_provider fp_Filename fp_Prefix pather_ok
proof
  fix s assume ok: "pather_ok s"
  show "\<exists>f s'. fp_Filename s = Ret (f, s') \<and> pather_ok s'" using fp_Filename_spec[OF ok] by blast
  show "\<exists>f s'. fp_Prefix s = Ret (f, s') \<and> pather_ok s'" using fp_Prefix_spec[OF ok] by blast
qed

subsection \<open>Property\<close>

lemma NewFilePather_made:
  assumes "1 \<le> n"
  shows "\<exists>fp e'. NewFilePather n ext e = Ret (fp, e')"
  using assms by (auto simp: NewFilePather_def case_prod_beta Let_def)



end
