(* ===== verification/Uploader.thy ===== *)
theory Uploader
  imports Stage_Loop File_Pather
begin

text \<open>
  The uploader: pkg/uploader/uploader.go and pkg/uploader/metrics.go.  It turns every payload into
  a \<open>WorkUnit\<close> with a file name and a prefix and sends it on the channel \<open>next\<close>, from which the
  upload workers receive.

  The record \<open>uploader\<close> has the fields of \<open>NonBlockingUploader\<close> that its own goroutine and its
  callers use.  What it shares with other goroutines is the world \<open>up_world\<close>: the channel \<open>next\<close>,
  the file path provider, and (a history that only the theorems read) the units that workers have
  received.  The channel \<open>searchForWork\<close> is made by \<open>New\<close> and used nowhere; it is left out.
\<close>

subsection \<open>Metrics\<close>

record up_metrics =
  upQueueCapacityGauge :: int
  upWorkersCountGauge :: int
  upEnqueueCounter :: nat
  upEnqueuedItemsGauge :: int
  upEnqueueFailed :: nat

definition newUploaderMetrics :: up_metrics where
  "newUploaderMetrics = \<lparr>upQueueCapacityGauge = 0, upWorkersCountGauge = 0, upEnqueueCounter = 0,
     upEnqueuedItemsGauge = 0, upEnqueueFailed = 0\<rparr>"

definition up_queueCapacity :: "int \<Rightarrow> up_metrics \<Rightarrow> up_metrics" where
  "up_queueCapacity n m = m\<lparr>upQueueCapacityGauge := n\<rparr>"

definition up_workersCount :: "int \<Rightarrow> up_metrics \<Rightarrow> up_metrics" where
  "up_workersCount n m = m\<lparr>upWorkersCountGauge := n\<rparr>"

definition up_increaseEnqueueCounter :: "up_metrics \<Rightarrow> up_metrics" where
  "up_increaseEnqueueCounter m = m\<lparr>upEnqueueCounter := upEnqueueCounter m + 1\<rparr>"

definition up_enqueuedItems :: "int \<Rightarrow> up_metrics \<Rightarrow> up_metrics" where
  "up_enqueuedItems n m = m\<lparr>upEnqueuedItemsGauge := n\<rparr>"

definition up_incEnqueueFailed :: "up_metrics \<Rightarrow> up_metrics" where
  "up_incEnqueueFailed m = m\<lparr>upEnqueueFailed := upEnqueueFailed m + 1\<rparr>"

subsection \<open>State and operations\<close>

record uploader =
  up_internalDataChan :: "bytes gochan"
  up_metrics :: up_metrics
  up_shuttingDown :: bool
  up_doneChan :: "unit gochan option"

record 'p up_world =
  up_next :: "work_unit gochan"
  up_filePathProvider :: 'p
  up_received :: "work_unit list"

definition NewUploader :: "int \<Rightarrow> int \<Rightarrow> uploader go" where
  "NewUploader workersCount queueCapacity =
     go_bind (make_chan queueCapacity) (\<lambda>ch.
       Ret \<lparr>up_internalDataChan = ch,
            up_metrics = up_workersCount workersCount
                           (up_queueCapacity queueCapacity newUploaderMetrics),
            up_shuttingDown = False, up_doneChan = None\<rparr>)"

definition updateEnqueuedItemsMetric_uploader :: "uploader \<Rightarrow> uploader" where
  "updateEnqueuedItemsMetric_uploader s =
     s\<lparr>up_metrics :=
         up_enqueuedItems (int (length (chan_buf (up_internalDataChan s)))) (up_metrics s)\<rparr>"

definition Enqueue_uploader :: "bool \<Rightarrow> uploader \<Rightarrow> bytes \<Rightarrow> (uploader \<times> error option) go" where
  "Enqueue_uploader rdy s d =
     (if up_shuttingDown s then Ret (s, Some (Error ''uploader shutting down''))
      else
        let s = s\<lparr>up_metrics := up_increaseEnqueueCounter (up_metrics s)\<rparr> in
        go_bind (chan_try_send rdy (up_internalDataChan s) d) (\<lambda>(ch, sent).
          if sent then
            Ret (updateEnqueuedItemsMetric_uploader (s\<lparr>up_internalDataChan := ch\<rparr>), None)
          else
            Ret (s\<lparr>up_metrics := up_incEnqueueFailed (up_metrics s)\<rparr>,
                 Some (Error
                   ''enqueueing data to accumulate on uploader failed, queue is full''))))"

text \<open>
  \<open>sendWorkToNext\<close>: the file name is drawn first, then the prefix, then the unit is sent; the send
  waits while \<open>next\<close> is full.
\<close>

definition sendWorkToNext ::
  "('p \<Rightarrow> (string \<times> 'p) go) \<Rightarrow> ('p \<Rightarrow> (string \<times> 'p) go) \<Rightarrow> bytes \<Rightarrow> uploader \<Rightarrow> 'p up_world \<Rightarrow>
   (uploader \<times> 'p up_world) go" where
  "sendWorkToNext Filename Prefix d s w =
     go_bind (Filename (up_filePathProvider w)) (\<lambda>(fname, p).
     go_bind (Prefix p) (\<lambda>(prfx, p).
     go_bind (chan_send (up_next w) \<lparr>wu_Filename = fname, wu_Prefix = prfx, wu_Data = d\<rparr>)
       (\<lambda>ch.
       Ret (updateEnqueuedItemsMetric_uploader s,
            w\<lparr>up_next := ch, up_filePathProvider := p\<rparr>))))"

definition setShutdown_uploader :: "uploader \<Rightarrow> uploader" where
  "setShutdown_uploader s = s\<lparr>up_shuttingDown := True\<rparr>"

definition closeNext :: "uploader \<Rightarrow> 'p up_world \<Rightarrow> (uploader \<times> 'p up_world) go" where
  "closeNext s w = go_bind (chan_close (up_next w)) (\<lambda>ch. Ret (s, w\<lparr>up_next := ch\<rparr>))"

text \<open>\<open>shutdown()\<close>, run by one goroutine with nothing in between.\<close>

definition shutdown_uploader ::
  "('p \<Rightarrow> (string \<times> 'p) go) \<Rightarrow> ('p \<Rightarrow> (string \<times> 'p) go) \<Rightarrow> uploader \<Rightarrow> 'p up_world \<Rightarrow>
   (uploader \<times> 'p up_world) go" where
  "shutdown_uploader Filename Prefix s w =
     (let s = setShutdown_uploader s in
      go_bind (chan_close (up_internalDataChan s)) (\<lambda>ch.
      go_bind (drain (\<lambda>ch d (s, w).
                 sendWorkToNext Filename Prefix d (s\<lparr>up_internalDataChan := ch\<rparr>) w) ch (s, w))
        (\<lambda>(ch, s, w). closeNext (s\<lparr>up_internalDataChan := ch\<rparr>) w)))"

definition startRun_uploader :: "uploader \<Rightarrow> uploader" where
  "startRun_uploader s =
     s\<lparr>up_doneChan := Some \<lparr>chan_cap = 0, chan_buf = [], chan_closed = False\<rparr>\<rparr>"

definition closeDone_uploader :: "uploader \<Rightarrow> uploader" where
  "closeDone_uploader s =
     s\<lparr>up_doneChan := map_option (\<lambda>ch. ch\<lparr>chan_closed := True\<rparr>) (up_doneChan s)\<rparr>"

definition Done_uploader :: "uploader \<Rightarrow> unit gochan option" where
  "Done_uploader s = up_doneChan s"

text \<open>
  What goes on around the uploader: a worker receives a unit from \<open>next\<close>, or the state of the path
  provider moves (its clock).
\<close>

inductive up_env :: "('p \<Rightarrow> 'p \<Rightarrow> bool) \<Rightarrow> 'p up_world \<Rightarrow> 'p up_world \<Rightarrow> bool"
  for moves where
  worker_receives: "chan_recv (up_next w) = Ret (ch', Some u) \<Longrightarrow>
    up_env moves w (w\<lparr>up_next := ch', up_received := up_received w @ [u]\<rparr>)"
| provider_moves: "moves (up_filePathProvider w) p \<Longrightarrow>
    up_env moves w (w\<lparr>up_filePathProvider := p\<rparr>)"

text \<open>
  The uploader as a stage.  Its goroutine draws the names before it waits on \<open>next\<close>; here name and
  send are one step, taken when the send is possible, which only the clock could tell apart.
\<close>

definition uploader_ops ::
  "('p \<Rightarrow> (string \<times> 'p) go) \<Rightarrow> ('p \<Rightarrow> (string \<times> 'p) go) \<Rightarrow> ('p \<Rightarrow> 'p \<Rightarrow> bool) \<Rightarrow>
   (uploader, bytes, 'p up_world) stage_ops" where
  "uploader_ops Filename Prefix moves =
     \<lparr>op_enqueue = Enqueue_uploader,
      op_chan = up_internalDataChan,
      op_set_chan = (\<lambda>ch s. s\<lparr>up_internalDataChan := ch\<rparr>),
      op_shutting_down = up_shuttingDown,
      op_set_shutdown = setShutdown_uploader,
      op_handle = (\<lambda>now d s w. sendWorkToNext Filename Prefix d s w),
      op_tick = (\<lambda>now s w. Block),
      op_finish = (\<lambda>s w.
        go_bind (closeNext s w) (\<lambda>(s, w). Ret (closeDone_uploader s, w))),
      op_env = up_env moves\<rparr>"

lemma uploader_ops_fields [simp]:
  "op_chan (uploader_ops f x m) = up_internalDataChan"
  "op_enqueue (uploader_ops f x m) = Enqueue_uploader"
  by (simp_all add: uploader_ops_def)

subsection \<open>The uploader's contract\<close>

text \<open>
  After having handled \<open>hs\<close>, the uploader has put exactly these payloads on \<open>next\<close>, in order, each
  in one unit: some are still in the channel, the others received by workers.
\<close>

definition up_units :: "'p up_world \<Rightarrow> work_unit list" where
  "up_units w = up_received w @ chan_buf (up_next w)"

definition up_relates ::
  "('p \<Rightarrow> bool) \<Rightarrow> bytes list \<Rightarrow> uploader \<Rightarrow> 'p up_world \<Rightarrow> bool" where
  "up_relates provider_ok hs s w \<longleftrightarrow>
     map wu_Data (up_units w) = hs \<and> \<not> chan_closed (up_next w) \<and>
     0 < chan_cap (up_next w) \<and> length (chan_buf (up_next w)) \<le> chan_cap (up_next w) \<and>
     provider_ok (up_filePathProvider w) \<and>
     up_doneChan s = Some \<lparr>chan_cap = 0, chan_buf = [], chan_closed = False\<rparr>"

definition up_complete ::
  "('p \<Rightarrow> bool) \<Rightarrow> bytes list \<Rightarrow> uploader \<Rightarrow> 'p up_world \<Rightarrow> bool" where
  "up_complete provider_ok hs s w \<longleftrightarrow>
     map wu_Data (up_units w) = hs \<and> chan_closed (up_next w) \<and>
     provider_ok (up_filePathProvider w) \<and>
     up_doneChan s = Some \<lparr>chan_cap = 0, chan_buf = [], chan_closed = True\<rparr>"

lemma up_relates_frame [simp]:
  "up_relates ok hs (s\<lparr>up_internalDataChan := ch\<rparr>) w = up_relates ok hs s w"
  "up_relates ok hs (setShutdown_uploader s) w = up_relates ok hs s w"
  "up_relates ok hs (updateEnqueuedItemsMetric_uploader s) w = up_relates ok hs s w"
  by (simp_all add: up_relates_def setShutdown_uploader_def updateEnqueuedItemsMetric_uploader_def)

lemma Enqueue_uploader_cases:
  "Enqueue_uploader rdy s d = Ret (s', err) \<Longrightarrow>
     up_shuttingDown s' = up_shuttingDown s \<and> up_doneChan s' = up_doneChan s \<and>
     (err = None \<longrightarrow> \<not> up_shuttingDown s \<and>
        chan_try_send rdy (up_internalDataChan s) d = Ret (up_internalDataChan s', True)) \<and>
     (err \<noteq> None \<longrightarrow> up_internalDataChan s' = up_internalDataChan s)"
  by (auto simp: Enqueue_uploader_def updateEnqueuedItemsMetric_uploader_def go_ret_iff Let_def
      split: if_splits)

lemma Enqueue_uploader_open:
  assumes "\<not> chan_closed (up_internalDataChan s)"
  shows "go_returns (Enqueue_uploader rdy s d)"
  using chan_try_send_returns[OF assms, of rdy d]
  by (auto simp: Enqueue_uploader_def go_returns_iff Let_def)

lemma sendWorkToNext_frame:
  "sendWorkToNext fname prfx d s w = Ret (s', w') \<Longrightarrow>
   up_internalDataChan s' = up_internalDataChan s \<and> up_shuttingDown s' = up_shuttingDown s"
  by (auto simp: sendWorkToNext_def go_ret_iff updateEnqueuedItemsMetric_uploader_def)

text \<open>The provider's state as the clock and the random sources move on.\<close>

locale moving_provider = file_path_provider Filename Prefix provider_ok
  for Filename :: "'p \<Rightarrow> (string \<times> 'p) go" and Prefix and provider_ok +
  fixes moves :: "'p \<Rightarrow> 'p \<Rightarrow> bool"
  assumes moves_ok: "provider_ok p \<Longrightarrow> moves p q \<Longrightarrow> provider_ok q"
begin

lemma sendWorkToNext_spec:
  assumes "up_relates provider_ok hs s w"
    and "sendWorkToNext Filename Prefix d s w = Ret (s', w')"
  shows "up_relates provider_ok (hs @ [d]) s' w'"
proof -
  have "provider_ok (up_filePathProvider w)" using assms(1) by (simp add: up_relates_def)
  then obtain f x q r where "Filename (up_filePathProvider w) = Ret (f, q)"
    "Prefix q = Ret (x, r)" "provider_ok r" using names_ok by blast
  with assms show ?thesis
    by (auto simp: sendWorkToNext_def go_ret_iff up_relates_def up_units_def
        updateEnqueuedItemsMetric_uploader_def)
qed

lemma sendWorkToNext_room:
  assumes "up_relates provider_ok hs s w"
    and "length (chan_buf (up_next w)) < chan_cap (up_next w)"
  shows "go_returns (sendWorkToNext Filename Prefix d s w)"
proof -
  have "provider_ok (up_filePathProvider w)" using assms(1) by (simp add: up_relates_def)
  then obtain f x q r where "Filename (up_filePathProvider w) = Ret (f, q)"
    "Prefix q = Ret (x, r)" using names_ok by blast
  with assms show ?thesis by (simp add: sendWorkToNext_def up_relates_def chan_send_def)
qed

lemma up_env_units: "up_env moves w w' \<Longrightarrow> up_units w' = up_units w"
  by (induction rule: up_env.induct) (auto simp: up_units_def go_ret_iff)

lemma up_env_relates:
  "up_env moves w w' \<Longrightarrow> up_relates provider_ok hs s w \<Longrightarrow> up_relates provider_ok hs s w'"
  by (induction rule: up_env.induct)
     (auto simp: up_relates_def up_units_def go_ret_iff intro: moves_ok)

lemma up_env_complete:
  "up_env moves w w' \<Longrightarrow> up_complete provider_ok hs s w \<Longrightarrow> up_complete provider_ok hs s w'"
  by (induction rule: up_env.induct)
     (auto simp: up_complete_def up_units_def go_ret_iff intro: moves_ok)

lemma worker_makes_room:
  assumes "up_relates provider_ok hs s w"
  shows "\<exists>w'. (up_env moves)\<^sup>*\<^sup>* w w' \<and> go_returns (sendWorkToNext Filename Prefix d s w')"
proof (cases "chan_buf (up_next w)")
  case Nil
  with assms have "go_returns (sendWorkToNext Filename Prefix d s w)"
    by (intro sendWorkToNext_room) (auto simp: up_relates_def)
  then show ?thesis by blast
next
  case (Cons u us)
  let ?w = "w\<lparr>up_next := (up_next w)\<lparr>chan_buf := us\<rparr>, up_received := up_received w @ [u]\<rparr>"
  have "up_env moves w ?w" using Cons by (intro worker_receives) (simp add: go_ret_iff)
  moreover from this have "go_returns (sendWorkToNext Filename Prefix d s ?w)"
    using up_env_relates[OF _ assms] assms Cons
    by (intro sendWorkToNext_room) (auto simp: up_relates_def)
  ultimately show ?thesis by blast
qed

text \<open>\<open>shutdown\<close> run to its end: everything buffered is sent, then \<open>next\<close> is closed.\<close>

lemma shutdown_uploader_spec:
  assumes rel: "up_relates provider_ok hs s w"
    and "\<not> chan_closed (up_internalDataChan s)"
    and sh: "shutdown_uploader Filename Prefix s w = Ret (s', w')"
  shows "up_complete provider_ok (hs @ chan_buf (up_internalDataChan s)) (closeDone_uploader s') w' \<and>
    chan_buf (up_internalDataChan s') = [] \<and> up_shuttingDown s'"
proof -
  let ?ch = "(up_internalDataChan s)\<lparr>chan_closed := True\<rparr>"
  let ?I = "\<lambda>hs (s, w). up_relates provider_ok hs s w \<and> up_shuttingDown s"
  obtain ch s1 w1 where
    dr: "drain (\<lambda>ch d (s, w). sendWorkToNext Filename Prefix d (s\<lparr>up_internalDataChan := ch\<rparr>) w)
       ?ch (setShutdown_uploader s, w) = Ret (ch, s1, w1)" and
    cl: "closeNext (s1\<lparr>up_internalDataChan := ch\<rparr>) w1 = Ret (s', w')"
    using sh assms(2)
    by (auto simp: shutdown_uploader_def Let_def go_ret_iff setShutdown_uploader_def)
  have "ch = ?ch\<lparr>chan_buf := []\<rparr> \<and> ?I (hs @ chan_buf ?ch) (s1, w1)"
  proof (rule drain_closed_rule[OF _ _ _ dr])
    fix hs d ch s s'
    assume I: "?I hs s" and h: "(case s of (s, w) \<Rightarrow>
      sendWorkToNext Filename Prefix d (s\<lparr>up_internalDataChan := ch\<rparr>) w) = Ret s'"
    obtain a v a' v' where s: "s = (a, v)" "s' = (a', v')" by (cases s, cases s')
    with h have "sendWorkToNext Filename Prefix d (a\<lparr>up_internalDataChan := ch\<rparr>) v = Ret (a', v')"
      by simp
    from sendWorkToNext_spec[OF _ this, of hs] sendWorkToNext_frame[OF this] I
    show "?I (hs @ [d]) s'" by (auto simp: s)
  qed (use rel in \<open>auto simp: setShutdown_uploader_def up_relates_def\<close>)
  with cl show ?thesis
    by (auto simp: closeNext_def go_ret_iff up_relates_def up_complete_def up_units_def
        closeDone_uploader_def)
qed

end

sublocale moving_provider \<subseteq> up: finishing_stage "uploader_ops Filename Prefix moves"
  "up_relates provider_ok" "up_complete provider_ok"
proof (unfold_locales, goal_cases)
  case (3 c)
  then show ?case by (simp add: uploader_ops_def setShutdown_uploader_def)
next
  case (4 c)
  then show ?case by (simp add: uploader_ops_def setShutdown_uploader_def)
next
  case (5 c rdy d)
  then show ?case by (simp add: uploader_ops_def Enqueue_uploader_def)
next
  case (6 c rdy d)
  then show ?case by (simp add: uploader_ops_def Enqueue_uploader_open)
next
  case (7 rdy c d c')
  then show ?case by (auto simp: uploader_ops_def dest: Enqueue_uploader_cases)
next
  case (8 rdy c d c' e)
  then show ?case by (auto simp: uploader_ops_def dest: Enqueue_uploader_cases)
next
  case (9 now d c w c' w')
  then show ?case by (auto simp: uploader_ops_def dest: sendWorkToNext_frame)
next
  case (11 c w c' w')
  then show ?case by (auto simp: uploader_ops_def closeNext_def go_ret_iff closeDone_uploader_def)
next
  case (12 hs c w rdy d c' err)
  then show ?case by (auto simp: uploader_ops_def up_relates_def dest: Enqueue_uploader_cases)
next
  case (15 hs c w now d c' w')
  then show ?case by (auto simp: uploader_ops_def dest: sendWorkToNext_spec)
next
  case (17 hs c w w')
  then show ?case by (auto simp: uploader_ops_def intro: up_env_relates)
next
  case (18 hs c w c' w')
  then show ?case
    by (auto simp: uploader_ops_def go_ret_iff closeNext_def closeDone_uploader_def up_relates_def
        up_complete_def up_units_def)
next
  case (19 hs c w w')
  then show ?case by (auto simp: uploader_ops_def intro: up_env_complete)
next
  case (20 hs c w rdy d c' err)
  then show ?case by (auto simp: uploader_ops_def up_complete_def dest: Enqueue_uploader_cases)
next
  case (21 hs c w now d)
  then show ?case using worker_makes_room by (simp add: uploader_ops_def)
next
  case (22 hs c w)
  then show ?case
    by (auto simp: uploader_ops_def closeNext_def up_relates_def chan_close_def go_returns_iff)
qed (auto simp: uploader_ops_def)

subsection \<open>The uploader of a flow\<close>

text \<open>The pather's clock moves; nothing else touches its state.\<close>

inductive clock_moves :: "file_pather \<times> fp_env \<Rightarrow> file_pather \<times> fp_env \<Rightarrow> bool" where
  "clock_moves (fp, e) (fp, e\<lparr>fe_now := dt\<rparr>)"

definition flow_uploader_ops ::
  "(uploader, bytes, (file_pather \<times> fp_env) up_world) stage_ops" where
  "flow_uploader_ops = uploader_ops fp_Filename fp_Prefix clock_moves"

definition new_up_world :: "int \<Rightarrow> 'p \<Rightarrow> 'p up_world go" where
  "new_up_world cap p = go_bind (make_chan cap) (\<lambda>ch.
     Ret \<lparr>up_next = ch, up_filePathProvider = p, up_received = []\<rparr>)"

interpretation fu: moving_provider fp_Filename fp_Prefix pather_ok clock_moves
proof unfold_locales
  fix p q assume "pather_ok p" "clock_moves p q"
  then show "pather_ok q"
    by (cases p rule: pather_ok.cases) (auto simp: intn_in_range_def elim: clock_moves.cases)
qed

text \<open>A freshly made uploader whose goroutine has started satisfies the stage's invariant.\<close>

lemma new_uploader_inv:
  assumes "NewUploader workers cap = Ret u" and "new_up_world n p = Ret w" and "0 < n"
    and "pather_ok p"
  shows "fu.up.stage_inv (stage_start (startRun_uploader u) w)"
  using assms
  by (intro fu.up.stage_inv_start[where n = "nat cap"])
     (auto simp: NewUploader_def new_up_world_def go_ret_iff startRun_uploader_def uploader_ops_def
       up_relates_def up_units_def)

type_synonym up_stage = "(uploader, bytes, (file_pather \<times> fp_env) up_world) stage_state"

text \<open>A concrete uploader, fresh from its construction, for evaluating the properties.\<close>

definition sample_fp :: "file_pather \<times> fp_env" where
  "sample_fp = (SinglePrefixFilePather \<lparr>sp_randomPrefix = ''id'', sp_fileExtension = []\<rparr>,
     \<lparr>fe_uuid = (\<lambda>n. ''id''), fe_uuids_drawn = 1, fe_intn = (\<lambda>k n. 0), fe_ints_drawn = 0,
      fe_now = \<lparr>dt_year = 2024, dt_month = 1, dt_day = 2, dt_hour = 3\<rparr>\<rparr>)"

lemma sample_fp_ok: "pather_ok sample_fp"
  by (simp add: sample_fp_def intn_in_range_def)

definition sample_uploader :: "int \<Rightarrow> up_stage" where
  "sample_uploader cap = stage_start
     (startRun_uploader \<lparr>up_internalDataChan = \<lparr>chan_cap = nat cap, chan_buf = [], chan_closed = False\<rparr>,
        up_metrics = up_workersCount 1 (up_queueCapacity cap newUploaderMetrics),
        up_shuttingDown = False, up_doneChan = None\<rparr>)
     \<lparr>up_next = \<lparr>chan_cap = 1, chan_buf = [], chan_closed = False\<rparr>,
      up_filePathProvider = sample_fp, up_received = []\<rparr>"

lemma sample_uploader_inv: "0 \<le> cap \<Longrightarrow> fu.up.stage_inv (sample_uploader cap)"
  unfolding sample_uploader_def
  by (rule new_uploader_inv[where workers = 1 and cap = cap and n = 1 and p = sample_fp])
     (simp_all add: NewUploader_def make_chan_def new_up_world_def sample_fp_ok)

subsection \<open>Properties\<close>

lemma flow_uploader_inv:
  assumes "NewUploader workers cap = Ret u" and "new_up_world n p = Ret w" and "0 < n"
    and "pather_ok p"
    and "stage_reach flow_uploader_ops (stage_start (startRun_uploader u) w) t"
  shows "fu.up.stage_inv t"
  using fu.up.stage_inv_reach[OF assms(5)[unfolded flow_uploader_ops_def] new_uploader_inv[OF assms(1-4)]] .

lemma uploader_units_of_inv:
  assumes "fu.up.stage_inv t"
  shows "map wu_Data (up_units (st_world t)) = st_handled t \<and>
    (chan_closed (up_next (st_world t)) \<longleftrightarrow> st_phase t = Finished)"
  using assms by (auto simp: fu.up.stage_inv_def up_relates_def up_complete_def split: if_splits)

text \<open>
  In every state an uploader can get into, what it has accepted is what it has handled,
  the payload it holds and what is queued; the units it has put on \<open>next\<close>, those the workers have
  received and those still in the channel, carry exactly the handled payloads, one each, in order;
  \<open>next\<close> is closed only when it has finished and everything accepted is out, so that no worker
  stops too early and no unit is sent on a closed channel; and \<open>Enqueue\<close> always returns.
\<close>

lemma uploader_forwards_everything:
  assumes "NewUploader workers cap = Ret u" and "new_up_world n p = Ret w" and "0 < n"
    and "pather_ok p"
    and "stage_reach flow_uploader_ops (stage_start (startRun_uploader u) w) t"
  shows "st_accepted t =
      st_handled t @ hand_list (st_hand t) @ chan_buf (up_internalDataChan (st_comp t)) \<and>
    map wu_Data (up_units (st_world t)) = st_handled t \<and>
    (chan_closed (up_next (st_world t)) \<longleftrightarrow> st_phase t = Finished) \<and>
    (st_phase t = Finished \<longrightarrow> st_accepted t = st_handled t) \<and>
    go_returns (Enqueue_uploader rdy (st_comp t) d)"
proof -
  note inv = flow_uploader_inv[OF assms]
  have "st_accepted t = st_handled t @ hand_list (st_hand t) @ chan_buf (up_internalDataChan (st_comp t))
      \<and> (st_phase t = Finished \<longrightarrow> st_accepted t = st_handled t)"
    using inv unfolding fu.up.stage_inv_def by (auto simp: st_buf_def)
  with uploader_units_of_inv[OF inv] fu.up.enqueue_never_stuck[OF inv, of rdy d] show ?thesis by auto
qed

definition sample_uploader_events :: "bytes stage_event list" where
  "sample_uploader_events = [Enq [1], Recv, Enq [2], Handle 0, Cancel]"

lemma sample_uploader_made:
  "\<exists>u w. NewUploader 1 2 = Ret u \<and> new_up_world 1 sample_fp = Ret w \<and>
     sample_uploader 2 = stage_start (startRun_uploader u) w"
  by (simp add: sample_uploader_def NewUploader_def new_up_world_def make_chan_def)

text \<open>
  From every state in which an uploader runs, busy or idle, its shutdown can be
  carried through to the end while the workers receive: then every accepted payload is in exactly one
  unit, in order, and \<open>next\<close> is closed.
\<close>

lemma uploader_shutdown_completes:
  assumes "NewUploader workers cap = Ret u" and "new_up_world n p = Ret w" and "0 < n"
    and "pather_ok p"
    and "stage_reach flow_uploader_ops (stage_start (startRun_uploader u) w) t"
    and "st_phase t = Running"
  shows "\<exists>v. stage_reach flow_uploader_ops t v \<and> st_phase v = Finished \<and>
    st_accepted v = st_accepted t \<and> map wu_Data (up_units (st_world v)) = st_accepted t \<and>
    chan_closed (up_next (st_world v))"
proof -
  note inv = flow_uploader_inv[OF assms(1-5)]
  obtain v where v: "stage_reach flow_uploader_ops t v" "st_phase v = Finished"
    "st_accepted v = st_accepted t"
    using fu.up.shutdown_reaches_finish_busy[OF inv assms(6)] by (auto simp: flow_uploader_ops_def)
  have "fu.up.stage_inv v"
    using fu.up.stage_inv_reach[OF v(1)[unfolded flow_uploader_ops_def] inv] .
  with uploader_units_of_inv[of v] fu.up.finished_handled_all[of v] v show ?thesis by auto
qed

end
