(* ===== verification/Ingestion.thy ===== *)
theory Ingestion
  imports Http_Middleware Uploader
begin

text \<open>
  The ingestion endpoint: pkg/adapters/httpin/ingest_routes.go and metrics.go, and the dummy
  two-step breaker of pkg/circuitbreaker/dummy.go.  The two-step breaker of a flow comes from the
  package gobreaker: a parameter (\<open>allow\<close> and \<open>report\<close>, the function that \<open>Allow\<close> returns).  The
  flow's entry point is a data flow, the interface of the theory Delivery.
\<close>

subsection \<open>The state of a route\<close>

record ('b, 'tk) two_step =
  ts_allow :: "'b \<Rightarrow> 'b \<times> (error + 'tk)"
  ts_report :: "'tk \<Rightarrow> bool \<Rightarrow> 'b \<Rightarrow> 'b"

definition dummy_two_step :: "(unit, unit) two_step" where
  "dummy_two_step = \<lparr>ts_allow = (\<lambda>b. (b, Inr ())), ts_report = (\<lambda>tk success b. b)\<rparr>"

record ingestion_route =
  ir_validDecompressionAlgorithms :: "string list"
  ir_decompressionInitialBufferSize :: int

record ('b, 'n) ingest_state =
  is_circuitBreaker :: 'b
  is_semaphor :: "unit gochan"
  is_entrypoint :: 'n
  is_errors :: "string \<times> string \<Rightarrow> nat"
  is_sizes :: "(string \<times> int) list"
  is_decompressions :: "string \<Rightarrow> nat"
  is_decompression_times :: "string \<Rightarrow> nat"

definition increaseErrorCount :: "string \<Rightarrow> string \<Rightarrow> ('b, 'n) ingest_state \<Rightarrow> ('b, 'n) ingest_state" where
  "increaseErrorCount typ path s =
     s\<lparr>is_errors := (is_errors s)((typ, path) := is_errors s (typ, path) + 1)\<rparr>"

definition observeSize :: "string \<Rightarrow> int \<Rightarrow> ('b, 'n) ingest_state \<Rightarrow> ('b, 'n) ingest_state" where
  "observeSize path n s = s\<lparr>is_sizes := is_sizes s @ [(path, n)]\<rparr>"

definition increaseDecompressionCount :: "string \<Rightarrow> ('b, 'n) ingest_state \<Rightarrow> ('b, 'n) ingest_state" where
  "increaseDecompressionCount alg s =
     s\<lparr>is_decompressions := (is_decompressions s)(alg := is_decompressions s alg + 1)\<rparr>"

definition observeDecompressionTime :: "string \<Rightarrow> ('b, 'n) ingest_state \<Rightarrow> ('b, 'n) ingest_state" where
  "observeDecompressionTime path s =
     s\<lparr>is_decompression_times :=
         (is_decompression_times s)(path := is_decompression_times s path + 1)\<rparr>"

text \<open>
  \<open>newIngestionRoute\<close>: the semaphore holds one token per allowed decompression; with no limit it
  is a closed channel, from which every receive returns at once.
\<close>

definition newSemaphor :: "int \<Rightarrow> unit gochan go" where
  "newSemaphor maxConcurrency =
     (if maxConcurrency \<noteq> 0 then
        go_bind (make_chan maxConcurrency)
          (go_foreach (\<lambda>tok ch. chan_send ch tok) (replicate (nat maxConcurrency) ()))
      else go_bind (make_chan 0) chan_close)"

definition newIngestionRoute ::
  "string list \<Rightarrow> int \<Rightarrow> int \<Rightarrow> (ingestion_route \<times> unit gochan) go" where
  "newIngestionRoute algorithms maxConcurrency initialBufferSize =
     go_bind (newSemaphor maxConcurrency) (\<lambda>sem.
       Ret (\<lparr>ir_validDecompressionAlgorithms = algorithms,
             ir_decompressionInitialBufferSize = initialBufferSize\<rparr>, sem))"

subsection \<open>Decompression\<close>

definition selectDecompressionAlgorithm :: "string list \<Rightarrow> string list \<Rightarrow> string" where
  "selectDecompressionAlgorithm acceptedAlgorithms contentEncodingHeaders =
     (if acceptedAlgorithms = [] \<or> contentEncodingHeaders = [] then []
      else (case List.find (\<lambda>c. c \<in> set acceptedAlgorithms) contentEncodingHeaders of
              None \<Rightarrow> [] | Some c \<Rightarrow> c))"

text \<open>
  One \<open>Read\<close> into a slice of length \<open>space\<close>: at most that many bytes of what is next; at the end
  the reader's end (EOF or an error).
\<close>

definition reader_Read :: "nat \<Rightarrow> io_reader \<Rightarrow> bytes \<times> error option option \<times> io_reader" where
  "reader_Read space r =
     (case rd_chunks r of
        [] \<Rightarrow> ([], Some (rd_end r), r)
      | c # cs \<Rightarrow>
          if length c \<le> space then (c, None, r\<lparr>rd_chunks := cs\<rparr>)
          else (take space c, None, r\<lparr>rd_chunks := drop space c # cs\<rparr>))"

text \<open>
  The loop of \<open>localReadAll\<close>: \<open>b\<close> is the slice's contents and \<open>cap\<close> its capacity.  When it is full,
  \<open>append(b, 0)[:len(b)]\<close> gives it more: at least one slot, otherwise as the runtime likes
  (\<open>grow\<close>).
\<close>

definition chunks_size :: "io_reader \<Rightarrow> nat" where
  "chunks_size r = length (rd_data r) + length (rd_chunks r)"

lemma reader_Read_size:
  assumes "reader_Read space r = (d, None, r')"
  shows "chunks_size r' < chunks_size r \<or> (chunks_size r' = chunks_size r \<and> d = [] \<and> space = 0)"
  using assms
  by (auto simp: reader_Read_def chunks_size_def rd_data_def split: list.splits if_splits)

function readLoop :: "(nat \<Rightarrow> nat) \<Rightarrow> bytes \<Rightarrow> nat \<Rightarrow> io_reader \<Rightarrow> bytes \<times> error option" where
  "readLoop grow b cap r =
     (case reader_Read (cap - length b) r of
        (d, Some err, r') \<Rightarrow> (b @ d, err)
      | (d, None, r') \<Rightarrow>
          let b' = b @ d in
          readLoop grow b' (if cap \<le> length b' then max (Suc (length b')) (grow cap) else cap) r')"
  by pat_completeness auto
termination
  by (relation "measures [\<lambda>(g, b, cap, r). chunks_size r, \<lambda>(g, b, cap, r). if cap \<le> length b then 1 else 0]")
     (auto dest!: reader_Read_size[OF sym])

declare readLoop.simps [simp del]

definition localReadAll :: "(nat \<Rightarrow> nat) \<Rightarrow> io_reader \<Rightarrow> int \<Rightarrow> (bytes \<times> error option) go" where
  "localReadAll grow r initialSliceSize =
     (if initialSliceSize < 0 then Panic ''makeslice: cap out of range''
      else Ret (readLoop grow [] (nat initialSliceSize) r))"

text \<open>\<open>bytes.NewReader(data)\<close> offers all of the data at once; closing a reader does not fail.\<close>

definition bytes_NewReader :: "bytes \<Rightarrow> io_reader" where
  "bytes_NewReader d = \<lparr>rd_chunks = (if d = [] then [] else [d]), rd_end = None\<rparr>"

text \<open>The result of a statement, and the state also when it panics.\<close>

definition decompress ::
  "'w codecs \<Rightarrow> (nat \<Rightarrow> nat) \<Rightarrow> bytes \<Rightarrow> string \<Rightarrow> string \<Rightarrow> int \<Rightarrow> ('b, 'n) ingest_state \<Rightarrow>
   (error + bytes) go \<times> ('b, 'n) ingest_state" where
  "decompress cd grow d algorithm path bufferSize s =
     (let s = increaseDecompressionCount algorithm s in
      case NewReader cd \<lparr>cp_Level = [], cp_Type = algorithm, cp_PreallocSlicePercentage = 0\<rparr>
             (bytes_NewReader d) of
        Inl err \<Rightarrow> (Ret (Inl err), s)
      | Inr decompressor \<Rightarrow>
          (case localReadAll grow decompressor bufferSize of
             Ret (_, Some e) \<Rightarrow> (Ret (Inl (Wrapf ''error decompressing data: %w'' e)), s)
           | Ret (decompressedData, None) \<Rightarrow>
               (Ret (Inr decompressedData), observeDecompressionTime path s)
           | Block \<Rightarrow> (Block, s)
           | Panic m \<Rightarrow> (Panic m, s)))"

subsection \<open>ServeHTTP\<close>

definition errMaxBytes :: error where "errMaxBytes = Error ''http: request body too large''"

text \<open>\<open>errors.As(err, &payloadMaxSizeErr)\<close>: the error or one that it wraps.\<close>

fun is_MaxBytesError :: "error \<Rightarrow> bool" where
  "is_MaxBytesError (Error m) = (Error m = errMaxBytes)"
| "is_MaxBytesError (Wrapf m e) = is_MaxBytesError e"
| "is_MaxBytesError (Joined d e) = (is_MaxBytesError d \<or> is_MaxBytesError e)"

text \<open>
  The part of the handler around the decompression: \<open>Inr\<close> the payload to enqueue, \<open>Inl\<close> a
  decompression error.  The token goes back when \<open>decompress\<close> returns, not when it panics.
\<close>

definition decompressPayload ::
  "'w codecs \<Rightarrow> (nat \<Rightarrow> nat) \<Rightarrow> ingestion_route \<Rightarrow> http_request \<Rightarrow> bytes \<Rightarrow> ('b, 'n) ingest_state \<Rightarrow>
   (error + bytes) go \<times> ('b, 'n) ingest_state" where
  "decompressPayload cd grow h r d s =
     (let alg = selectDecompressionAlgorithm (ir_validDecompressionAlgorithms h)
                  (rq_Headers r ''Content-Encoding'') in
      if alg = [] then (Ret (Inr d), s)
      else
        (case chan_recv (is_semaphor s) of
           Block \<Rightarrow> (Block, s)
         | Panic m \<Rightarrow> (Panic m, s)
         | Ret (sem, token) \<Rightarrow>
             let needToReturnToken = (token \<noteq> None); s = s\<lparr>is_semaphor := sem\<rparr> in
             (case decompress cd grow d alg (rq_Path r) (ir_decompressionInitialBufferSize h) s of
                (Ret res, s) \<Rightarrow>
                  if needToReturnToken then
                    (case chan_send (is_semaphor s) () of
                       Ret sem \<Rightarrow> (Ret res, s\<lparr>is_semaphor := sem\<rparr>)
                     | Block \<Rightarrow> (Block, s)
                     | Panic m \<Rightarrow> (Panic m, s))
                  else (Ret res, s)
              | (Block, s) \<Rightarrow> (Block, s)
              | (Panic m, s) \<Rightarrow> (Panic m, s))))"

text \<open>A statement of the handler that panics or waits ends the handler there.\<close>

fun handler_bind ::
  "writer \<times> 's \<Rightarrow> 'a go \<Rightarrow> ('a \<Rightarrow> (writer \<times> 's) \<times> exit) \<Rightarrow> (writer \<times> 's) \<times> exit" where
  "handler_bind st (Ret x) f = f x"
| "handler_bind st Block f = (st, Blocked)"
| "handler_bind st (Panic m) f = (st, Panicked m)"

definition ServeHTTP ::
  "('b, 'tk) two_step \<Rightarrow> ('n \<Rightarrow> bytes \<Rightarrow> ('n \<times> error option) go) \<Rightarrow> 'w codecs \<Rightarrow> (nat \<Rightarrow> nat) \<Rightarrow>
   ingestion_route \<Rightarrow> ('b, 'n) ingest_state handler" where
  "ServeHTTP cb enq cd grow h r st =
     (let w = fst st; s = snd st; currentPath = rq_Path r;
          (b, allowed) = ts_allow cb (is_circuitBreaker s); s = s\<lparr>is_circuitBreaker := b\<rparr> in
      case allowed of
        Inl err \<Rightarrow>
          ((WriteHeader 500 w, increaseErrorCount ''circuit_breaker_open'' currentPath s), Returned)
      | Inr enqueuedWithSuccess \<Rightarrow>
          let buf = rd_data (rq_Body r); dataLen = int (length buf); err = rd_end (rq_Body r);
              s = observeSize currentPath dataLen s in
          if err \<noteq> None \<and> is_MaxBytesError (the err) then
            ((WriteHeader 413 w, increaseErrorCount ''request_entity_too_large'' currentPath s), Returned)
          else if err \<noteq> None then
            ((WriteHeader 400 w, increaseErrorCount ''error_reading_body'' currentPath s), Returned)
          else if dataLen \<le> 0 then
            ((WriteHeader 400 w, increaseErrorCount ''request_without_body'' currentPath s), Returned)
          else
            let (decompressed, s) = decompressPayload cd grow h r buf s in
            handler_bind (w, s) decompressed (\<lambda>res.
              case res of
                Inl err \<Rightarrow>
                  ((WriteHeader 400 w, increaseErrorCount ''enqueue_failed'' currentPath s), Returned)
              | Inr payload \<Rightarrow>
                  handler_bind (w, s) (enq (is_entrypoint s) payload) (\<lambda>(n, err).
                    let s = s\<lparr>is_entrypoint := n\<rparr> in
                    if err \<noteq> None then
                      ((WriteHeader 500 w,
                        (increaseErrorCount ''enqueue_failed'' currentPath s)
                          \<lparr>is_circuitBreaker :=
                             ts_report cb enqueuedWithSuccess False (is_circuitBreaker s)\<rparr>), Returned)
                    else
                      ((WriteHeader 200 w,
                        s\<lparr>is_circuitBreaker :=
                            ts_report cb enqueuedWithSuccess True (is_circuitBreaker s)\<rparr>), Returned))))"

subsection \<open>Routes\<close>

text \<open>
  What \<open>RegisterIngestingRoutes\<close> registers for a flow: two POST routes, behind \<open>Auth\<close> when the
  flow has a token, each with an ingestion route, and so a semaphore, of its own.
\<close>

record route =
  rt_method :: string
  rt_path :: string
  rt_token :: "string option"
  rt_flow :: string
  rt_semaphor :: "unit gochan"
  rt_handler :: ingestion_route

record ingest_flow =
  if_Name :: string
  if_Token :: string
  if_DecompressionAlgorithms :: "string list"
  if_DecompressionMaxConcurrency :: int
  if_DecompressionInitialBufferSizeBytes :: int

definition flowRoutes :: "string \<Rightarrow> ingest_flow \<Rightarrow> route list go" where
  "flowRoutes version flw =
     (let path = ''/'' @ if_Name flw @ ''/async_ingestion'';
          middlewares = (if if_Token flw \<noteq> [] then Some (if_Token flw) else None);
          route = (\<lambda>p (h, sem). \<lparr>rt_method = ''POST'', rt_path = p, rt_token = middlewares,
                     rt_flow = if_Name flw, rt_semaphor = sem, rt_handler = h\<rparr>);
          new = newIngestionRoute (if_DecompressionAlgorithms flw)
                  (if_DecompressionMaxConcurrency flw) (if_DecompressionInitialBufferSizeBytes flw) in
      go_bind new (\<lambda>r1. go_bind new (\<lambda>r2.
        Ret [route path r1, route (''/'' @ version @ path) r2])))"

definition RegisterIngestingRoutes :: "string \<Rightarrow> ingest_flow list \<Rightarrow> route list go" where
  "RegisterIngestingRoutes version flws =
     go_foreach (\<lambda>flw routes. go_bind (flowRoutes version flw) (\<lambda>rs. Ret (routes @ rs))) flws []"

text \<open>The handler of a route: \<open>Auth\<close> around \<open>ServeHTTP\<close> when there is a token.\<close>

definition route_handler ::
  "('b, 'tk) two_step \<Rightarrow> ('n \<Rightarrow> bytes \<Rightarrow> ('n \<times> error option) go) \<Rightarrow> 'w codecs \<Rightarrow> (nat \<Rightarrow> nat) \<Rightarrow>
   route \<Rightarrow> ('b, 'n) ingest_state handler" where
  "route_handler cb enq cd grow rt =
     (case rt_token rt of
        None \<Rightarrow> ServeHTTP cb enq cd grow (rt_handler rt)
      | Some token \<Rightarrow> Auth token (ServeHTTP cb enq cd grow (rt_handler rt)))"

subsection \<open>Reading everything\<close>

lemma reader_Read_data:
  "reader_Read space r = (d, None, r') \<Longrightarrow> rd_data r = d @ rd_data r' \<and> rd_end r' = rd_end r"
  by (auto simp: reader_Read_def rd_data_def split: list.splits if_splits)

lemma reader_Read_end:
  "reader_Read space r = (d, Some err, r') \<Longrightarrow> d = [] \<and> rd_data r = [] \<and> err = rd_end r"
  by (auto simp: reader_Read_def rd_data_def split: list.splits if_splits)

lemma readLoop_all: "readLoop grow b cap r = (b @ rd_data r, rd_end r)"
proof (induction grow b cap r rule: readLoop.induct)
  case (1 grow b cap r)
  obtain d e r' where rd: "reader_Read (cap - length b) r = (d, e, r')" by (metis prod_cases3)
  show ?case
  proof (cases e)
    case None
    with rd reader_Read_data[of "cap - length b" r d r'] 1 show ?thesis
      by (subst readLoop.simps) (simp add: Let_def)
  next
    case (Some err)
    with rd reader_Read_end[of "cap - length b" r d err r'] show ?thesis
      by (subst readLoop.simps) simp
  qed
qed

lemma rd_data_bytes_NewReader [simp]:
  "rd_data (bytes_NewReader d) = d" "rd_end (bytes_NewReader d) = None"
  by (simp_all add: bytes_NewReader_def rd_data_def)

subsection \<open>The semaphore\<close>

lemma fill_semaphor:
  "length (chan_buf ch) + n \<le> chan_cap ch \<Longrightarrow> \<not> chan_closed ch \<Longrightarrow>
   go_foreach (\<lambda>tok ch. chan_send ch tok) (replicate n ()) ch =
     Ret (ch\<lparr>chan_buf := chan_buf ch @ replicate n ()\<rparr>)"
proof (induction n arbitrary: ch)
  case (Suc n)
  let ?ch = "ch\<lparr>chan_buf := chan_buf ch @ [()]\<rparr>"
  have "chan_send ch () = Ret ?ch" using Suc.prems by (simp add: chan_send_def)
  moreover have "go_foreach (\<lambda>tok ch. chan_send ch tok) (replicate n ()) ?ch =
      Ret (?ch\<lparr>chan_buf := chan_buf ?ch @ replicate n ()\<rparr>)"
    using Suc.prems by (intro Suc.IH) simp_all
  ultimately show ?case by simp
qed simp

lemma newSemaphor_cases:
  "newSemaphor n =
     (if n < 0 then Panic ''makechan: size out of range''
      else if n = 0 then Ret \<lparr>chan_cap = 0, chan_buf = [], chan_closed = True\<rparr>
      else Ret \<lparr>chan_cap = nat n, chan_buf = replicate (nat n) (), chan_closed = False\<rparr>)"
proof -
  have "go_foreach (\<lambda>tok ch. chan_send ch tok) (replicate (nat n) ())
      \<lparr>chan_cap = nat n, chan_buf = [], chan_closed = False\<rparr> =
    Ret \<lparr>chan_cap = nat n, chan_buf = replicate (nat n) (), chan_closed = False\<rparr>"
    by (subst fill_semaphor) simp_all
  then show ?thesis by (simp add: newSemaphor_def make_chan_def chan_close_def)
qed

text \<open>A semaphore between requests: all of its tokens are there, or it is the closed one.\<close>

definition sem_idle :: "unit gochan \<Rightarrow> bool" where
  "sem_idle ch \<longleftrightarrow>
     (chan_closed ch \<and> chan_buf ch = []) \<or>
     (\<not> chan_closed ch \<and> chan_buf ch \<noteq> [] \<and> length (chan_buf ch) \<le> chan_cap ch)"

lemma newSemaphor_idle: "newSemaphor n = Ret ch \<Longrightarrow> sem_idle ch"
  by (auto simp: newSemaphor_cases sem_idle_def split: if_splits)

subsection \<open>What one request does\<close>

text \<open>The payload a request carries: its body, decompressed when its encoding is an accepted one.\<close>

definition request_payload :: "'w codecs \<Rightarrow> ingestion_route \<Rightarrow> http_request \<Rightarrow> error + bytes" where
  "request_payload cd h r =
     (let d = rd_data (rq_Body r);
          alg = selectDecompressionAlgorithm (ir_validDecompressionAlgorithms h)
                  (rq_Headers r ''Content-Encoding'') in
      if alg = [] then Inr d
      else case NewReader cd \<lparr>cp_Level = [], cp_Type = alg, cp_PreallocSlicePercentage = 0\<rparr>
                  (bytes_NewReader d) of
             Inl err \<Rightarrow> Inl err
           | Inr dr \<Rightarrow> (case rd_end dr of
               Some e \<Rightarrow> Inl (Wrapf ''error decompressing data: %w'' e) | None \<Rightarrow> Inr (rd_data dr)))"

lemma decompress_spec:
  assumes "0 \<le> bufferSize"
  shows "\<exists>s'. decompress cd grow d alg path bufferSize s =
      (Ret (case NewReader cd \<lparr>cp_Level = [], cp_Type = alg, cp_PreallocSlicePercentage = 0\<rparr>
                  (bytes_NewReader d) of
             Inl err \<Rightarrow> Inl err
           | Inr dr \<Rightarrow> (case rd_end dr of
               Some e \<Rightarrow> Inl (Wrapf ''error decompressing data: %w'' e) | None \<Rightarrow> Inr (rd_data dr))), s') \<and>
    is_semaphor s' = is_semaphor s \<and> is_entrypoint s' = is_entrypoint s \<and>
    is_circuitBreaker s' = is_circuitBreaker s"
  using assms
  by (auto simp: decompress_def localReadAll_def readLoop_all increaseDecompressionCount_def
      observeDecompressionTime_def Let_def split: sum.split option.split)

lemma decompressPayload_spec:
  assumes "sem_idle (is_semaphor s)" and "0 \<le> ir_decompressionInitialBufferSize h"
  shows "\<exists>s'. decompressPayload cd grow h r (rd_data (rq_Body r)) s = (Ret (request_payload cd h r), s') \<and>
    is_semaphor s' = is_semaphor s \<and> is_entrypoint s' = is_entrypoint s \<and>
    is_circuitBreaker s' = is_circuitBreaker s"
proof -
  define alg where "alg = selectDecompressionAlgorithm (ir_validDecompressionAlgorithms h)
      (rq_Headers r ''Content-Encoding'')"
  show ?thesis
  proof (cases "alg = []")
    case True
    then show ?thesis by (simp add: decompressPayload_def request_payload_def Let_def flip: alg_def)
  next
    case False
    let ?sem = "is_semaphor s"
    have units: "us @ [()] = () # us" for us :: "unit list" by (induction us) auto
    obtain sem tok where rc: "chan_recv ?sem = Ret (sem, tok)"
      and ret: "(if tok \<noteq> None then chan_send sem () else Ret sem) = Ret ?sem"
    proof (cases "chan_closed ?sem")
      case True
      with assms(1) have "chan_recv ?sem = Ret (?sem, None)"
        by (auto simp: sem_idle_def chan_recv_def)
      then show ?thesis using that by simp
    next
      case opn: False
      with assms(1) obtain us where us: "chan_buf ?sem = () # us" "length us < chan_cap ?sem"
        by (cases "chan_buf ?sem") (auto simp: sem_idle_def)
      then have "chan_recv ?sem = Ret (?sem\<lparr>chan_buf := us\<rparr>, Some ())" by (simp add: chan_recv_def)
      moreover have "chan_send (?sem\<lparr>chan_buf := us\<rparr>) () = Ret ?sem"
        using us opn units[of us] by (simp add: chan_send_def)
      ultimately show ?thesis using that[of "?sem\<lparr>chan_buf := us\<rparr>" "Some ()"] by simp
    qed
    obtain s' where d: "decompress cd grow (rd_data (rq_Body r)) alg (rq_Path r)
        (ir_decompressionInitialBufferSize h) (s\<lparr>is_semaphor := sem\<rparr>) = (Ret (request_payload cd h r), s')"
      "is_semaphor s' = sem" "is_entrypoint s' = is_entrypoint s"
      "is_circuitBreaker s' = is_circuitBreaker s"
      using decompress_spec[OF assms(2), of cd grow "rd_data (rq_Body r)" alg "rq_Path r"
          "s\<lparr>is_semaphor := sem\<rparr>"] False
      by (auto simp: request_payload_def Let_def simp flip: alg_def)
    from rc ret d False show ?thesis
      by (auto simp: decompressPayload_def Let_def simp flip: alg_def split: if_splits)
  qed
qed

text \<open>A request whose payload never gets to \<open>Enqueue\<close>, although the breaker lets it in.\<close>

definition rejected_early :: "'w codecs \<Rightarrow> ingestion_route \<Rightarrow> http_request \<Rightarrow> bool" where
  "rejected_early cd h r \<longleftrightarrow>
     rd_end (rq_Body r) \<noteq> None \<or> rd_data (rq_Body r) = [] \<or> (\<exists>e. request_payload cd h r = Inl e)"

lemma ServeHTTP_breaker_open:
  "ts_allow cb (is_circuitBreaker s) = (b, Inl e) \<Longrightarrow>
   ServeHTTP cb enq cd grow h r (w, s) =
     ((WriteHeader 500 w, increaseErrorCount ''circuit_breaker_open'' (rq_Path r)
        (s\<lparr>is_circuitBreaker := b\<rparr>)), Returned)"
  by (simp add: ServeHTTP_def Let_def)

lemma increaseErrorCount_fields [simp]:
  "is_circuitBreaker (increaseErrorCount typ path s) = is_circuitBreaker s"
  "is_semaphor (increaseErrorCount typ path s) = is_semaphor s"
  "is_entrypoint (increaseErrorCount typ path s) = is_entrypoint s"
  by (simp_all add: increaseErrorCount_def)

lemma observeSize_fields [simp]:
  "is_circuitBreaker (observeSize path n s) = is_circuitBreaker s"
  "is_semaphor (observeSize path n s) = is_semaphor s"
  "is_entrypoint (observeSize path n s) = is_entrypoint s"
  by (simp_all add: observeSize_def)

lemma ServeHTTP_rejected:
  assumes "ts_allow cb (is_circuitBreaker s) = (b, Inr tk)" and "rejected_early cd h r"
    and "sem_idle (is_semaphor s)" and "0 \<le> ir_decompressionInitialBufferSize h"
  shows "\<exists>code s'. ServeHTTP cb enq cd grow h r (w, s) = ((WriteHeader code w, s'), Returned) \<and>
    code \<in> {400, 413} \<and> is_circuitBreaker s' = b \<and> is_semaphor s' = is_semaphor s \<and>
    is_entrypoint s' = is_entrypoint s"
proof -
  let ?s = "observeSize (rq_Path r) (int (length (rd_data (rq_Body r)))) (s\<lparr>is_circuitBreaker := b\<rparr>)"
  obtain s' where "decompressPayload cd grow h r (rd_data (rq_Body r)) ?s = (Ret (request_payload cd h r), s')"
    "is_semaphor s' = is_semaphor s" "is_entrypoint s' = is_entrypoint s" "is_circuitBreaker s' = b"
    using decompressPayload_spec[of ?s h cd grow r] assms(3,4) by auto
  with assms(1,2) show ?thesis
    by (auto simp: ServeHTTP_def rejected_early_def Let_def)
qed

lemma ServeHTTP_accepted:
  assumes "ts_allow cb (is_circuitBreaker s) = (b, Inr tk)"
    and "rd_end (rq_Body r) = None" "rd_data (rq_Body r) \<noteq> []" "request_payload cd h r = Inr p"
    and "sem_idle (is_semaphor s)" and "0 \<le> ir_decompressionInitialBufferSize h"
    and "enq (is_entrypoint s) p = Ret (n, err)"
  shows "\<exists>s'. ServeHTTP cb enq cd grow h r (w, s) =
      ((WriteHeader (if err = None then 200 else 500) w, s'), Returned) \<and>
    is_circuitBreaker s' = ts_report cb tk (err = None) b \<and> is_semaphor s' = is_semaphor s \<and>
    is_entrypoint s' = n"
proof -
  let ?s = "observeSize (rq_Path r) (int (length (rd_data (rq_Body r)))) (s\<lparr>is_circuitBreaker := b\<rparr>)"
  obtain s' where "decompressPayload cd grow h r (rd_data (rq_Body r)) ?s = (Ret (request_payload cd h r), s')"
    "is_semaphor s' = is_semaphor s" "is_entrypoint s' = is_entrypoint s" "is_circuitBreaker s' = b"
    using decompressPayload_spec[of ?s h cd grow r] assms(5,6) by auto
  with assms show ?thesis by (auto simp: ServeHTTP_def Let_def)
qed

text \<open>Whatever the request, an idle route answers it, and the data flow takes it or does not.\<close>

lemma ServeHTTP_acknowledges:
  assumes "data_flow enq accepted sound" and "sound (is_entrypoint s)"
    and "sem_idle (is_semaphor s)" and "0 \<le> ir_decompressionInitialBufferSize h"
  shows "\<exists>code s'. ServeHTTP cb enq cd grow h r (w, s) = ((WriteHeader code w, s'), Returned) \<and>
    code \<in> {200, 400, 413, 500} \<and> sound (is_entrypoint s') \<and> is_semaphor s' = is_semaphor s \<and>
    (if code = 200
     then \<exists>p. request_payload cd h r = Inr p \<and> rd_end (rq_Body r) = None \<and>
            accepted (is_entrypoint s') = accepted (is_entrypoint s) @ [p]
     else accepted (is_entrypoint s') = accepted (is_entrypoint s))"
proof -
  obtain b al where a: "ts_allow cb (is_circuitBreaker s) = (b, al)" by fastforce
  consider (shut) e where "al = Inl e" | (early) tk where "al = Inr tk" "rejected_early cd h r"
    | (in_time) tk p where "al = Inr tk" "request_payload cd h r = Inr p" "rd_end (rq_Body r) = None"
        "rd_data (rq_Body r) \<noteq> []"
    by (cases al; cases "request_payload cd h r") (auto simp: rejected_early_def)
  then show ?thesis
  proof cases
    case shut
    with a assms(2) show ?thesis by (intro exI[of _ 500]) (simp add: ServeHTTP_breaker_open)
  next
    case (early tk)
    obtain code s' where "ServeHTTP cb enq cd grow h r (w, s) = ((WriteHeader code w, s'), Returned)"
      "code \<in> {400, 413}" "is_semaphor s' = is_semaphor s" "is_entrypoint s' = is_entrypoint s"
      using ServeHTTP_rejected[OF a[unfolded early(1)] early(2) assms(3,4), of enq grow w] by blast
    with assms(2) show ?thesis by (intro exI[of _ code] exI[of _ s']) auto
  next
    case (in_time tk p)
    obtain n err where n: "enq (is_entrypoint s) p = Ret (n, err)"
      using data_flow.enq_returns[OF assms(1,2), of p] by (auto simp: go_returns_iff)
    have "sound n \<and> accepted n = accepted (is_entrypoint s) @ (if err = None then [p] else [])"
      using n data_flow.enq_ok[OF assms(1,2), of p n] data_flow.enq_err[OF assms(1,2), of p n]
      by (cases err) auto
    moreover obtain s' where "ServeHTTP cb enq cd grow h r (w, s) =
        ((WriteHeader (if err = None then 200 else 500) w, s'), Returned)"
      "is_semaphor s' = is_semaphor s" "is_entrypoint s' = n"
      using ServeHTTP_accepted[OF a[unfolded in_time(1)] in_time(3,4,2) assms(3,4),
          where enq = enq and n = n and err = err and grow = grow and w = w] n by blast
    ultimately show ?thesis using in_time
      by (intro exI[of _ "if err = None then 200 else 500"] exI[of _ s']) auto
  qed
qed

text \<open>A sequence of requests, one after the other.\<close>

fun serve_all ::
  "'s handler \<Rightarrow> http_request list \<Rightarrow> 's \<Rightarrow> int list \<times> 's" where
  "serve_all h [] s = ([], s)"
| "serve_all h (r # rs) s =
     (let ((w, s'), x) = h r (new_writer, s); (cs, t) = serve_all h rs s' in (final_status w # cs, t))"

lemma new_writer_status [simp]: "rs_status (wr_resp new_writer) = None"
  by (simp add: new_writer_def)

lemma serve_all_stuck:
  assumes "is_circuitBreaker s = b" and "ts_allow cb b = (b, Inl e)"
  shows "\<exists>s'. serve_all (ServeHTTP cb enq cd grow h) rs s = (replicate (length rs) 500, s') \<and>
    is_entrypoint s' = is_entrypoint s"
  using assms(1)
proof (induction rs arbitrary: s)
  case (Cons r rs)
  let ?t = "increaseErrorCount ''circuit_breaker_open'' (rq_Path r) (s\<lparr>is_circuitBreaker := b\<rparr>)"
  obtain s' where "serve_all (ServeHTTP cb enq cd grow h) rs ?t = (replicate (length rs) 500, s')"
    "is_entrypoint s' = is_entrypoint ?t"
    using Cons.IH[of ?t] by auto
  with Cons.prems assms(2) show ?case by (simp add: ServeHTTP_breaker_open)
qed simp

lemma NewReader_type:
  assumes "cp_Type conf = cp_Type conf'"
  shows "NewReader cd conf r = NewReader cd conf' r"
  unfolding NewReader_def assms ..

lemma request_payload_compressed:
  assumes "lossless_codecs cd" and "compress cd conf d = Ret (Inr z)"
    and "cp_Type conf \<noteq> []" and "cp_Type conf \<in> set (ir_validDecompressionAlgorithms h)"
    and "rd_data (rq_Body r) = z" and "rq_Headers r ''Content-Encoding'' = [cp_Type conf]"
  shows "request_payload cd h r = Inr d"
proof -
  have alg: "selectDecompressionAlgorithm (ir_validDecompressionAlgorithms h)
      (rq_Headers r ''Content-Encoding'') = cp_Type conf"
    using assms(4,6) by (auto simp: selectDecompressionAlgorithm_def)
  from lossless_codecs.read_back_written[OF assms(1,2), of "bytes_NewReader z"]
  obtain dr where "NewReader cd conf (bytes_NewReader z) = Inr dr" "rd_data dr = d" "rd_end dr = None"
    by auto
  then show ?thesis
    using assms(3,5) alg NewReader_type[of "\<lparr>cp_Level = [], cp_Type = cp_Type conf,
        cp_PreallocSlicePercentage = 0\<rparr>" conf cd] by (simp add: request_payload_def Let_def)
qed

subsection \<open>Properties\<close>

definition sample_post :: "bytes \<Rightarrow> http_request" where
  "sample_post d = sample_request\<lparr>rq_Method := ''POST'', rq_Path := ''/a/async_ingestion'',
     rq_Body := \<lparr>rd_chunks = [d], rd_end = None\<rparr>\<rparr>"

definition sample_state :: "'b \<Rightarrow> 'n \<Rightarrow> ('b, 'n) ingest_state" where
  "sample_state b n = \<lparr>is_circuitBreaker = b, is_semaphor = \<lparr>chan_cap = 0, chan_buf = [],
     chan_closed = True\<rparr>, is_entrypoint = n, is_errors = (\<lambda>_. 0), is_sizes = [],
     is_decompressions = (\<lambda>_. 0), is_decompression_times = (\<lambda>_. 0)\<rparr>"

text \<open>
  C29 (liveness): a request that the breaker lets in and that is answered before the enqueueing (no
  body, an unreadable one, one that does not decompress) never reports its outcome to the breaker.
  When the breaker admits no other request until it is told (gobreaker in its half-open state, where
  the code allows one request), every later request, however good, is answered 500 for ever.
\<close>

theorem early_answer_blocks_breaker:
  assumes "ts_allow cb (is_circuitBreaker s) = (b, Inr tk)" and "rejected_early cd h r"
    and "sem_idle (is_semaphor s)" and "0 \<le> ir_decompressionInitialBufferSize h"
    and "ts_allow cb b = (b, Inl e)"
  shows "\<exists>code s'. serve_all (ServeHTTP cb enq cd grow h) (r # rs) s =
      (code # replicate (length rs) 500, s') \<and> code \<in> {400, 413} \<and>
    is_entrypoint s' = is_entrypoint s"
proof -
  obtain code s1 where h: "ServeHTTP cb enq cd grow h r (new_writer, s) =
      ((WriteHeader code new_writer, s1), Returned)" "code \<in> {400, 413}" "is_circuitBreaker s1 = b"
    "is_entrypoint s1 = is_entrypoint s"
    using ServeHTTP_rejected[OF assms(1-4), of enq grow new_writer] by blast
  from serve_all_stuck[OF h(3) assms(5), of enq cd grow h rs] h show ?thesis by auto
qed

text \<open>A breaker in its half-open state with one slot: taken by \<open>Allow\<close>, free again after the report.\<close>

definition one_slot :: "(bool, unit) two_step" where
  "one_slot = \<lparr>ts_allow = (\<lambda>taken. if taken then (True, Inl (Error ''too many requests''))
                              else (True, Inr ())),
     ts_report = (\<lambda>tk success taken. False)\<rparr>"

lemma early_answer_blocks_breaker_witness:
  "\<exists>code s'. serve_all (ServeHTTP one_slot (\<lambda>n d. Ret (n @ [d], None)) framed_codecs id
       \<lparr>ir_validDecompressionAlgorithms = [], ir_decompressionInitialBufferSize = 512\<rparr>)
     [sample_post [], sample_post [1], sample_post [2]] (sample_state False []) = ([code, 500, 500], s') \<and>
     is_entrypoint s' = []"
  using early_answer_blocks_breaker[where cb = one_slot and s = "sample_state False []" and b = True and
      tk = "()" and cd = framed_codecs and r = "sample_post []" and
      h = "\<lparr>ir_validDecompressionAlgorithms = [], ir_decompressionInitialBufferSize = 512\<rparr>" and
      e = "Error ''too many requests''" and enq = "\<lambda>n d. Ret (n @ [d], None)" and grow = id and
      rs = "[sample_post [1], sample_post [2]]"]
  by (auto simp: one_slot_def sample_state_def sem_idle_def rejected_early_def sample_post_def rd_data_def)



text \<open>
  A flow gets two POST routes, with and without the version, behind its token when
  it has one; each has a semaphore of its own with the full number of tokens, so a flow can run twice
  its configured number of decompressions.
\<close>

theorem flow_routes_have_own_semaphores:
  assumes "0 \<le> if_DecompressionMaxConcurrency flw"
  shows "\<exists>r1 r2. flowRoutes version flw = Ret [r1, r2] \<and>
    rt_path r1 = ''/'' @ if_Name flw @ ''/async_ingestion'' \<and>
    rt_path r2 = ''/'' @ version @ ''/'' @ if_Name flw @ ''/async_ingestion'' \<and>
    (\<forall>r \<in> {r1, r2}. rt_method r = ''POST'' \<and>
       rt_token r = (if if_Token flw = [] then None else Some (if_Token flw)) \<and>
       length (chan_buf (rt_semaphor r)) = nat (if_DecompressionMaxConcurrency flw))"
  using assms by (auto simp: flowRoutes_def newIngestionRoute_def newSemaphor_cases Let_def)

text \<open>
  C30 (error): the initial buffer size is a parsed size and is not checked, so it can be negative
  (the size parser wraps around).  Then every request with an accepted encoding panics while it
  holds a decompression token, which is never returned; once the tokens are gone, such requests wait
  for ever.
\<close>

theorem negative_buffer_leaks_tokens:
  assumes "ir_decompressionInitialBufferSize h < 0"
    and "selectDecompressionAlgorithm (ir_validDecompressionAlgorithms h)
      (rq_Headers r ''Content-Encoding'') = alg" and "alg \<noteq> []"
    and "NewReader cd \<lparr>cp_Level = [], cp_Type = alg, cp_PreallocSlicePercentage = 0\<rparr>
      (bytes_NewReader (rd_data (rq_Body r))) = Inr dr"
    and "rd_end (rq_Body r) = None" and "rd_data (rq_Body r) \<noteq> []"
    and "ts_allow cb (is_circuitBreaker s) = (b, Inr tk)" and "\<not> chan_closed (is_semaphor s)"
  shows "(\<forall>toks. chan_buf (is_semaphor s) = () # toks \<longrightarrow>
      (\<exists>s' m. ServeHTTP cb enq cd grow h r (w, s) = ((w, s'), Panicked m) \<and>
         is_semaphor s' = (is_semaphor s)\<lparr>chan_buf := toks\<rparr>)) \<and>
    (chan_buf (is_semaphor s) = [] \<longrightarrow>
      (\<exists>s'. ServeHTTP cb enq cd grow h r (w, s) = ((w, s'), Blocked)))"
  using assms
  by (auto simp: ServeHTTP_def Let_def decompressPayload_def chan_recv_def decompress_def
      localReadAll_def increaseDecompressionCount_def)

lemma negative_buffer_leaks_tokens_witness:
  "\<exists>s' m. ServeHTTP dummy_two_step (\<lambda>n d. Ret (n @ [d], None)) framed_codecs id
     \<lparr>ir_validDecompressionAlgorithms = [''gzip''], ir_decompressionInitialBufferSize = - (2 ^ 63)\<rparr>
     ((sample_post [31, 0])\<lparr>rq_Headers := (\<lambda>k. if k = ''Content-Encoding'' then [''gzip''] else [])\<rparr>)
     (new_writer, (sample_state () [])\<lparr>is_semaphor := \<lparr>chan_cap = 1, chan_buf = [()], chan_closed = False\<rparr>\<rparr>) =
     ((new_writer, s'), Panicked m) \<and> chan_buf (is_semaphor s') = []"
proof -
  let ?h = "\<lparr>ir_validDecompressionAlgorithms = [''gzip''], ir_decompressionInitialBufferSize = - (2 ^ 63)\<rparr>"
  let ?r = "(sample_post [31, 0])\<lparr>rq_Headers := (\<lambda>k. if k = ''Content-Encoding'' then [''gzip''] else [])\<rparr>"
  let ?s = "(sample_state () [])\<lparr>is_semaphor := \<lparr>chan_cap = 1, chan_buf = [()], chan_closed = False\<rparr>\<rparr>"
  have l: "strings_ToLower ''gzip'' = ''gzip''" by (simp add: strings_ToLower_def char_lower_def)
  have "NewReader framed_codecs \<lparr>cp_Level = [], cp_Type = ''gzip'', cp_PreallocSlicePercentage = 0\<rparr>
      (bytes_NewReader (rd_data (rq_Body ?r))) = Inr \<lparr>rd_chunks = [[]], rd_end = None\<rparr>"
    by (simp add: NewReader_def l GzipType_def framed_codecs_def sample_post_def)
      (simp add: rd_data_def bytes_NewReader_def)
  from negative_buffer_leaks_tokens[OF _ _ _ this, of ?h dummy_two_step ?s "()" "()"
      "\<lambda>n d. Ret (n @ [d], None)" id new_writer]
  show ?thesis
    by (auto simp: selectDecompressionAlgorithm_def sample_post_def rd_data_def dummy_two_step_def
        sample_state_def)
qed

end
