(* ===== verification/Ext_Queue.thy ===== *)
theory Ext_Queue
  imports Domain Config
begin

text \<open>
  The external queues: pkg/adapters/externalqueue with queuemessage/message.go, noopqueue/noop.go,
  httpqueue/http_queue.go, sqs/sqs.go, the metrics wrapper ext_queue_with_metrics.go and the
  factory factory.go.  Package encoding/json is modelled for the one struct the code marshals; the
  AWS SDK, the network and the YAML package are parameters (the record \<open>queue_env\<close>).
\<close>

subsection \<open>The message\<close>

record queue_object =
  qo_Path :: string
  qo_FullURL :: string
  qo_SizeInBytes :: int
  qo_CompressionType :: string

record queue_bucket =
  qb_Name :: string
  qb_Region :: string

record queue_message =
  qm_SchemaVersion :: string
  qm_FlowName :: string
  qm_Bucket :: queue_bucket
  qm_Object :: queue_object

definition NewMessage :: "string \<Rightarrow> message_context \<Rightarrow> queue_message" where
  "NewMessage flowName msg =
     \<lparr>qm_SchemaVersion = MsgSchemaVersion, qm_FlowName = flowName,
      qm_Bucket = \<lparr>qb_Name = mc_Bucket msg, qb_Region = mc_Region msg\<rparr>,
      qm_Object = \<lparr>qo_Path = mc_Path msg, qo_FullURL = mc_URL msg,
        qo_SizeInBytes = mc_SizeInBytes msg, qo_CompressionType = mc_CompressionType msg\<rparr>\<rparr>"

subsection \<open>JSON\<close>

text \<open>
  \<open>json.Marshal\<close> of a string: quotes, backslashes, control characters and the HTML characters are
  escaped; every other byte of a valid UTF-8 string is written as it is.  (Go also escapes the two
  code points U+2028 and U+2029 and replaces invalid UTF-8, which does not occur in a bucket name,
  a region, an object path or a URL.)
\<close>

definition hex_digit :: "nat \<Rightarrow> char" where
  "hex_digit n = (if n < 10 then char_of (48 + n) else char_of (87 + n))"

definition needs_unicode_escape :: "nat \<Rightarrow> bool" where
  "needs_unicode_escape n \<longleftrightarrow> n < 32 \<or> n = 60 \<or> n = 62 \<or> n = 38"

definition json_escape :: "char \<Rightarrow> string" where
  "json_escape c =
     (let n = of_char c :: nat in
      if n = 34 \<or> n = 92 then [char_of (92 :: nat), c]
      else if n = 8 then [char_of (92 :: nat), CHR ''b'']
      else if n = 12 then [char_of (92 :: nat), CHR ''f'']
      else if n = 10 then [char_of (92 :: nat), CHR ''n'']
      else if n = 13 then [char_of (92 :: nat), CHR ''r'']
      else if n = 9 then [char_of (92 :: nat), CHR ''t'']
      else if needs_unicode_escape n
        then [char_of (92 :: nat), CHR ''u'', CHR ''0'', CHR ''0'', hex_digit (n div 16), hex_digit (n mod 16)]
      else [c])"

definition quote_char :: char where "quote_char = char_of (34 :: nat)"

definition json_string :: "string \<Rightarrow> string" where
  "json_string s = quote_char # concat (map json_escape s) @ [quote_char]"

definition json_field :: "string \<Rightarrow> string \<Rightarrow> string" where
  "json_field key val = json_string key @ '':'' @ val"

fun json_commas :: "string list \<Rightarrow> string" where
  "json_commas [] = []"
| "json_commas [f] = f"
| "json_commas (f # g # fs) = f @ '','' @ json_commas (g # fs)"

definition json_object :: "string list \<Rightarrow> string" where
  "json_object members = ''{'' @ json_commas members @ ''}''"

text \<open>The fields in the order and with the tags of the structs; \<open>omitempty\<close> on the last.\<close>

definition json_Marshal :: "queue_message \<Rightarrow> string" where
  "json_Marshal m =
     json_object
       [json_field ''schema_version'' (json_string (qm_SchemaVersion m)),
        json_field ''flow_name'' (json_string (qm_FlowName m)),
        json_field ''bucket'' (json_object
          [json_field ''name'' (json_string (qb_Name (qm_Bucket m))),
           json_field ''region'' (json_string (qb_Region (qm_Bucket m)))]),
        json_field ''object'' (json_object
          ([json_field ''path'' (json_string (qo_Path (qm_Object m))),
            json_field ''full_url'' (json_string (qo_FullURL (qm_Object m))),
            json_field ''size_in_bytes'' (strconv_Itoa (qo_SizeInBytes (qm_Object m)))] @
           (if qo_CompressionType (qm_Object m) = [] then []
            else [json_field ''compression_algorithm''
                    (json_string (qo_CompressionType (qm_Object m)))])))]"

subsection \<open>The queues\<close>

record http_queue_config =
  hq_URL :: string
  hq_TimeoutMilliseconds :: int

record http_queue =
  hqueue_url :: string
  hqueue_flowName :: string
  hqueue_timeout :: int

record sqs_config =
  sq_URL :: string
  sq_Region :: string
  sq_Endpoint :: string
  sq_AccessKey :: string
  sq_SecretKey :: string

record sqs_queue =
  sqs_queueURL :: string
  sqs_flowName :: string

text \<open>
  \<open>qe_Do\<close> sends a request (timeout, method, URL, content type, body) and gives the status;
  \<open>qe_SendMessage\<close> sends a body to an SQS queue.
\<close>

record 'e queue_env =
  qe_NewRequest :: "string \<Rightarrow> string \<Rightarrow> error option"
  qe_Do :: "'e \<Rightarrow> int \<Rightarrow> string \<Rightarrow> string \<Rightarrow> string \<Rightarrow> string \<Rightarrow> 'e \<times> (error + int)"
  qe_LoadDefaultConfig :: "string \<Rightarrow> string \<Rightarrow> error option"
  qe_SendMessage :: "'e \<Rightarrow> string \<Rightarrow> string \<Rightarrow> 'e \<times> error option"

definition noop_TYPE :: string where [simp]: "noop_TYPE = ''noop''"

definition noop_NAME :: string where [simp]: "noop_NAME = ''noop''"

definition noop_Enqueue :: "message_context \<Rightarrow> 'e \<Rightarrow> 'e \<times> error option" where
  "noop_Enqueue msg e = (e, None)"

definition httpqueue_TYPE :: string where [simp]: "httpqueue_TYPE = ''http''"

definition defaultTimeoutMilliseconds :: int where "defaultTimeoutMilliseconds = 30000"

definition httpqueue_New :: "http_queue_config \<Rightarrow> string \<Rightarrow> error + http_queue" where
  "httpqueue_New c flowName =
     (if hq_URL c = [] then Inl (Error ''url is required for HTTP queue'')
      else
        let timeoutMs = (if hq_TimeoutMilliseconds c \<le> 0 then defaultTimeoutMilliseconds
                         else hq_TimeoutMilliseconds c)
        in Inr \<lparr>hqueue_url = hq_URL c, hqueue_flowName = flowName,
                hqueue_timeout = sint (word_of_int timeoutMs * 1000000 :: 64 word)\<rparr>)"

definition httpqueue_Type :: "http_queue \<Rightarrow> string" where [simp]: "httpqueue_Type x = httpqueue_TYPE"
definition httpqueue_Name :: "http_queue \<Rightarrow> string" where [simp]: "httpqueue_Name x = hqueue_flowName x"

definition httpqueue_ParseConfig :: "(bytes \<Rightarrow> error + http_queue_config) \<Rightarrow> bytes \<Rightarrow> error + http_queue_config" where
  "httpqueue_ParseConfig unmarshal confData =
     (case unmarshal confData of
        Inl err \<Rightarrow> Inl (Wrapf ''error parsing HTTP queue config: %w'' err)
      | Inr conf \<Rightarrow> Inr conf)"

definition http_Enqueue ::
  "'e queue_env \<Rightarrow> http_queue \<Rightarrow> message_context \<Rightarrow> 'e \<Rightarrow> 'e \<times> error option" where
  "http_Enqueue env q msg e =
     (let message = NewMessage (httpqueue_Name q) msg; body = json_Marshal message in
      case qe_NewRequest env ''POST'' (hqueue_url q) of
        Some err \<Rightarrow> (e, Some (Wrapf ''error creating HTTP request: %w'' err))
      | None \<Rightarrow>
          (case qe_Do env e (hqueue_timeout q) ''POST'' (hqueue_url q) ''application/json'' body of
             (e, Inl err) \<Rightarrow> (e, Some (Wrapf ''error sending HTTP queue message: %w'' err))
           | (e, Inr status) \<Rightarrow>
               if status < 200 \<or> 300 \<le> status then
                 (e, Some (Error (''HTTP queue endpoint returned non-2xx status: '' @ strconv_Itoa status)))
               else (e, None)))"

definition validURL :: "string \<Rightarrow> bool" where "validURL url \<longleftrightarrow> 0 < length url"

definition sqs_TYPE :: string where [simp]: "sqs_TYPE = ''sqs''"

definition sqs_New :: "'e queue_env \<Rightarrow> sqs_config \<Rightarrow> string \<Rightarrow> error + sqs_queue" where
  "sqs_New env c flowName =
     (case qe_LoadDefaultConfig env (sq_Region c) (sq_Endpoint c) of
        Some err \<Rightarrow> Inl (Wrapf ''couldn't load default AWS configuration: %w'' err)
      | None \<Rightarrow>
          if \<not> validURL (sq_URL c) then Inl (Error (''invalid url for SQS '' @ sq_URL c))
          else Inr \<lparr>sqs_queueURL = sq_URL c, sqs_flowName = flowName\<rparr>)"

definition sqs_Type :: "sqs_queue \<Rightarrow> string" where [simp]: "sqs_Type x = sqs_TYPE"
definition sqs_Name :: "sqs_queue \<Rightarrow> string" where [simp]: "sqs_Name x = sqs_flowName x"

definition sqs_ParseConfig :: "(bytes \<Rightarrow> error + sqs_config) \<Rightarrow> bytes \<Rightarrow> error + sqs_config" where
  "sqs_ParseConfig unmarshal confData =
     (case unmarshal confData of
        Inl err \<Rightarrow> Inl (Wrapf ''error parsing SQS config: %w'' err)
      | Inr conf \<Rightarrow> Inr conf)"

definition sqs_Enqueue ::
  "'e queue_env \<Rightarrow> sqs_queue \<Rightarrow> message_context \<Rightarrow> 'e \<Rightarrow> 'e \<times> error option" where
  "sqs_Enqueue env q msg e =
     (let message = NewMessage (sqs_Name q) msg; body = json_Marshal message
      in qe_SendMessage env e (sqs_queueURL q) body)"

datatype ext_queue = NoopQueue | HTTPQueue http_queue | SQSQueue sqs_queue

fun queue_Type :: "ext_queue \<Rightarrow> string" where
  "queue_Type NoopQueue = noop_TYPE"
| "queue_Type (HTTPQueue q) = httpqueue_Type q"
| "queue_Type (SQSQueue q) = sqs_Type q"

fun queue_Name :: "ext_queue \<Rightarrow> string" where
  "queue_Name NoopQueue = noop_NAME"
| "queue_Name (HTTPQueue q) = httpqueue_Name q"
| "queue_Name (SQSQueue q) = sqs_Name q"

fun queue_Enqueue ::
  "'e queue_env \<Rightarrow> ext_queue \<Rightarrow> message_context \<Rightarrow> 'e \<Rightarrow> 'e \<times> error option" where
  "queue_Enqueue env NoopQueue msg e = noop_Enqueue msg e"
| "queue_Enqueue env (HTTPQueue q) msg e = http_Enqueue env q msg e"
| "queue_Enqueue env (SQSQueue q) msg e = sqs_Enqueue env q msg e"

subsection \<open>The metrics wrapper\<close>

record queue_counters =
  qc_latency_count :: nat
  qc_enqueueCounter :: nat
  qc_enqueueErrorCounter :: nat
  qc_enqueueSuccessCounter :: nat

type_synonym queue_labels = "string \<times> string \<times> string"

record 'e queue_world =
  qw_ext :: 'e
  qw_counters :: "queue_labels \<Rightarrow> queue_counters"

record queue_with_metrics =
  qwm_wrappedQueue :: ext_queue
  qwm_name :: string
  qwm_wrappedType :: string
  qwm_wrappedName :: string

definition qwm_labels :: "queue_with_metrics \<Rightarrow> queue_labels" where
  "qwm_labels q = (qwm_wrappedType q, qwm_wrappedName q, qwm_name q)"

definition NewExternalQueueWithMetrics :: "ext_queue option \<Rightarrow> string \<Rightarrow> queue_with_metrics go" where
  "NewExternalQueueWithMetrics queue name =
     (case queue of
        None \<Rightarrow> Panic ''nil pointer dereference''
      | Some q \<Rightarrow> Ret \<lparr>qwm_wrappedQueue = q, qwm_name = name, qwm_wrappedType = queue_Type q,
                      qwm_wrappedName = queue_Name q\<rparr>)"

definition qwm_Enqueue ::
  "'e queue_env \<Rightarrow> queue_with_metrics \<Rightarrow> message_context \<Rightarrow> 'e queue_world \<Rightarrow>
   'e queue_world \<times> error option" where
  "qwm_Enqueue env q msg w =
     (let c = qw_counters w (qwm_labels q);
          c = c\<lparr>qc_enqueueCounter := qc_enqueueCounter c + 1\<rparr>;
          (e, err) = queue_Enqueue env (qwm_wrappedQueue q) msg (qw_ext w);
          c = (if err \<noteq> None then c\<lparr>qc_enqueueErrorCounter := qc_enqueueErrorCounter c + 1\<rparr>
               else c\<lparr>qc_latency_count := qc_latency_count c + 1,
                      qc_enqueueSuccessCounter := qc_enqueueSuccessCounter c + 1\<rparr>)
      in (\<lparr>qw_ext = e, qw_counters = (qw_counters w)(qwm_labels q := c)\<rparr>, err))"

subsection \<open>The factory\<close>

record 'y queue_parsers =
  qp_Marshal :: "'y \<Rightarrow> error + bytes"
  qp_sqs :: "bytes \<Rightarrow> error + sqs_config"
  qp_http :: "bytes \<Rightarrow> error + http_queue_config"

definition extqueue_New ::
  "'y queue_parsers \<Rightarrow> 'e queue_env \<Rightarrow> string \<Rightarrow> 'y external_queue_config \<Rightarrow>
   (error + queue_with_metrics) go" where
  "extqueue_New ps env flowName conf =
     (case qp_Marshal ps (eq_Config conf) of
        Inl err \<Rightarrow> Ret (Inl (Wrapf ''error parsing external queue config: %w'' err))
      | Inr specificConf \<Rightarrow>
          (let made =
             (if eq_Type conf = noop_TYPE then Inr (Some NoopQueue, None)
              else if eq_Type conf = sqs_TYPE then
                (case sqs_ParseConfig (qp_sqs ps) specificConf of
                   Inl err \<Rightarrow> Inl (Wrapf ''error parsing SQS-specific config: %w'' err)
                 | Inr c \<Rightarrow> (case sqs_New env c flowName of
                       Inl err \<Rightarrow> Inl (Wrapf ''error creating SQS: %w'' err)
                     | Inr q \<Rightarrow> Inr (Some (SQSQueue q), None)))
              else if eq_Type conf = httpqueue_TYPE then
                (case httpqueue_ParseConfig (qp_http ps) specificConf of
                   Inl err \<Rightarrow> Inl (Wrapf ''error parsing HTTP queue-specific config: %w'' err)
                 | Inr c \<Rightarrow> (case httpqueue_New c flowName of
                       Inl err \<Rightarrow> Inl (Wrapf ''error creating HTTP queue: %w'' err)
                     | Inr q \<Rightarrow> Inr (Some (HTTPQueue q), None)))
              else Inr (None, Some (Error (''invalid external queue type '' @ eq_Type conf)))) in
           case made of
             Inl err \<Rightarrow> Ret (Inl err)
           | Inr (externalQueue, err) \<Rightarrow>
               go_bind (NewExternalQueueWithMetrics externalQueue flowName) (\<lambda>q.
                 Ret (case err of Some e \<Rightarrow> Inl e | None \<Rightarrow> Inr q))))"

subsection \<open>Reading the message back\<close>

text \<open>
  What a consumer does to a body, in the order of the fields: a specification, against which the
  encoding is unambiguous.
\<close>

definition hex_value :: "char \<Rightarrow> nat" where
  "hex_value c = (let n = of_char c in if n < 58 then n - 48 else n - 87)"

fun unescape :: "string \<Rightarrow> (char \<times> string) option" where
  "unescape [] = None"
| "unescape (c # cs) =
     (if (of_char c :: nat) \<noteq> 92 then Some (c, cs)
      else case cs of
        [] \<Rightarrow> None
      | d # ds \<Rightarrow>
          if d = CHR ''b'' then Some (char_of (8 :: nat), ds)
          else if d = CHR ''f'' then Some (char_of (12 :: nat), ds)
          else if d = CHR ''n'' then Some (char_of (10 :: nat), ds)
          else if d = CHR ''r'' then Some (char_of (13 :: nat), ds)
          else if d = CHR ''t'' then Some (char_of (9 :: nat), ds)
          else if d = CHR ''u'' then
            (case ds of
               _ # _ # h # l # es \<Rightarrow> Some (char_of (16 * hex_value h + hex_value l), es)
             | _ \<Rightarrow> None)
          else Some (d, ds))"

lemma unescape_shorter: "unescape s = Some (c, t) \<Longrightarrow> length t < length s"
  by (cases s) (auto split: if_splits list.splits)

function read_chars :: "string \<Rightarrow> (string \<times> string) option" where
  "read_chars s =
     (if s = [] then None
      else if hd s = quote_char then Some ([], tl s)
      else case unescape s of
        None \<Rightarrow> None
      | Some (c, t) \<Rightarrow> map_option (\<lambda>(cs, rest). (c # cs, rest)) (read_chars t))"
  by pat_completeness auto
termination
  by (relation "measure length") (auto dest: unescape_shorter)

declare read_chars.simps [simp del]

definition read_string :: "string \<Rightarrow> (string \<times> string) option" where
  "read_string s = (if s \<noteq> [] \<and> hd s = quote_char then read_chars (tl s) else None)"

definition expect :: "string \<Rightarrow> string \<Rightarrow> string option" where
  "expect lit s = (if strings_HasPrefix s lit then Some (drop (length lit) s) else None)"

definition read_int :: "string \<Rightarrow> (int \<times> string) option" where
  "read_int s =
     (let neg = (s \<noteq> [] \<and> hd s = CHR ''-''); t = (if neg then tl s else s);
          ds = takeWhile is_digit t; rest = dropWhile is_digit t in
      if ds = [] then None
      else Some (if neg then - int (dec_value ds) else int (dec_value ds), rest))"

definition read_message :: "string \<Rightarrow> queue_message option" where
  "read_message s0 =
     Option.bind (expect (''{'' @ json_string ''schema_version'' @ '':'') s0) (\<lambda>s.
     Option.bind (read_string s) (\<lambda>(ver, s).
     Option.bind (expect ('','' @ json_string ''flow_name'' @ '':'') s) (\<lambda>s.
     Option.bind (read_string s) (\<lambda>(fname, s).
     Option.bind (expect ('','' @ json_string ''bucket'' @ '':{'' @ json_string ''name'' @ '':'') s) (\<lambda>s.
     Option.bind (read_string s) (\<lambda>(bname, s).
     Option.bind (expect ('','' @ json_string ''region'' @ '':'') s) (\<lambda>s.
     Option.bind (read_string s) (\<lambda>(region, s).
     Option.bind (expect (''},'' @ json_string ''object'' @ '':{'' @ json_string ''path'' @ '':'') s) (\<lambda>s.
     Option.bind (read_string s) (\<lambda>(path, s).
     Option.bind (expect ('','' @ json_string ''full_url'' @ '':'') s) (\<lambda>s.
     Option.bind (read_string s) (\<lambda>(url, s).
     Option.bind (expect ('','' @ json_string ''size_in_bytes'' @ '':'') s) (\<lambda>s.
     Option.bind (read_int s) (\<lambda>(n, s).
       let mk = (\<lambda>ct. \<lparr>qm_SchemaVersion = ver, qm_FlowName = fname,
             qm_Bucket = \<lparr>qb_Name = bname, qb_Region = region\<rparr>,
             qm_Object = \<lparr>qo_Path = path, qo_FullURL = url, qo_SizeInBytes = n,
                          qo_CompressionType = ct\<rparr>\<rparr>) in
       case expect ('','' @ json_string ''compression_algorithm'' @ '':'') s of
         None \<Rightarrow> if s = ''}}'' then Some (mk []) else None
       | Some s \<Rightarrow>
           Option.bind (read_string s) (\<lambda>(ct, s). if s = ''}}'' then Some (mk ct) else None)))))))))))))))"

lemma of_char_bound: "(of_char c :: nat) < 256"
  by (rule nat_of_char_less_256)

lemma char_of_codes: "char_of (34 :: nat) = CHR 0x22" "char_of (92 :: nat) = CHR 0x5C"
  by code_simp+

lemma hex_value_digit: "n < 16 \<Longrightarrow> hex_value (hex_digit n) = n"
  by (auto simp: hex_value_def hex_digit_def Let_def)

lemma unescape_escape: "unescape (json_escape c @ t) = Some (c, t)"
proof -
  define n where "n = (of_char c :: nat)"
  have c: "c = char_of n" by (simp add: n_def)
  have b: "n < 256" unfolding n_def by (rule of_char_bound)
  consider "n = 34 \<or> n = 92" | "n = 8 \<or> n = 12 \<or> n = 10 \<or> n = 13 \<or> n = 9"
    | "needs_unicode_escape n" "n \<notin> {34, 92, 8, 12, 10, 13, 9}"
    | "\<not> needs_unicode_escape n" "n \<notin> {34, 92, 8, 12, 10, 13, 9}" by blast
  then show ?thesis
  proof cases
    case 1
    then have "c = char_of (34 :: nat) \<or> c = char_of (92 :: nat)" using c by blast
    then show ?thesis by (auto simp: json_escape_def char_of_codes)
  next
    case 2
    then show ?thesis by (auto simp: c json_escape_def)
  next
    case 3
    have "16 * (n div 16) + n mod 16 = n" by simp
    moreover have "n div 16 < 16" "n mod 16 < 16" using b by simp_all
    ultimately show ?thesis using 3 b
      by (auto simp: c json_escape_def Let_def hex_value_digit)
  next
    case 4
    then show ?thesis using b by (auto simp: c json_escape_def Let_def)
  qed
qed

lemma escape_head: "\<exists>d ds. json_escape c = d # ds \<and> d \<noteq> quote_char"
proof (cases "(of_char c :: nat) = 34")
  case False
  then have "c \<noteq> quote_char" by (auto simp: quote_char_def)
  then show ?thesis by (auto simp: json_escape_def Let_def quote_char_def)
qed (auto simp: json_escape_def Let_def quote_char_def)

lemma read_chars_escaped:
  "read_chars (concat (map json_escape cs) @ quote_char # rest) = Some (cs, rest)"
proof (induction cs)
  case Nil
  then show ?case by (subst read_chars.simps) simp
next
  case (Cons c cs)
  let ?r = "concat (map json_escape cs) @ quote_char # rest"
  obtain d ds where d: "json_escape c = d # ds" "d \<noteq> quote_char" using escape_head by blast
  have "read_chars (json_escape c @ ?r) = map_option (\<lambda>(cs, rest). (c # cs, rest)) (read_chars ?r)"
    using d unescape_escape[of c ?r] by (subst read_chars.simps) simp
  with Cons show ?case by simp
qed

lemma read_string_json [simp]: "read_string (json_string s @ rest) = Some (s, rest)"
  using read_chars_escaped[of s rest] by (simp add: read_string_def json_string_def)

lemma expect_append [simp]: "expect lit (lit @ s) = Some s"
  by (simp add: expect_def)

lemma dec_digits_split:
  assumes "\<forall>c \<in> set ds. is_digit c" and "rest = [] \<or> \<not> is_digit (hd rest)"
  shows "takeWhile is_digit (ds @ rest) = ds \<and> dropWhile is_digit (ds @ rest) = rest"
  using assms by (cases rest) (auto simp: takeWhile_append dropWhile_append takeWhile_eq_all_conv)

lemma read_int_Itoa [simp]:
  assumes "rest \<noteq> []" and "\<not> is_digit (hd rest)"
  shows "read_int (strconv_Itoa n @ rest) = Some (n, rest)"
proof (cases "n < 0")
  case True
  then show ?thesis
    using nat_to_dec_digits[of "nat (- n)"] dec_digits_split[of "nat_to_dec (nat (- n))" rest] assms
    by (simp add: read_int_def strconv_Itoa_def Let_def)
next
  case False
  let ?d = "nat_to_dec (nat n)"
  obtain c cs where c: "?d = c # cs" "is_digit c"
    using nat_to_dec_digits[of "nat n"] by (cases ?d) auto
  then have "hd (?d @ rest) \<noteq> CHR ''-''" by (auto simp: is_digit_def)
  moreover have "takeWhile is_digit (?d @ rest) = ?d" "dropWhile is_digit (?d @ rest) = rest"
    using nat_to_dec_digits[of "nat n"] dec_digits_split[of ?d rest] assms by auto
  moreover have "strconv_Itoa n = ?d" using False by (simp add: strconv_Itoa_def)
  ultimately show ?thesis
    using False nat_to_dec_digits[of "nat n"] by (simp only: read_int_def Let_def) simp
qed

lemma json_Marshal_shape:
  "json_Marshal m =
     (''{'' @ json_string ''schema_version'' @ '':'') @ json_string (qm_SchemaVersion m) @
     ('','' @ json_string ''flow_name'' @ '':'') @ json_string (qm_FlowName m) @
     ('','' @ json_string ''bucket'' @ '':{'' @ json_string ''name'' @ '':'') @
       json_string (qb_Name (qm_Bucket m)) @
     ('','' @ json_string ''region'' @ '':'') @ json_string (qb_Region (qm_Bucket m)) @
     (''},'' @ json_string ''object'' @ '':{'' @ json_string ''path'' @ '':'') @
       json_string (qo_Path (qm_Object m)) @
     ('','' @ json_string ''full_url'' @ '':'') @ json_string (qo_FullURL (qm_Object m)) @
     ('','' @ json_string ''size_in_bytes'' @ '':'') @ strconv_Itoa (qo_SizeInBytes (qm_Object m)) @
     (if qo_CompressionType (qm_Object m) = [] then []
      else ('','' @ json_string ''compression_algorithm'' @ '':'') @
        json_string (qo_CompressionType (qm_Object m))) @ ''}}''"
  by (simp add: json_Marshal_def json_object_def json_field_def)

lemma read_marshalled: "read_message (json_Marshal m) = Some m"
proof -
  let ?ct = "qo_CompressionType (qm_Object m)"
  define c where "c = '','' @ json_string ''compression_algorithm'' @ '':''"
  define last where "last = (if ?ct = [] then [] else c @ json_string ?ct) @ ''}}''"
  have hd: "last \<noteq> []" "\<not> is_digit (hd last)" by (auto simp: last_def c_def is_digit_def)
  have "expect c last = (if ?ct = [] then None else Some (json_string ?ct @ ''}}''))"
    by (simp add: last_def) (simp add: c_def expect_def strings_HasPrefix_def)
  then show ?thesis
    unfolding json_Marshal_shape read_message_def c_def[symmetric] last_def[symmetric] expect_append
      read_string_json bind.bind_lunit prod.case read_int_Itoa[OF hd]
    by (auto simp: Let_def last_def)
qed

subsection \<open>Properties\<close>


text \<open>
  The HTTP queue reports success exactly when the endpoint was reached and answered
  2xx; it has then been posted one JSON message for this object under the flow's name.
\<close>

theorem http_Enqueue_success_iff:
  "snd (http_Enqueue env q msg e) = None \<longleftrightarrow>
     qe_NewRequest env ''POST'' (hqueue_url q) = None \<and>
     (\<exists>e' status. qe_Do env e (hqueue_timeout q) ''POST'' (hqueue_url q) ''application/json''
          (json_Marshal (NewMessage (httpqueue_Name q) msg)) = (e', Inr status) \<and>
        200 \<le> status \<and> status < 300 \<and> fst (http_Enqueue env q msg e) = e')"
  by (auto simp: http_Enqueue_def Let_def split: prod.splits option.splits sum.splits)

text \<open>
  The metrics wrapper of a queue passes the call and its result through, and
  counts it as one put and one success or one error; the latency is observed on success only.
\<close>

theorem qwm_Enqueue_transparent:
  "qw_ext (fst (qwm_Enqueue env q msg w)) =
     fst (queue_Enqueue env (qwm_wrappedQueue q) msg (qw_ext w)) \<and>
   snd (qwm_Enqueue env q msg w) = snd (queue_Enqueue env (qwm_wrappedQueue q) msg (qw_ext w)) \<and>
   (let c = qw_counters w (qwm_labels q);
        c' = qw_counters (fst (qwm_Enqueue env q msg w)) (qwm_labels q);
        ok = (if snd (qwm_Enqueue env q msg w) = None then 1 else 0) in
    qc_enqueueCounter c' = qc_enqueueCounter c + 1 \<and>
    qc_enqueueSuccessCounter c' = qc_enqueueSuccessCounter c + ok \<and>
    qc_latency_count c' = qc_latency_count c + ok \<and>
    qc_enqueueErrorCounter c' = qc_enqueueErrorCounter c + (1 - ok))"
  by (auto simp: qwm_Enqueue_def Let_def split: prod.split)

text \<open>
  The queue factory panics only for a type that is not one of the three known ones;
  a configuration that passed validation has a known type, so for it the factory returns a queue
  or an error.
\<close>

lemma extqueue_New_safe_after_validation:
  "(go_panics (extqueue_New ps env flowName conf) \<longleftrightarrow>
      eq_Type conf \<notin> {''noop'', ''sqs'', ''http''} \<and> (\<exists>b. qp_Marshal ps (eq_Config conf) = Inr b)) \<and>
   (extq_validate conf = None \<longrightarrow> go_returns (extqueue_New ps env flowName conf))"
proof
  show p: "go_panics (extqueue_New ps env flowName conf) \<longleftrightarrow>
      eq_Type conf \<notin> {''noop'', ''sqs'', ''http''} \<and> (\<exists>b. qp_Marshal ps (eq_Config conf) = Inr b)"
    by (auto simp: extqueue_New_def Let_def NewExternalQueueWithMetrics_def split: sum.splits)
  show "extq_validate conf = None \<longrightarrow> go_returns (extqueue_New ps env flowName conf)"
    by (auto simp: extq_validate_def externalQueueConfigAllowedValues_def extqueue_New_def Let_def
        NewExternalQueueWithMetrics_def split: sum.splits if_splits)
qed

end
