(* ===== verification/Http_Api.thy ===== *)
theory Http_Api
  imports Ingestion Ext_Queue
begin

text \<open>
  The HTTP API as a whole: pkg/adapters/httpin/api.go and operational_routes.go.  The routing of a
  request to its handler is done by the package chi, and \<open>/metrics\<close> and \<open>/debug\<close> are served by
  packages too (the parameter \<open>foreign\<close>); the dump of the configuration is
  \<open>json.Marshal\<close> of the redacted configuration (the parameter \<open>marshal\<close>).
\<close>

definition apiVersion :: string where "apiVersion = ''v1''"

subsection \<open>Operational routes\<close>

datatype 'y operational_handler =
  VersionHandler string
| MetricsHandler
| ConfigHandler "'y config"
| HealthyHandler
| ReadyHandler
| ProfilerHandler

text \<open>\<open>RegisterOperatinalRoutes\<close>: method (empty for all of them), path, handler.\<close>

definition RegisterOperatinalRoutes ::
  "string \<Rightarrow> 'y config \<Rightarrow> (string \<times> string \<times> 'y operational_handler) list" where
  "RegisterOperatinalRoutes version conf =
     [(''GET'', ''/version'', VersionHandler version), ([], ''/metrics'', MetricsHandler)] @
     (if oy_ConfigDumpEnabled (co_O11y conf)
      then [(''GET'', ''/config'', ConfigHandler (config_Redacted conf))] else []) @
     [(''GET'', ''/healthy'', HealthyHandler), (''GET'', ''/ready'', ReadyHandler)] @
     (if pr_Enabled (oy_Profiling (co_O11y conf)) then [([], ''/debug'', ProfilerHandler)] else [])"

text \<open>\<open>json.Marshal\<close> of a map with the one key \<open>version\<close>, which does not fail.\<close>

definition versionResponse :: "string \<Rightarrow> bytes" where
  "versionResponse version =
     string_bytes (json_object [json_field ''version'' (json_string version)])"

definition versionHandler :: "string \<Rightarrow> 's handler" where
  "versionHandler version r st =
     (let w = WriteHeader 200 (fst st);
          w = header_Set ''Content-Type'' ''application/json'' w in
      ((Write (versionResponse version) w, snd st), Returned))"

definition configHandler :: "('y config \<Rightarrow> error + bytes) \<Rightarrow> 'y config \<Rightarrow> 's handler" where
  "configHandler marshal redactedConf r st =
     (case marshal redactedConf of
        Inl err \<Rightarrow> ((WriteHeader 500 (fst st), snd st), Returned)
      | Inr response \<Rightarrow>
          (let w = header_Set ''Content-Type'' ''application/json'' (fst st);
               w = WriteHeader 200 w in
           ((Write response w, snd st), Returned)))"

definition okHandler :: "'s handler" where
  "okHandler r st = ((WriteHeader 200 (fst st), snd st), Returned)"

fun operational_serve ::
  "('y config \<Rightarrow> error + bytes) \<Rightarrow> (string \<Rightarrow> 's handler) \<Rightarrow> 'y operational_handler \<Rightarrow> 's handler" where
  "operational_serve marshal foreign (VersionHandler version) = versionHandler version"
| "operational_serve marshal foreign MetricsHandler = foreign ''/metrics''"
| "operational_serve marshal foreign (ConfigHandler conf) = configHandler marshal conf"
| "operational_serve marshal foreign HealthyHandler = okHandler"
| "operational_serve marshal foreign ReadyHandler = okHandler"
| "operational_serve marshal foreign ProfilerHandler = foreign ''/debug''"

subsection \<open>NewAPI\<close>

record 'y api =
  api_sizeLimit :: int
  api_addr :: string
  api_ingestion :: "route list"
  api_operational :: "(string \<times> string \<times> 'y operational_handler) list"

definition NewAPI :: "'y config \<Rightarrow> string \<Rightarrow> ingest_flow list \<Rightarrow> 'y api go" where
  "NewAPI conf appVersion flws =
     (case PayloadSizeLimitInBytes (co_API conf) of
        Inl err \<Rightarrow> Panic ''payload size limit could not be extracted''
      | Inr sizeLimit \<Rightarrow>
          go_bind (RegisterIngestingRoutes apiVersion flws) (\<lambda>routes.
            Ret \<lparr>api_sizeLimit = sizeLimit,
                 api_addr = '':'' @ strconv_Itoa (api_Port (co_API conf)),
                 api_ingestion = routes,
                 api_operational = RegisterOperatinalRoutes appVersion conf\<rparr>))"

text \<open>
  \<open>ListenAndServe\<close> and \<open>Shutdown\<close>: what \<open>http.Server\<close> returns is a parameter, as is what its
  \<open>Shutdown\<close> does within the grace period (in nanoseconds) to its state \<open>'s\<close>.
\<close>

definition api_ListenAndServe :: "error option \<Rightarrow> error option" where
  "api_ListenAndServe served = map_option (Wrapf ''when serving HTTP: %w'') served"

definition api_Shutdown :: "(int \<Rightarrow> 's \<Rightarrow> 's \<times> error option) \<Rightarrow> 's \<Rightarrow> 's \<times> error option" where
  "api_Shutdown srv_Shutdown s = srv_Shutdown (5 * 1000000000) s"

text \<open>A request once the router has chosen its route: the default middlewares around the handler.\<close>

definition serve_ingestion ::
  "(int \<Rightarrow> io_reader \<Rightarrow> io_reader) \<Rightarrow> ('b, 'tk) two_step \<Rightarrow> ('n \<Rightarrow> bytes \<Rightarrow> ('n \<times> error option) go) \<Rightarrow>
   'w codecs \<Rightarrow> (nat \<Rightarrow> nat) \<Rightarrow> 'y api \<Rightarrow> route \<Rightarrow> ('b, 'n) ingest_state observed handler" where
  "serve_ingestion requestSize cb enq cd grow a rt =
     default_middlewares requestSize (api_sizeLimit a) (route_handler cb enq cd grow rt)"

definition serve_operational ::
  "(int \<Rightarrow> io_reader \<Rightarrow> io_reader) \<Rightarrow> ('y config \<Rightarrow> error + bytes) \<Rightarrow> (string \<Rightarrow> 's handler) \<Rightarrow>
   'y api \<Rightarrow> 'y operational_handler \<Rightarrow> 's observed handler" where
  "serve_operational requestSize marshal foreign a h =
     default_middlewares requestSize (api_sizeLimit a) (operational_serve marshal foreign h)"

subsection \<open>Lemmas\<close>

lemma flowRoutes_token:
  "flowRoutes version flw = Ret rs \<Longrightarrow> rt \<in> set rs \<Longrightarrow>
     rt_flow rt = if_Name flw \<and> rt_method rt = ''POST'' \<and>
     rt_token rt = (if if_Token flw \<noteq> [] then Some (if_Token flw) else None)"
  by (auto simp: flowRoutes_def go_ret_iff Let_def)

lemma RegisterIngestingRoutes_token:
  assumes "RegisterIngestingRoutes version flws = Ret rs" and "rt \<in> set rs"
  shows "\<exists>flw \<in> set flws. rt_flow rt = if_Name flw \<and>
    rt_token rt = (if if_Token flw \<noteq> [] then Some (if_Token flw) else None)"
proof -
  let ?P = "\<lambda>rs. \<forall>rt \<in> set rs. \<exists>flw \<in> set flws. rt_flow rt = if_Name flw \<and>
    rt_token rt = (if if_Token flw \<noteq> [] then Some (if_Token flw) else None)"
  have "?P rs"
  proof (rule go_foreach_invariant[where P = ?P])
    show "go_foreach (\<lambda>flw routes. go_bind (flowRoutes version flw) (\<lambda>rs. Ret (routes @ rs))) flws [] =
        Ret rs" using assms(1) by (simp add: RegisterIngestingRoutes_def)
  qed (fastforce simp: go_ret_iff dest: flowRoutes_token)+
  with assms(2) show ?thesis by blast
qed

lemma Auth_rejects:
  "header_Get r ''Authorization'' \<noteq> ''Bearer '' @ token \<Longrightarrow> answers (Auth token h) r s 401 0 s"
  by (rule answers_WriteHeader) (simp add: Auth_def)

subsection \<open>Properties\<close>

text \<open>
  C31 (safety): every ingestion route of the API belongs to a flow; when that flow has a token, a
  request whose \<open>Authorization\<close> header is not exactly \<open>Bearer\<close>, a space and that token is answered
  401 through all the middlewares, and reaches neither the breaker nor the semaphore nor the flow.
\<close>

theorem api_rejects_wrong_tokens:
  assumes "NewAPI conf appVersion flws = Ret a" and "rt \<in> set (api_ingestion a)"
  shows "\<exists>flw \<in> set flws. rt_flow rt = if_Name flw \<and>
    (if_Token flw \<noteq> [] \<longrightarrow> header_Get r ''Authorization'' \<noteq> ''Bearer '' @ if_Token flw \<longrightarrow>
       (\<exists>w ob'. serve_ingestion requestSize cb enq cd grow a rt r (new_writer, ob) =
            ((w, ob'), Returned) \<and>
          final_status w = 401 \<and> ob_inner ob' = ob_inner ob))"
proof -
  have "RegisterIngestingRoutes apiVersion flws = Ret (api_ingestion a)"
    using assms(1) by (auto simp: NewAPI_def go_ret_iff split: sum.splits)
  from RegisterIngestingRoutes_token[OF this assms(2)] obtain flw where
    flw: "flw \<in> set flws" "rt_flow rt = if_Name flw"
      "rt_token rt = (if if_Token flw \<noteq> [] then Some (if_Token flw) else None)" by blast
  let ?r = "if 0 < api_sizeLimit a then r\<lparr>rq_Body := requestSize (api_sizeLimit a) (rq_Body r)\<rparr> else r"
  have "\<exists>w ob'. serve_ingestion requestSize cb enq cd grow a rt r (new_writer, ob) = ((w, ob'), Returned) \<and>
      final_status w = 401 \<and> ob_inner ob' = ob_inner ob"
    if tok: "if_Token flw \<noteq> []" "header_Get r ''Authorization'' \<noteq> ''Bearer '' @ if_Token flw"
  proof -
    have "header_Get ?r ''Authorization'' \<noteq> ''Bearer '' @ if_Token flw"
      using tok(2) by (simp add: header_Get_def)
    then have "answers (route_handler cb enq cd grow rt) ?r (ob_inner ob) 401 0 (ob_inner ob)"
      using flw(3) tok(1) by (simp add: route_handler_def Auth_rejects)
    from default_middlewares_answers[where r = r and ob = ob and requestSize = requestSize and
        sizeLimit = "api_sizeLimit a", OF this]
    show ?thesis unfolding serve_ingestion_def by blast
  qed
  with flw show ?thesis by blast
qed

definition sample_flow :: ingest_flow where
  "sample_flow = \<lparr>if_Name = ''f'', if_Token = ''secret'', if_DecompressionAlgorithms = [],
     if_DecompressionMaxConcurrency = 0, if_DecompressionInitialBufferSizeBytes = 512\<rparr>"

definition sample_api_config :: "bytes config" where
  "sample_api_config =
     \<lparr>co_O11y = \<lparr>oy_Tracing = \<lparr>tr_Enabled = False, tr_ServiceName = []\<rparr>,
        oy_Log = \<lparr>lg_Level = ''info'', lg_Format = ''json''\<rparr>,
        oy_Profiling = \<lparr>pr_Enabled = False\<rparr>, oy_ConfigDumpEnabled = True\<rparr>,
      co_Version = ''0.0.1'', co_API = \<lparr>api_Port = 9199, api_PayloadSizeLimit = ''10''\<rparr>,
      co_Flows = [], co_DisableMaxProcs = True\<rparr>"

lemma api_rejects_wrong_tokens_witness:
  "\<exists>a rt w ob'. NewAPI sample_api_config ''1'' [sample_flow] = Ret a \<and> rt \<in> set (api_ingestion a) \<and>
     serve_ingestion (\<lambda>_ b. b) dummy_two_step (\<lambda>n d. Ret (n @ [d], None)) framed_codecs id a rt
       (sample_post [1]) (new_writer, no_observations (sample_state () [])) = ((w, ob'), Returned) \<and>
     final_status w = 401 \<and> is_entrypoint (ob_inner ob') = []"
proof -
  have sz: "PayloadSizeLimitInBytes (co_API sample_api_config) = Inr 10"
    by (simp add: PayloadSizeLimitInBytes_def sample_api_config_def ToBytes_digits is_digit_def
        dec_value_def digit_val_def)
  let ?sem = "\<lparr>chan_cap = 0, chan_buf = [], chan_closed = True\<rparr>"
  let ?h = "\<lparr>ir_validDecompressionAlgorithms = [], ir_decompressionInitialBufferSize = 512\<rparr>"
  let ?rt = "\<lparr>rt_method = ''POST'', rt_path = ''/f/async_ingestion'', rt_token = Some ''secret'',
    rt_flow = ''f'', rt_semaphor = ?sem, rt_handler = ?h\<rparr>"
  obtain rts where rts: "RegisterIngestingRoutes apiVersion [sample_flow] = Ret (?rt # rts)"
    unfolding RegisterIngestingRoutes_def
    by (simp add: flowRoutes_def newIngestionRoute_def newSemaphor_cases sample_flow_def Let_def)
  define a where "a = \<lparr>api_sizeLimit = 10, api_addr = '':'' @ strconv_Itoa 9199,
    api_ingestion = ?rt # rts, api_operational = RegisterOperatinalRoutes ''1'' sample_api_config\<rparr>"
  have a: "NewAPI sample_api_config ''1'' [sample_flow] = Ret a" "?rt \<in> set (api_ingestion a)"
    unfolding a_def using sz rts by (simp_all add: NewAPI_def) (simp add: sample_api_config_def)
  have hd: "header_Get (sample_post [1]) ''Authorization'' \<noteq> ''Bearer '' @ if_Token sample_flow"
    by (simp add: header_Get_def sample_post_def sample_request_def)
  from api_rejects_wrong_tokens[OF a, of "sample_post [1]" "\<lambda>_ b. b" dummy_two_step
      "\<lambda>n d. Ret (n @ [d], None)" framed_codecs id "no_observations (sample_state () [])"] hd a
  show ?thesis by (auto simp: sample_flow_def no_observations_def sample_state_def)
qed

text \<open>
  The configuration is served only when its dump is enabled, and then what is served is
  the redacted configuration, with its content type.
\<close>

theorem config_dump_is_redacted:
  "(method, path, ConfigHandler c) \<in> set (RegisterOperatinalRoutes version conf) \<longleftrightarrow>
     oy_ConfigDumpEnabled (co_O11y conf) \<and> method = ''GET'' \<and> path = ''/config'' \<and>
     c = config_Redacted conf"
  by (auto simp: RegisterOperatinalRoutes_def)

text \<open>
  The version handler sends its JSON body with status 200 but without a content
  type: it sets the header after \<open>WriteHeader\<close>, when the headers are already sent; the
  configuration handler does it in the right order.
\<close>

theorem version_lacks_content_type:
  "(case versionHandler version r (new_writer, s) of
      ((w, s'), x) \<Rightarrow> x = Returned \<and> s' = s \<and> final_status w = 200 \<and>
        rs_body (wr_resp w) = versionResponse version \<and> rs_sent_headers (wr_resp w) = []) \<and>
   (case configHandler (\<lambda>c. Inr d) conf r (new_writer, s) of
      ((w, s'), x) \<Rightarrow> final_status w = 200 \<and> rs_body (wr_resp w) = d \<and>
        rs_sent_headers (wr_resp w) = [(''Content-Type'', ''application/json'')])"
  by (simp add: versionHandler_def configHandler_def new_writer_def WriteHeader_def Write_def
      resp_WriteHeader_def header_Set_def final_status_def Let_def)

end
