(* ===== verification/Packing.thy ===== *)
theory Packing
  imports Prelude
begin

text \<open>
  The abstract specification of the accumulators, and the reference definition of merging.

  \<open>join_bytes sep cs\<close> is the concatenation of the chunks with the separator between them.
  \<open>pack L sl ds\<close> is the greedy packing of a sequence of payloads under the limit \<open>L\<close> with a
  separator of length \<open>sl\<close>: the groups that are complete, each to be merged and sent on as one
  object, and the group that is still open.
\<close>

fun join_bytes :: "bytes \<Rightarrow> bytes list \<Rightarrow> bytes" where
  "join_bytes sep [] = []"
| "join_bytes sep [c] = c"
| "join_bytes sep (c # d # cs) = c @ sep @ join_bytes sep (d # cs)"

text \<open>The length of the merged group; for the empty group this is the \<open>-sl\<close> the code computes.\<close>

definition group_len :: "int \<Rightarrow> bytes list \<Rightarrow> int" where
  "group_len sl cs = (\<Sum>c\<leftarrow>cs. int (length c) + sl) - sl"

lemma group_len_simps [simp]:
  "group_len sl [] = - sl"
  "group_len sl [c] = int (length c)"
  by (simp_all add: group_len_def)

lemma group_len_snoc [simp]: "group_len sl (cs @ [d]) = group_len sl cs + sl + int (length d)"
  by (simp add: group_len_def)

lemma group_len_Cons: "group_len sl (c # cs) = int (length c) + sl + group_len sl cs"
  by (simp add: group_len_def)

lemma length_join_bytes:
  "cs \<noteq> [] \<Longrightarrow> int (length (join_bytes sep cs)) = group_len (int (length sep)) cs"
  by (induction sep cs rule: join_bytes.induct) (auto simp: group_len_Cons)

lemma group_len_positive:
  "0 \<le> sl \<Longrightarrow> cs \<noteq> [] \<Longrightarrow> [] \<notin> set cs \<Longrightarrow> 0 < group_len sl cs"
proof (induction cs)
  case (Cons c cs)
  then show ?case by (cases cs) (auto simp: group_len_Cons)
qed simp

definition pack_step ::
  "int \<Rightarrow> int \<Rightarrow> bytes list list \<times> bytes list \<Rightarrow> bytes \<Rightarrow> bytes list list \<times> bytes list" where
  "pack_step L sl gp d =
     (let gs = fst gp; p = snd gp; n = group_len sl p + sl + int (length d) in
      if d = [] then gp
      else if L \<le> int (length d) then (gs @ (if p = [] then [] else [p]) @ [[d]], [])
      else if L < n then (gs @ [p], [d])
      else if n = L then (gs @ [p @ [d]], [])
      else (gs, p @ [d]))"

definition pack :: "int \<Rightarrow> int \<Rightarrow> bytes list \<Rightarrow> bytes list list \<times> bytes list" where
  "pack L sl ds = foldl (pack_step L sl) ([], []) ds"

lemma pack_Nil [simp]: "pack L sl [] = ([], [])"
  by (simp add: pack_def)

lemma pack_snoc: "pack L sl (ds @ [d]) = pack_step L sl (pack L sl ds) d"
  by (simp add: pack_def)

subsection \<open>What the packing guarantees\<close>

text \<open>
  \<open>fits L sl p\<close>: an open group, below the limit and without empty chunks.  \<open>packed L sl gs p\<close>:
  every complete group is within the limit or one single oversized payload, no group could have
  taken the first payload of the group after it, and the open group fits.
\<close>

definition fits :: "int \<Rightarrow> int \<Rightarrow> bytes list \<Rightarrow> bool" where
  "fits L sl p \<longleftrightarrow> [] \<notin> set p \<and> (p \<noteq> [] \<longrightarrow> group_len sl p < L)"

definition within_limit :: "int \<Rightarrow> int \<Rightarrow> bytes list \<Rightarrow> bool" where
  "within_limit L sl g \<longleftrightarrow>
     g \<noteq> [] \<and> [] \<notin> set g \<and> (group_len sl g \<le> L \<or> (\<exists>d. g = [d] \<and> L \<le> int (length d)))"

definition could_not_take :: "int \<Rightarrow> int \<Rightarrow> bytes list \<Rightarrow> bytes list \<Rightarrow> bool" where
  "could_not_take L sl g h \<longleftrightarrow> h \<noteq> [] \<longrightarrow> L < group_len sl g + sl + int (length (hd h))"

definition packed :: "int \<Rightarrow> int \<Rightarrow> bytes list list \<Rightarrow> bytes list \<Rightarrow> bool" where
  "packed L sl gs p \<longleftrightarrow>
     (\<forall>g \<in> set gs. within_limit L sl g) \<and> successively (could_not_take L sl) (gs @ [p]) \<and>
     fits L sl p \<and> (p = [] \<longrightarrow> gs = [] \<or> L \<le> group_len sl (last gs))"

lemma packed_Nil [simp]: "packed L sl [] []"
  by (simp add: packed_def fits_def)

lemma successively_snoc_snoc:
  "successively P (xs @ [x, y]) \<longleftrightarrow> successively P (xs @ [x]) \<and> P x y"
  by (auto simp: successively_append_iff)

lemma successively_change_last:
  assumes "successively P (xs @ [x])" and "\<And>z. P z x \<Longrightarrow> P z y"
  shows "successively P (xs @ [y])"
  using assms by (cases xs rule: rev_cases) (auto simp: successively_append_iff)

lemma could_not_take_grow:
  "could_not_take L sl g p \<Longrightarrow> p \<noteq> [] \<Longrightarrow> could_not_take L sl g (p @ [d])"
  by (simp add: could_not_take_def)

lemma could_not_take_Nil [simp]: "could_not_take L sl g []"
  by (simp add: could_not_take_def)

text \<open>Adding a payload to the open group keeps it adjacent to the complete ones.\<close>

lemma packed_adjacent:
  assumes "packed L sl gs p" and "0 \<le> sl" and "d \<noteq> []"
  shows "successively (could_not_take L sl) (gs @ [p @ [d]])"
proof (cases "p = []")
  case True
  with assms show ?thesis
    by (cases gs rule: rev_cases)
       (auto simp: packed_def could_not_take_def successively_append_iff simp flip: length_greater_0_conv)
next
  case False
  with assms(1) could_not_take_grow[OF _ False] show ?thesis
    by (auto simp: packed_def intro: successively_change_last)
qed

lemma packed_step:
  assumes pk: "packed L sl gs p" and sl: "0 \<le> sl"
  shows "packed L sl (fst (pack_step L sl (gs, p) d)) (snd (pack_step L sl (gs, p) d))"
proof -
  note adj = packed_adjacent[OF pk sl]
  have pos: "p \<noteq> [] \<Longrightarrow> 0 < group_len sl p"
    using pk sl by (auto simp: packed_def fits_def intro: group_len_positive)
  consider (empty) "d = []" | (big) "d \<noteq> []" "L \<le> int (length d)"
    | (over) "d \<noteq> []" "int (length d) < L" "L < group_len sl (p @ [d])"
    | (full) "d \<noteq> []" "int (length d) < L" "group_len sl (p @ [d]) = L"
    | (room) "d \<noteq> []" "int (length d) < L" "group_len sl (p @ [d]) < L"
    by linarith
  then show ?thesis
  proof cases
    case empty
    with pk show ?thesis by (simp add: pack_step_def)
  next
    case big
    show ?thesis
    proof (cases "p = []")
      case True
      with big pk adj[of d] show ?thesis
        by (auto simp: pack_step_def packed_def fits_def within_limit_def successively_snoc_snoc Let_def)
    next
      case False
      with big pk pos sl have "could_not_take L sl p [d]" by (simp add: could_not_take_def)
      with False big pk show ?thesis
        by (auto simp: pack_step_def packed_def fits_def within_limit_def successively_append_iff Let_def)
    qed
  next
    case over
    then have "p \<noteq> []" by auto
    with over pk show ?thesis
      by (auto simp: pack_step_def packed_def fits_def within_limit_def successively_snoc_snoc
          could_not_take_def[of L sl p "[d]"] Let_def)
  next
    case full
    with pk adj[of d] show ?thesis
      by (auto simp: pack_step_def packed_def fits_def within_limit_def successively_snoc_snoc Let_def)
  next
    case room
    with pk adj[of d] show ?thesis by (auto simp: pack_step_def packed_def fits_def Let_def)
  qed
qed

lemma pack_packed: "0 \<le> sl \<Longrightarrow> packed L sl (fst (pack L sl ds)) (snd (pack L sl ds))"
proof (induction ds rule: rev_induct)
  case (snoc d ds)
  then show ?case
    using packed_step[of L sl "fst (pack L sl ds)" "snd (pack L sl ds)" d] by (simp add: pack_snoc)
qed simp

text \<open>Nothing is lost, duplicated or reordered; empty payloads carry nothing and are dropped.\<close>

lemma pack_step_concat:
  "concat (fst (pack_step L sl gp d)) @ snd (pack_step L sl gp d) =
     (concat (fst gp) @ snd gp) @ (if d = [] then [] else [d])"
  by (auto simp: pack_step_def Let_def)

lemma pack_concat:
  "concat (fst (pack L sl ds)) @ snd (pack L sl ds) = filter (\<lambda>d. d \<noteq> []) ds"
proof (induction ds rule: rev_induct)
  case (snoc d ds)
  then show ?case using pack_step_concat[of L sl "pack L sl ds" d] by (simp add: pack_snoc)
qed simp

subsection \<open>Packing with flushes in between\<close>

text \<open>
  With a timer, and at shutdown, the open group is also closed for reasons other than size.
  \<open>flushed\<close> is what such a flush does, and \<open>timed_packing L sl ds gs p\<close> holds when the payloads
  \<open>ds\<close>, with flushes anywhere in between, lead to the complete groups \<open>gs\<close> and the open one \<open>p\<close>.
\<close>

definition flushed :: "bytes list list \<times> bytes list \<Rightarrow> bytes list list \<times> bytes list" where
  "flushed gp = (fst gp @ (if snd gp = [] then [] else [snd gp]), [])"

inductive timed_packing ::
  "int \<Rightarrow> int \<Rightarrow> bytes list \<Rightarrow> bytes list list \<times> bytes list \<Rightarrow> bool" for L sl where
  nothing: "timed_packing L sl [] ([], [])"
| payload: "timed_packing L sl ds gp \<Longrightarrow> timed_packing L sl (ds @ [d]) (pack_step L sl gp d)"
| flush: "timed_packing L sl ds gp \<Longrightarrow> timed_packing L sl ds (flushed gp)"

lemma pack_timed_packing: "timed_packing L sl ds (pack L sl ds)"
  by (induction ds rule: rev_induct)
     (auto simp: pack_snoc intro: timed_packing.intros)

lemma timed_packing_concat:
  "timed_packing L sl ds gp \<Longrightarrow> concat (fst gp) @ snd gp = filter (\<lambda>d. d \<noteq> []) ds"
proof (induction rule: timed_packing.induct)
  case (payload ds gp d)
  then show ?case using pack_step_concat[of L sl gp d] by simp
qed (auto simp: flushed_def)

lemma timed_packing_bounded:
  "timed_packing L sl ds gp \<Longrightarrow>
   (\<forall>g \<in> set (fst gp). within_limit L sl g) \<and> fits L sl (snd gp)"
proof (induction rule: timed_packing.induct)
  case (payload ds gp d)
  then show ?case
    by (auto simp: pack_step_def Let_def within_limit_def fits_def)
qed (auto simp: flushed_def within_limit_def fits_def)

text \<open>What the bounds mean for the object that a group is merged into.\<close>

lemma within_limit_object:
  assumes "within_limit L (int (length sep)) g"
  shows "join_bytes sep g \<noteq> [] \<and> (int (length (join_bytes sep g)) \<le> L \<or> join_bytes sep g \<in> set g)"
proof -
  have g: "g \<noteq> []" "[] \<notin> set g" using assms by (auto simp: within_limit_def)
  from g have len: "int (length (join_bytes sep g)) = group_len (int (length sep)) g"
    by (simp add: length_join_bytes)
  have "0 < group_len (int (length sep)) g" by (rule group_len_positive[OF _ g]) simp
  with len have "join_bytes sep g \<noteq> []" by auto
  moreover from assms have "group_len (int (length sep)) g \<le> L \<or> (\<exists>d. g = [d])"
    by (auto simp: within_limit_def)
  ultimately show ?thesis using len by auto
qed

lemma timed_packing_objects:
  assumes "timed_packing L (int (length sep)) ds gp"
    and "obj \<in> set (map (join_bytes sep) (fst gp))"
  shows "obj \<noteq> [] \<and> (int (length obj) \<le> L \<or> obj \<in> set ds)"
proof -
  obtain g where g: "g \<in> set (fst gp)" "obj = join_bytes sep g" using assms(2) by auto
  have "set g \<subseteq> set (concat (fst gp) @ snd gp)" using g(1) by auto
  then have "set g \<subseteq> set ds" using timed_packing_concat[OF assms(1)] by auto
  moreover have "within_limit L (int (length sep)) g"
    using timed_packing_bounded[OF assms(1)] g(1) by simp
  ultimately show ?thesis using within_limit_object[of L sep g] g(2) by auto
qed

end
