(* ===== verification/Accumulator_Size.thy ===== *)
theory Accumulator_Size
  imports Stage_Loop Delivery Packing
begin

text \<open>
  The accumulator by size: pkg/accumulator/accumulator_by_size.go and pkg/accumulator/metrics.go.
  It merges payloads, with a separator between them, into objects of at most \<open>limitOfBytes\<close>
  bytes and pushes each of them through a circuit breaker into the next component (the uploader).

  The record \<open>by_size\<close> has the fields of the struct \<open>BySize\<close>; \<open>next\<close> and \<open>circBreaker\<close> are the
  world \<open>'w\<close> behind the functions \<open>exec\<close> (one attempt) and \<open>rest\<close> (what happens meanwhile) of
  the theory Delivery.
\<close>

definition MinQueueCapacity :: int where "MinQueueCapacity = 2"
definition bySizeFlushType :: string where "bySizeFlushType = ''by_size''"
definition byShutdownFlushType :: string where "byShutdownFlushType = ''shutdown''"

subsection \<open>Metrics\<close>

text \<open>
  The Prometheus counters and gauges of one flow (the label \<open>flow\<close>).  The source keeps them as
  float64 values; the byte counters are exact there up to 2^53, the kilobyte ones are the same
  values divided by 1024.
\<close>

record acc_metrics =
  enqueueCounter :: nat
  nextCounter :: nat
  capacityGauge :: int
  enqueuedItemsGauge :: int
  dataSizeInBytesCounter :: int
  dataSizeOutBytesCounter :: int
  dataSizeInKBsCounter :: rat
  dataSizeOutKBsCounter :: rat
  enqueueFailed :: nat
  flushCounter :: "string \<Rightarrow> nat"

definition newMetricCollector :: acc_metrics where
  "newMetricCollector = \<lparr>enqueueCounter = 0, nextCounter = 0, capacityGauge = 0,
     enqueuedItemsGauge = 0, dataSizeInBytesCounter = 0, dataSizeOutBytesCounter = 0,
     dataSizeInKBsCounter = 0, dataSizeOutKBsCounter = 0, enqueueFailed = 0,
     flushCounter = (\<lambda>_. 0)\<rparr>"

definition metrics_queueCapacity :: "int \<Rightarrow> acc_metrics \<Rightarrow> acc_metrics" where
  "metrics_queueCapacity n m = m\<lparr>capacityGauge := n\<rparr>"

definition increaseEnqueueCounter :: "acc_metrics \<Rightarrow> acc_metrics" where
  "increaseEnqueueCounter m = m\<lparr>enqueueCounter := enqueueCounter m + 1\<rparr>"

definition increaseNextCounter :: "acc_metrics \<Rightarrow> acc_metrics" where
  "increaseNextCounter m = m\<lparr>nextCounter := nextCounter m + 1\<rparr>"

definition metrics_enqueuedItems :: "int \<Rightarrow> acc_metrics \<Rightarrow> acc_metrics" where
  "metrics_enqueuedItems n m = m\<lparr>enqueuedItemsGauge := n\<rparr>"

definition incDataInBytesBy :: "int \<Rightarrow> acc_metrics \<Rightarrow> acc_metrics" where
  "incDataInBytesBy n m =
     (if 0 < n then
        m\<lparr>dataSizeInBytesCounter := dataSizeInBytesCounter m + n,
          dataSizeInKBsCounter := dataSizeInKBsCounter m + of_int n / 1024\<rparr>
      else m)"

definition incDataOutBytesBy :: "int \<Rightarrow> acc_metrics \<Rightarrow> acc_metrics" where
  "incDataOutBytesBy n m =
     (if 0 < n then
        m\<lparr>dataSizeOutBytesCounter := dataSizeOutBytesCounter m + n,
          dataSizeOutKBsCounter := dataSizeOutKBsCounter m + of_int n / 1024\<rparr>
      else m)"

definition incEnqueueFailed :: "acc_metrics \<Rightarrow> acc_metrics" where
  "incEnqueueFailed m = m\<lparr>enqueueFailed := enqueueFailed m + 1\<rparr>"

definition increaseFlushCounter :: "string \<Rightarrow> acc_metrics \<Rightarrow> acc_metrics" where
  "increaseFlushCounter typ m =
     m\<lparr>flushCounter := (flushCounter m)(typ := flushCounter m typ + 1)\<rparr>"

subsection \<open>State and construction\<close>

record by_size =
  limitOfBytes :: int
  separator :: bytes
  separatorLen :: int
  internalDataChan :: "bytes gochan"
  current :: "bytes list"
  metrics :: acc_metrics
  shuttingDown :: bool
  doneChan :: "unit gochan option"

definition NewAccumulatorBySize :: "int \<Rightarrow> bytes \<Rightarrow> int \<Rightarrow> by_size go" where
  "NewAccumulatorBySize limit sep queueCapacity =
     (if limit \<le> 1 then Panic ''limit of bytes in accumulator should be >= 2''
      else if limit \<le> int (length sep) then
        Panic ''separator length in bytes should be smaller than limit''
      else if queueCapacity < MinQueueCapacity then
        Panic ''the accumulator capacity cannot be less than 2''
      else go_bind (make_chan queueCapacity) (\<lambda>ch.
        Ret \<lparr>limitOfBytes = limit, separator = sep, separatorLen = int (length sep),
             internalDataChan = ch, current = [],
             metrics = metrics_queueCapacity queueCapacity newMetricCollector,
             shuttingDown = False, doneChan = None\<rparr>))"

subsection \<open>Enqueue\<close>

definition updateEnqueuedItemsMetric_by_size :: "by_size \<Rightarrow> by_size" where
  "updateEnqueuedItemsMetric_by_size acc =
     acc\<lparr>metrics :=
       metrics_enqueuedItems (int (length (chan_buf (internalDataChan acc)))) (metrics acc)\<rparr>"

definition Enqueue_by_size :: "bool \<Rightarrow> by_size \<Rightarrow> bytes \<Rightarrow> (by_size \<times> error option) go" where
  "Enqueue_by_size rdy acc d =
     (if shuttingDown acc then Ret (acc, Some (Error ''accumulator shutting down''))
      else
        let acc = acc\<lparr>metrics := increaseEnqueueCounter (metrics acc)\<rparr> in
        go_bind (chan_try_send rdy (internalDataChan acc) d) (\<lambda>(ch, sent).
          if sent then
            Ret (updateEnqueuedItemsMetric_by_size (acc\<lparr>internalDataChan := ch\<rparr>), None)
          else
            Ret (acc\<lparr>metrics := incEnqueueFailed (metrics acc)\<rparr>,
                 Some (Error ''enqueueing data on the accumulator failed, queue is full''))))"

subsection \<open>append, flush, enqueueOnNext\<close>

text \<open>The loop of \<open>currentBufferLen\<close>, and the function; on an empty buffer it yields \<open>-separatorLen\<close>.\<close>

fun bufferLenLoop :: "int \<Rightarrow> bytes list \<Rightarrow> int \<Rightarrow> int" where
  "bufferLenLoop sl [] t = t"
| "bufferLenLoop sl (d # ds) t = bufferLenLoop sl ds (t + int (length d) + sl)"

definition currentBufferLen_by_size :: "by_size \<Rightarrow> int" where
  "currentBufferLen_by_size acc =
     bufferLenLoop (separatorLen acc) (current acc) 0 - separatorLen acc"

text \<open>
  \<open>copy(dst[pos:], src)\<close>: the new contents of \<open>dst\<close> and the number of bytes copied.  (\<open>pos\<close> is
  the sum of what was copied before, so it is never beyond the end of \<open>dst\<close>.)
\<close>

definition copy_at :: "bytes \<Rightarrow> nat \<Rightarrow> bytes \<Rightarrow> bytes \<times> nat" where
  "copy_at dst pos src =
     (let n = min (length src) (length dst - pos) in
      (take pos dst @ take n src @ drop (pos + n) dst, n))"

text \<open>The copying loop of \<open>flush\<close>: every chunk, and after each but the last the separator.\<close>

fun mergeLoop :: "bytes \<Rightarrow> bytes list \<Rightarrow> bytes \<Rightarrow> nat \<Rightarrow> bytes" where
  "mergeLoop sep [] merged pos = merged"
| "mergeLoop sep (c # cs) merged pos =
     (let (merged1, n1) = copy_at merged pos c; pos1 = pos + n1 in
      if cs = [] then merged1
      else let (merged2, n2) = copy_at merged1 pos1 sep in mergeLoop sep cs merged2 (pos1 + n2))"

definition mergeChunks :: "bytes \<Rightarrow> bytes list \<Rightarrow> int \<Rightarrow> bytes go" where
  "mergeChunks sep chunks mergedDataLen =
     (if mergedDataLen < 0 then Panic ''makeslice: len out of range''
      else Ret (mergeLoop sep chunks (replicate (nat mergedDataLen) 0) 0))"

definition enqueueOnNext_by_size ::
  "('w \<Rightarrow> bytes \<Rightarrow> ('w \<times> error option) go) \<Rightarrow> ('w \<Rightarrow> 'w) \<Rightarrow> bytes \<Rightarrow> by_size \<Rightarrow> 'w \<Rightarrow>
   (by_size \<times> 'w) go" where
  "enqueueOnNext_by_size exec rest d acc w =
     go_bind (deliver exec rest d w) (\<lambda>w'.
       Ret (acc\<lparr>metrics := increaseNextCounter (incDataOutBytesBy (int (length d)) (metrics acc))\<rparr>,
            w'))"

definition flush_by_size ::
  "('w \<Rightarrow> bytes \<Rightarrow> ('w \<times> error option) go) \<Rightarrow> ('w \<Rightarrow> 'w) \<Rightarrow> string \<Rightarrow> by_size \<Rightarrow> 'w \<Rightarrow>
   (by_size \<times> 'w) go" where
  "flush_by_size exec rest typeOfFlush acc w =
     (if current acc = [] then Ret (acc, w)
      else
        go_bind (mergeChunks (separator acc) (current acc) (currentBufferLen_by_size acc))
          (\<lambda>mergedData.
        go_bind (enqueueOnNext_by_size exec rest mergedData acc w) (\<lambda>(acc, w).
          let acc = acc\<lparr>current := []\<rparr> in
          Ret (acc\<lparr>metrics := increaseFlushCounter typeOfFlush (metrics acc)\<rparr>, w))))"

definition append_by_size ::
  "('w \<Rightarrow> bytes \<Rightarrow> ('w \<times> error option) go) \<Rightarrow> ('w \<Rightarrow> 'w) \<Rightarrow> bytes \<Rightarrow> by_size \<Rightarrow> 'w \<Rightarrow>
   (by_size \<times> 'w) go" where
  "append_by_size exec rest d acc w =
     (let dataLen = int (length d) in
      if dataLen = 0 then Ret (acc, w)
      else
        let acc = acc\<lparr>metrics := incDataInBytesBy dataLen (metrics acc)\<rparr> in
        if limitOfBytes acc \<le> dataLen then
          go_bind (flush_by_size exec rest bySizeFlushType acc w) (\<lambda>(acc, w).
            enqueueOnNext_by_size exec rest d acc w)
        else
          let bufferLenAfterAppend =
                currentBufferLen_by_size acc + separatorLen acc + dataLen in
          go_bind
            (if limitOfBytes acc < bufferLenAfterAppend
             then flush_by_size exec rest bySizeFlushType acc w else Ret (acc, w)) (\<lambda>(acc, w).
          let acc = acc\<lparr>current := current acc @ [d]\<rparr> in
          if bufferLenAfterAppend = limitOfBytes acc
          then flush_by_size exec rest bySizeFlushType acc w else Ret (acc, w)))"

subsection \<open>Run and shutdown\<close>

text \<open>The start of \<open>Run\<close> and its deferred end: \<open>doneChan\<close> is made, and closed on return.\<close>

definition startRun_by_size :: "by_size \<Rightarrow> by_size" where
  "startRun_by_size acc =
     acc\<lparr>doneChan := Some \<lparr>chan_cap = 0, chan_buf = [], chan_closed = False\<rparr>\<rparr>"

definition closeDone_by_size :: "by_size \<Rightarrow> by_size" where
  "closeDone_by_size acc =
     acc\<lparr>doneChan := map_option (\<lambda>ch. ch\<lparr>chan_closed := True\<rparr>) (doneChan acc)\<rparr>"

definition Done_by_size :: "by_size \<Rightarrow> unit gochan option" where
  "Done_by_size acc = doneChan acc"

text \<open>\<open>case data := <-internalDataChan\<close>: append, then refresh the gauge.\<close>

definition handle_by_size ::
  "('w \<Rightarrow> bytes \<Rightarrow> ('w \<times> error option) go) \<Rightarrow> ('w \<Rightarrow> 'w) \<Rightarrow> bytes \<Rightarrow> by_size \<Rightarrow> 'w \<Rightarrow>
   (by_size \<times> 'w) go" where
  "handle_by_size exec rest d acc w =
     go_bind (append_by_size exec rest d acc w) (\<lambda>(acc, w).
       Ret (updateEnqueuedItemsMetric_by_size acc, w))"

definition setShutdown_by_size :: "by_size \<Rightarrow> by_size" where
  "setShutdown_by_size acc = acc\<lparr>shuttingDown := True\<rparr>"

text \<open>\<open>shutdown()\<close>, run by one goroutine with nothing in between.\<close>

definition shutdown_by_size ::
  "('w \<Rightarrow> bytes \<Rightarrow> ('w \<times> error option) go) \<Rightarrow> ('w \<Rightarrow> 'w) \<Rightarrow> by_size \<Rightarrow> 'w \<Rightarrow>
   (by_size \<times> 'w) go" where
  "shutdown_by_size exec rest acc w =
     (let acc = setShutdown_by_size acc in
      go_bind (chan_close (internalDataChan acc)) (\<lambda>ch.
      go_bind (drain (\<lambda>ch d (acc, w). handle_by_size exec rest d (acc\<lparr>internalDataChan := ch\<rparr>) w)
                 ch (acc, w)) (\<lambda>(ch, acc, w).
        flush_by_size exec rest byShutdownFlushType (acc\<lparr>internalDataChan := ch\<rparr>) w)))"

text \<open>The accumulator as a stage: its goroutine's loop interleaved with concurrent \<open>Enqueue\<close>s.\<close>

definition by_size_ops ::
  "('w \<Rightarrow> bytes \<Rightarrow> ('w \<times> error option) go) \<Rightarrow> ('w \<Rightarrow> 'w) \<Rightarrow> ('w \<Rightarrow> 'w \<Rightarrow> bool) \<Rightarrow>
   (by_size, bytes, 'w) stage_ops" where
  "by_size_ops exec rest env =
     \<lparr>op_enqueue = Enqueue_by_size,
      op_chan = internalDataChan,
      op_set_chan = (\<lambda>ch acc. acc\<lparr>internalDataChan := ch\<rparr>),
      op_shutting_down = shuttingDown,
      op_set_shutdown = setShutdown_by_size,
      op_handle = (\<lambda>now d acc w. handle_by_size exec rest d acc w),
      op_tick = (\<lambda>now acc w. Block),
      op_finish = (\<lambda>acc w.
        go_bind (flush_by_size exec rest byShutdownFlushType acc w) (\<lambda>(acc, w).
          Ret (closeDone_by_size acc, w))),
      op_env = env\<rparr>"

subsection \<open>The buffer length and the merge routine\<close>

lemma bufferLenLoop_sum: "bufferLenLoop sl ds t = t + (\<Sum>d\<leftarrow>ds. int (length d) + sl)"
  by (induction sl ds t rule: bufferLenLoop.induct) auto

lemma currentBufferLen_group_len:
  "currentBufferLen_by_size acc = group_len (separatorLen acc) (current acc)"
  by (simp add: currentBufferLen_by_size_def bufferLenLoop_sum group_len_def)

lemma length_copy_at [simp]: "pos \<le> length dst \<Longrightarrow> length (fst (copy_at dst pos src)) = length dst"
  by (auto simp: copy_at_def Let_def min_def)

text \<open>When the source fits, it replaces the bytes from \<open>pos\<close> on and is copied whole.\<close>

lemma copy_at_fits:
  "pos + length src \<le> length dst \<Longrightarrow>
   copy_at dst pos src = (take pos dst @ src @ drop (pos + length src) dst, length src)"
  by (simp add: copy_at_def Let_def)

lemma mergeLoop_join:
  "pos + length (join_bytes sep cs) = length m \<Longrightarrow>
   mergeLoop sep cs m pos = take pos m @ join_bytes sep cs"
proof (induction sep cs arbitrary: m pos rule: join_bytes.induct)
  case (3 sep c d cs)
  define m1 where "m1 = take pos m @ c @ drop (pos + length c) m"
  define m2 where "m2 = take (pos + length c) m1 @ sep @ drop (pos + length c + length sep) m1"
  have len: "pos + length c + length sep + length (join_bytes sep (d # cs)) = length m"
    using "3.prems" by simp
  then have c1: "copy_at m pos c = (m1, length c)" and l1: "length m1 = length m"
    by (simp_all add: copy_at_fits m1_def)
  from len l1 have c2: "copy_at m1 (pos + length c) sep = (m2, length sep)"
    and l2: "length m2 = length m"
    by (simp_all add: copy_at_fits m2_def)
  have t2: "take (pos + length c + length sep) m2 = take pos m @ c @ sep"
    using len by (simp add: m2_def m1_def)
  have "mergeLoop sep (d # cs) m2 (pos + length c + length sep) =
      take (pos + length c + length sep) m2 @ join_bytes sep (d # cs)"
    using len l2 by (intro "3.IH") simp
  moreover have "mergeLoop sep (c # d # cs) m pos =
      mergeLoop sep (d # cs) m2 (pos + length c + length sep)"
    using c1 c2 by (simp only: mergeLoop.simps(2)[of sep c] Let_def) simp
  ultimately show ?case using t2 by simp
qed (simp_all add: copy_at_fits)

lemma mergeChunks_join:
  "cs \<noteq> [] \<Longrightarrow> mergeChunks sep cs (group_len (int (length sep)) cs) = Ret (join_bytes sep cs)"
  by (simp add: mergeChunks_def mergeLoop_join flip: length_join_bytes)

subsection \<open>The accumulator's own invariant\<close>

text \<open>
  The configured limit and separator never change, the cached length is the separator's, and the
  buffer is an open group of the packing: no empty chunk, and below the limit.
\<close>

definition by_size_ok :: "int \<Rightarrow> bytes \<Rightarrow> by_size \<Rightarrow> bool" where
  "by_size_ok L sep acc \<longleftrightarrow>
     limitOfBytes acc = L \<and> separator acc = sep \<and> separatorLen acc = int (length sep)"

definition by_size_same_chan :: "by_size \<Rightarrow> by_size \<Rightarrow> bool" where
  "by_size_same_chan acc acc' \<longleftrightarrow>
     internalDataChan acc' = internalDataChan acc \<and> shuttingDown acc' = shuttingDown acc \<and>
     doneChan acc' = doneChan acc"

lemma pack_step_prefix:
  "pack_step L sl (gs, p) d = (gs @ fst (pack_step L sl ([], p) d), snd (pack_step L sl ([], p) d))"
  by (simp add: pack_step_def Let_def)

lemma enqueueOnNext_by_size_frame:
  "enqueueOnNext_by_size exec rest d acc w = Ret (acc', w') \<Longrightarrow> by_size_same_chan acc acc'"
  by (auto simp: enqueueOnNext_by_size_def go_ret_iff by_size_same_chan_def)

lemma flush_by_size_frame:
  "flush_by_size exec rest typ acc w = Ret (acc', w') \<Longrightarrow> by_size_same_chan acc acc'"
  by (auto simp: flush_by_size_def go_ret_iff by_size_same_chan_def Let_def
      dest: enqueueOnNext_by_size_frame split: if_splits)

lemma append_by_size_frame:
  "append_by_size exec rest d acc w = Ret (acc', w') \<Longrightarrow> by_size_same_chan acc acc'"
  by (auto simp: append_by_size_def go_ret_iff by_size_same_chan_def Let_def
      dest!: enqueueOnNext_by_size_frame flush_by_size_frame split: if_splits)

text \<open>What sending \<open>ds\<close> on does to the counters; the other counters do not move.\<close>

definition sent_metrics :: "bytes list \<Rightarrow> acc_metrics \<Rightarrow> acc_metrics \<Rightarrow> bool" where
  "sent_metrics ds m m' \<longleftrightarrow>
     dataSizeOutBytesCounter m' = dataSizeOutBytesCounter m + (\<Sum>d\<leftarrow>ds. int (length d)) \<and>
     dataSizeOutKBsCounter m' =
       dataSizeOutKBsCounter m + of_int (\<Sum>d\<leftarrow>ds. int (length d)) / 1024 \<and>
     nextCounter m' = nextCounter m + length ds \<and>
     dataSizeInBytesCounter m' = dataSizeInBytesCounter m \<and>
     dataSizeInKBsCounter m' = dataSizeInKBsCounter m"

lemma sent_metrics_Nil [simp]: "sent_metrics [] m m"
  by (simp add: sent_metrics_def)

lemma sent_metrics_append:
  "sent_metrics ds m m1 \<Longrightarrow> sent_metrics es m1 m2 \<Longrightarrow> sent_metrics (ds @ es) m m2"
  by (simp add: sent_metrics_def add_divide_distrib)

lemma sent_metrics_flush [simp]:
  "sent_metrics ds m (increaseFlushCounter typ m') = sent_metrics ds m m'"
  by (simp add: sent_metrics_def increaseFlushCounter_def)

lemma sent_metrics_one: "sent_metrics [d] m (increaseNextCounter (incDataOutBytesBy (int (length d)) m))"
  by (simp add: sent_metrics_def increaseNextCounter_def incDataOutBytesBy_def)

context next_stage
begin

lemma enqueueOnNext_by_size_spec:
  assumes "good w" and "enqueueOnNext_by_size exec rest d acc w = Ret (acc', w')"
  shows "good w' \<and> taken w' = taken w @ [d] \<and> current acc' = current acc \<and>
    (\<forall>L sep. by_size_ok L sep acc' = by_size_ok L sep acc) \<and>
    sent_metrics [d] (metrics acc) (metrics acc')"
  using assms deliver_once[OF assms(1)]
  by (auto simp: enqueueOnNext_by_size_def go_ret_iff by_size_ok_def sent_metrics_one)

lemma flush_by_size_spec:
  assumes "good w" and "by_size_ok L sep acc"
    and "flush_by_size exec rest typ acc w = Ret (acc', w')"
  shows "good w' \<and> current acc' = [] \<and> by_size_ok L sep acc' \<and>
    (let ds = (if current acc = [] then [] else [join_bytes sep (current acc)]) in
     taken w' = taken w @ ds \<and> sent_metrics ds (metrics acc) (metrics acc'))"
proof (cases "current acc = []")
  case True
  with assms show ?thesis by (auto simp: flush_by_size_def)
next
  case False
  have "mergeChunks (separator acc) (current acc) (currentBufferLen_by_size acc) =
      Ret (join_bytes sep (current acc))"
    using False assms(2) by (simp add: currentBufferLen_group_len by_size_ok_def mergeChunks_join)
  with False assms(3) obtain acc1 where
    e: "enqueueOnNext_by_size exec rest (join_bytes sep (current acc)) acc w = Ret (acc1, w')" and
    "acc' = acc1\<lparr>current := [], metrics := increaseFlushCounter typ (metrics acc1)\<rparr>"
    by (auto simp: flush_by_size_def go_ret_iff)
  with enqueueOnNext_by_size_spec[OF assms(1) e] False assms(2) show ?thesis
    by (auto simp: by_size_ok_def)
qed

text \<open>One \<open>append\<close> is one step of the packing.\<close>

lemma append_by_size_spec:
  assumes "good w" and ok: "by_size_ok L sep acc" and "fits L (int (length sep)) (current acc)"
    and app: "append_by_size exec rest d acc w = Ret (acc', w')"
  shows "good w' \<and> by_size_ok L sep acc' \<and>
    (let gp = pack_step L (int (length sep)) ([], current acc) d in
     taken w' = taken w @ map (join_bytes sep) (fst gp) \<and> current acc' = snd gp \<and>
     sent_metrics (map (join_bytes sep) (fst gp))
       (incDataInBytesBy (int (length d)) (metrics acc)) (metrics acc'))"
proof -
  let ?acc0 = "acc\<lparr>metrics := incDataInBytesBy (int (length d)) (metrics acc)\<rparr>"
  let ?n = "group_len (int (length sep)) (current acc) + int (length sep) + int (length d)"
  have ok0: "by_size_ok L sep ?acc0" using ok by (simp add: by_size_ok_def)
  have lim: "limitOfBytes acc = L" "separatorLen acc = int (length sep)"
    using ok by (simp_all add: by_size_ok_def)
  consider (empty) "d = []" | (big) "d \<noteq> []" "L \<le> int (length d)"
    | (over) "d \<noteq> []" "int (length d) < L" "L < ?n"
    | (full) "d \<noteq> []" "int (length d) < L" "?n = L"
    | (room) "d \<noteq> []" "int (length d) < L" "?n < L" by linarith
  then show ?thesis
  proof cases
    case empty
    with assms show ?thesis by (simp add: append_by_size_def pack_step_def incDataInBytesBy_def)
  next
    case big
    with app lim obtain acc1 w1 where
      f: "flush_by_size exec rest bySizeFlushType ?acc0 w = Ret (acc1, w1)" and
      e: "enqueueOnNext_by_size exec rest d acc1 w1 = Ret (acc', w')"
      by (auto simp: append_by_size_def Let_def go_ret_iff)
    from flush_by_size_spec[OF assms(1) ok0 f] enqueueOnNext_by_size_spec[OF _ e] big
    show ?thesis by (auto simp: pack_step_def Let_def by_size_ok_def dest: sent_metrics_append)
  next
    case over
    with app lim obtain acc1 w1 where
      f: "flush_by_size exec rest bySizeFlushType ?acc0 w = Ret (acc1, w1)" and
      r: "(if ?n = limitOfBytes acc1 then
             flush_by_size exec rest bySizeFlushType (acc1\<lparr>current := current acc1 @ [d]\<rparr>) w1
           else Ret (acc1\<lparr>current := current acc1 @ [d]\<rparr>, w1)) = Ret (acc', w')"
      by (auto simp: append_by_size_def Let_def go_ret_iff currentBufferLen_group_len)
    from over have "current acc \<noteq> []" by auto
    with flush_by_size_spec[OF assms(1) ok0 f] over r show ?thesis
      by (auto simp: pack_step_def Let_def by_size_ok_def)
  next
    case full
    let ?acc1 = "?acc0\<lparr>current := current acc @ [d]\<rparr>"
    from full app lim have f: "flush_by_size exec rest bySizeFlushType ?acc1 w = Ret (acc', w')"
      by (simp add: append_by_size_def Let_def currentBufferLen_group_len)
    have "by_size_ok L sep ?acc1" using ok by (simp add: by_size_ok_def)
    from flush_by_size_spec[OF assms(1) this f] full
    show ?thesis by (simp add: pack_step_def Let_def by_size_ok_def)
  next
    case room
    with app lim ok assms(1) show ?thesis
      by (auto simp: append_by_size_def Let_def currentBufferLen_group_len pack_step_def by_size_ok_def)
  qed
qed

end

text \<open>The data counters after \<open>hs\<close> has been handled and \<open>ds\<close> sent on.\<close>

definition counters_match :: "bytes list \<Rightarrow> bytes list \<Rightarrow> acc_metrics \<Rightarrow> bool" where
  "counters_match ds hs m \<longleftrightarrow>
     sent_metrics ds
       (newMetricCollector\<lparr>dataSizeInBytesCounter := (\<Sum>h\<leftarrow>hs. int (length h)),
          dataSizeInKBsCounter := of_int (\<Sum>h\<leftarrow>hs. int (length h)) / 1024\<rparr>) m"

lemma counters_match_new [simp]:
  "counters_match [] [] (metrics_queueCapacity n newMetricCollector)"
  by (simp add: counters_match_def sent_metrics_def newMetricCollector_def metrics_queueCapacity_def)

lemma counters_match_step:
  "counters_match ds hs m \<Longrightarrow> sent_metrics es (incDataInBytesBy (int (length d)) m) m' \<Longrightarrow>
   counters_match (ds @ es) (hs @ [d]) m'"
  by (auto simp: counters_match_def sent_metrics_def incDataInBytesBy_def newMetricCollector_def
      add_divide_distrib)

lemma counters_match_flush:
  "counters_match ds hs m \<Longrightarrow> sent_metrics es m m' \<Longrightarrow> counters_match (ds @ es) hs m'"
  unfolding counters_match_def by (rule sent_metrics_append)

lemma counters_match_other [simp]:
  "counters_match ds hs (metrics_enqueuedItems n m) = counters_match ds hs m"
  "counters_match ds hs (increaseEnqueueCounter m) = counters_match ds hs m"
  "counters_match ds hs (incEnqueueFailed m) = counters_match ds hs m"
  by (simp_all add: counters_match_def sent_metrics_def metrics_enqueuedItems_def
      increaseEnqueueCounter_def incEnqueueFailed_def)

subsection \<open>The goroutine refines the packing\<close>

text \<open>
  After having handled \<open>hs\<close>, the accumulator has sent on the complete groups of \<open>pack hs\<close>, merged,
  in order, and holds the open one; \<open>doneChan\<close> is open.  When it has finished it has also sent
  the open group, and \<open>doneChan\<close> is closed.
\<close>

definition by_size_relates ::
  "('w \<Rightarrow> bytes list) \<Rightarrow> ('w \<Rightarrow> bool) \<Rightarrow> bytes list \<Rightarrow> int \<Rightarrow> bytes \<Rightarrow>
   bytes list \<Rightarrow> by_size \<Rightarrow> 'w \<Rightarrow> bool" where
  "by_size_relates taken good base L sep hs acc w \<longleftrightarrow>
     by_size_ok L sep acc \<and> good w \<and>
     doneChan acc = Some \<lparr>chan_cap = 0, chan_buf = [], chan_closed = False\<rparr> \<and>
     taken w = base @ map (join_bytes sep) (fst (pack L (int (length sep)) hs)) \<and>
     current acc = snd (pack L (int (length sep)) hs) \<and>
     counters_match (map (join_bytes sep) (fst (pack L (int (length sep)) hs))) hs (metrics acc)"

definition by_size_complete ::
  "('w \<Rightarrow> bytes list) \<Rightarrow> ('w \<Rightarrow> bool) \<Rightarrow> bytes list \<Rightarrow> int \<Rightarrow> bytes \<Rightarrow>
   bytes list \<Rightarrow> by_size \<Rightarrow> 'w \<Rightarrow> bool" where
  "by_size_complete taken good base L sep hs acc w \<longleftrightarrow>
     good w \<and> current acc = [] \<and>
     doneChan acc = Some \<lparr>chan_cap = 0, chan_buf = [], chan_closed = True\<rparr> \<and>
     taken w = base @ map (join_bytes sep) (fst (flushed (pack L (int (length sep)) hs))) \<and>
     counters_match (map (join_bytes sep) (fst (flushed (pack L (int (length sep)) hs)))) hs
       (metrics acc)"

lemma by_size_relates_flags [simp]:
  "by_size_relates taken good base L sep hs (acc\<lparr>internalDataChan := ch\<rparr>) w =
   by_size_relates taken good base L sep hs acc w"
  "by_size_relates taken good base L sep hs (setShutdown_by_size acc) w =
   by_size_relates taken good base L sep hs acc w"
  by (simp_all add: by_size_relates_def by_size_ok_def setShutdown_by_size_def)

lemma shuttingDown_setShutdown [simp]:
  "shuttingDown (setShutdown_by_size acc)"
  "internalDataChan (setShutdown_by_size acc) = internalDataChan acc"
  by (simp_all add: setShutdown_by_size_def)

lemma Enqueue_by_size_cases:
  "Enqueue_by_size rdy acc d = Ret (acc', err) \<Longrightarrow>
     limitOfBytes acc' = limitOfBytes acc \<and> separator acc' = separator acc \<and>
     separatorLen acc' = separatorLen acc \<and> current acc' = current acc \<and>
     shuttingDown acc' = shuttingDown acc \<and> doneChan acc' = doneChan acc \<and>
     (err = None \<longrightarrow> \<not> shuttingDown acc \<and>
        chan_try_send rdy (internalDataChan acc) d = Ret (internalDataChan acc', True)) \<and>
     (err \<noteq> None \<longrightarrow> internalDataChan acc' = internalDataChan acc) \<and>
     (\<forall>ds hs. counters_match ds hs (metrics acc') = counters_match ds hs (metrics acc))"
  by (auto simp: Enqueue_by_size_def updateEnqueuedItemsMetric_by_size_def go_ret_iff Let_def
      split: if_splits)

lemma Enqueue_by_size_flagged:
  "shuttingDown acc \<Longrightarrow> Enqueue_by_size rdy acc d = Ret (acc, Some (Error ''accumulator shutting down''))"
  by (simp add: Enqueue_by_size_def)

lemma Enqueue_by_size_open:
  assumes "\<not> chan_closed (internalDataChan acc)"
  shows "go_returns (Enqueue_by_size rdy acc d)"
  using chan_try_send_returns[OF assms, of rdy d]
  by (auto simp: Enqueue_by_size_def go_returns_iff Let_def)

lemma handle_by_size_frame:
  "handle_by_size exec rest d acc w = Ret (acc', w') \<Longrightarrow>
   internalDataChan acc' = internalDataChan acc \<and> shuttingDown acc' = shuttingDown acc"
  by (auto simp: handle_by_size_def go_ret_iff updateEnqueuedItemsMetric_by_size_def
      by_size_same_chan_def dest: append_by_size_frame)

lemma pack_fits: "fits L (int (length sep)) (snd (pack L (int (length sep)) hs))"
  using pack_packed[of "int (length sep)" L hs] by (simp add: packed_def)

context next_stage
begin

lemma handle_by_size_spec:
  assumes "by_size_relates taken good base L sep hs acc w"
    and "handle_by_size exec rest d acc w = Ret (acc', w')"
  shows "by_size_relates taken good base L sep (hs @ [d]) acc' w' \<and>
    internalDataChan acc' = internalDataChan acc \<and> shuttingDown acc' = shuttingDown acc"
proof -
  obtain acc1 where a: "append_by_size exec rest d acc w = Ret (acc1, w')"
    and eq: "acc' = updateEnqueuedItemsMetric_by_size acc1"
    using assms(2) by (auto simp: handle_by_size_def go_ret_iff)
  have "fits L (int (length sep)) (current acc)"
    using assms(1) pack_fits by (simp add: by_size_relates_def)
  from append_by_size_spec[OF _ _ this a] append_by_size_frame[OF a] assms(1)
    pack_step_prefix[of L "int (length sep)" "fst (pack L (int (length sep)) hs)"
      "snd (pack L (int (length sep)) hs)" d]
  show ?thesis
    by (auto simp: by_size_relates_def eq by_size_ok_def by_size_same_chan_def pack_snoc
        updateEnqueuedItemsMetric_by_size_def Let_def intro: counters_match_step)
qed

lemma finish_by_size_spec:
  assumes "by_size_relates taken good base L sep hs acc w"
    and "flush_by_size exec rest typ acc w = Ret (acc', w')"
  shows "by_size_complete taken good base L sep hs (closeDone_by_size acc') w' \<and>
    internalDataChan acc' = internalDataChan acc \<and> shuttingDown acc' = shuttingDown acc"
  using flush_by_size_spec[of w L sep acc "typ" acc' w'] flush_by_size_frame[OF assms(2)] assms
  by (auto simp: by_size_relates_def by_size_complete_def closeDone_by_size_def Let_def
      by_size_same_chan_def flushed_def
      intro: counters_match_flush counters_match_flush[where es = "[]", simplified])

text \<open>\<open>shutdown\<close> run to its end: everything buffered is handled, then the open group is flushed.\<close>

lemma shutdown_by_size_spec:
  assumes rel: "by_size_relates taken good base L sep hs acc w"
    and "\<not> chan_closed (internalDataChan acc)"
    and sh: "shutdown_by_size exec rest acc w = Ret (acc', w')"
  shows "by_size_complete taken good base L sep (hs @ chan_buf (internalDataChan acc))
      (closeDone_by_size acc') w' \<and> chan_buf (internalDataChan acc') = [] \<and> shuttingDown acc'"
proof -
  let ?ch = "(internalDataChan acc)\<lparr>chan_closed := True\<rparr>"
  let ?I = "\<lambda>hs (acc, w). by_size_relates taken good base L sep hs acc w \<and> shuttingDown acc"
  obtain ch acc1 w1 where
    dr: "drain (\<lambda>ch d (acc, w). handle_by_size exec rest d (acc\<lparr>internalDataChan := ch\<rparr>) w)
       ?ch (setShutdown_by_size acc, w) = Ret (ch, acc1, w1)" and
    fl: "flush_by_size exec rest byShutdownFlushType (acc1\<lparr>internalDataChan := ch\<rparr>) w1 = Ret (acc', w')"
    using sh assms(2)
    by (auto simp: shutdown_by_size_def Let_def go_ret_iff)
  have "ch = ?ch\<lparr>chan_buf := []\<rparr> \<and> ?I (hs @ chan_buf ?ch) (acc1, w1)"
  proof (rule drain_closed_rule[OF _ _ _ dr])
    fix hs d ch s s'
    assume I: "?I hs s" and h: "(case s of (acc, w) \<Rightarrow>
      handle_by_size exec rest d (acc\<lparr>internalDataChan := ch\<rparr>) w) = Ret s'"
    obtain a v a' v' where s: "s = (a, v)" "s' = (a', v')" by (cases s, cases s')
    with h have "handle_by_size exec rest d (a\<lparr>internalDataChan := ch\<rparr>) v = Ret (a', v')" by simp
    from handle_by_size_spec[OF _ this, of base L sep hs] I
    show "?I (hs @ [d]) s'" by (auto simp: s)
  qed (use rel in auto)
  moreover from this have "by_size_relates taken good base L sep (hs @ chan_buf ?ch)
      (acc1\<lparr>internalDataChan := ch\<rparr>) w1" by simp
  ultimately show ?thesis using finish_by_size_spec[OF _ fl] by auto
qed

end

locale accumulating = next_stage exec rest taken good
  for exec :: "'w \<Rightarrow> bytes \<Rightarrow> ('w \<times> error option) go"
    and rest :: "'w \<Rightarrow> 'w" and taken :: "'w \<Rightarrow> bytes list" and good :: "'w \<Rightarrow> bool" +
  fixes env :: "'w \<Rightarrow> 'w \<Rightarrow> bool"
    and base :: "bytes list"
    and L :: int
    and sep :: bytes
  assumes env_keeps: "good w \<Longrightarrow> env w w' \<Longrightarrow> good w' \<and> taken w' = taken w"

sublocale accumulating \<subseteq> sz: stage "by_size_ops exec rest env"
  "by_size_relates taken good base L sep" "by_size_complete taken good base L sep"
proof (unfold_locales, goal_cases)
  case (5 c rdy d)
  then show ?case by (simp add: by_size_ops_def Enqueue_by_size_flagged)
next
  case (6 c rdy d)
  then show ?case by (simp add: by_size_ops_def Enqueue_by_size_open)
next
  case (7 rdy c d c')
  then show ?case by (auto simp: by_size_ops_def dest: Enqueue_by_size_cases)
next
  case (8 rdy c d c' e)
  then show ?case by (auto simp: by_size_ops_def dest: Enqueue_by_size_cases)
next
  case (9 now d c w c' w')
  then show ?case by (auto simp: by_size_ops_def dest: handle_by_size_frame)
next
  case (11 c w c' w')
  then show ?case by (auto simp: by_size_ops_def go_ret_iff closeDone_by_size_def
      by_size_same_chan_def dest: flush_by_size_frame)
next
  case (12 hs c w rdy d c' err)
  then show ?case
    by (auto simp: by_size_ops_def by_size_relates_def by_size_ok_def dest: Enqueue_by_size_cases)
next
  case (13 hs c w ch)
  then show ?case by (simp add: by_size_ops_def)
next
  case (14 hs c w)
  then show ?case by (simp add: by_size_ops_def)
next
  case (15 hs c w now d c' w')
  then show ?case by (auto simp: by_size_ops_def dest: handle_by_size_spec)
next
  case (17 hs c w w')
  then show ?case by (auto simp: by_size_ops_def by_size_relates_def dest: env_keeps)
next
  case (18 hs c w c' w')
  then show ?case by (auto simp: by_size_ops_def go_ret_iff dest: finish_by_size_spec)
next
  case (19 hs c w w')
  then show ?case by (auto simp: by_size_ops_def by_size_complete_def dest: env_keeps)
next
  case (20 hs c w rdy d c' err)
  then show ?case
    by (auto simp: by_size_ops_def by_size_complete_def dest: Enqueue_by_size_cases)
qed (auto simp: by_size_ops_def)

end
