(* ===== verification/Accumulator_Time.thy ===== *)
theory Accumulator_Time
  imports Accumulator_Size
begin

text \<open>
  The accumulator by time and size: pkg/accumulator/accumulator_by_time_n_size.go.  The source
  repeats the accumulator by size and adds a timer.  The record \<open>by_time\<close> extends \<open>by_size\<close> with
  the two fields that the timer uses; the operations are translated again, as the source has
  them, and proved to do to the common fields what the operations by size do.
\<close>

subsection \<open>Time\<close>

text \<open>
  A \<open>time.Time\<close> is the number of nanoseconds since Go's zero time, a \<open>time.Duration\<close> a number of
  nanoseconds in an int64; \<open>t.Sub(u)\<close> saturates.
\<close>

definition maxDuration :: int where "maxDuration = 2 ^ 63 - 1"
definition minDuration :: int where "minDuration = - (2 ^ 63)"

definition time_IsZero :: "int \<Rightarrow> bool" where "time_IsZero t \<longleftrightarrow> t = 0"

definition time_Sub :: "int \<Rightarrow> int \<Rightarrow> int" where
  "time_Sub t u = (if maxDuration < t - u then maxDuration
                   else if t - u < minDuration then minDuration else t - u)"

definition byTimeoutFlushType :: string where "byTimeoutFlushType = ''time''"

subsection \<open>State and operations\<close>

record by_time = by_size +
  oldestDataTime :: int
  forceFlushAfter :: int

definition NewAccumulatorByTimeAndSize :: "int \<Rightarrow> bytes \<Rightarrow> int \<Rightarrow> int \<Rightarrow> by_time go" where
  "NewAccumulatorByTimeAndSize limit sep queueCapacity forceFlush =
     (if limit \<le> 1 then Panic ''limit of bytes in accumulator should be >= 2''
      else if limit \<le> int (length sep) then
        Panic ''separator length in bytes should be smaller than limit''
      else if queueCapacity < MinQueueCapacity then
        Panic ''the accumulator capacity cannot be less than 2''
      else go_bind (make_chan queueCapacity) (\<lambda>ch.
        Ret \<lparr>limitOfBytes = limit, separator = sep, separatorLen = int (length sep),
             internalDataChan = ch, current = [],
             metrics = metrics_queueCapacity queueCapacity newMetricCollector,
             shuttingDown = False, doneChan = None,
             oldestDataTime = 0, forceFlushAfter = forceFlush\<rparr>))"

definition updateEnqueuedItemsMetric_by_time :: "by_time \<Rightarrow> by_time" where
  "updateEnqueuedItemsMetric_by_time acc =
     acc\<lparr>metrics :=
       metrics_enqueuedItems (int (length (chan_buf (internalDataChan acc)))) (metrics acc)\<rparr>"

definition Enqueue_by_time :: "bool \<Rightarrow> by_time \<Rightarrow> bytes \<Rightarrow> (by_time \<times> error option) go" where
  "Enqueue_by_time rdy acc d =
     (if shuttingDown acc then Ret (acc, Some (Error ''accumulator shutting down''))
      else
        let acc = acc\<lparr>metrics := increaseEnqueueCounter (metrics acc)\<rparr> in
        go_bind (chan_try_send rdy (internalDataChan acc) d) (\<lambda>(ch, sent).
          if sent then
            Ret (updateEnqueuedItemsMetric_by_time (acc\<lparr>internalDataChan := ch\<rparr>), None)
          else
            Ret (acc\<lparr>metrics := incEnqueueFailed (metrics acc)\<rparr>,
                 Some (Error ''enqueueing data on the accumulator failed, queue is full''))))"

definition currentBufferLen_by_time :: "by_time \<Rightarrow> int" where
  "currentBufferLen_by_time acc =
     bufferLenLoop (separatorLen acc) (current acc) 0 - separatorLen acc"

definition enqueueOnNext_by_time ::
  "('w \<Rightarrow> bytes \<Rightarrow> ('w \<times> error option) go) \<Rightarrow> ('w \<Rightarrow> 'w) \<Rightarrow> bytes \<Rightarrow> by_time \<Rightarrow> 'w \<Rightarrow>
   (by_time \<times> 'w) go" where
  "enqueueOnNext_by_time exec rest d acc w =
     go_bind (deliver exec rest d w) (\<lambda>w'.
       Ret (acc\<lparr>metrics := increaseNextCounter (incDataOutBytesBy (int (length d)) (metrics acc))\<rparr>,
            w'))"

definition flush_by_time ::
  "('w \<Rightarrow> bytes \<Rightarrow> ('w \<times> error option) go) \<Rightarrow> ('w \<Rightarrow> 'w) \<Rightarrow> string \<Rightarrow> by_time \<Rightarrow> 'w \<Rightarrow>
   (by_time \<times> 'w) go" where
  "flush_by_time exec rest typeOfFlush acc w =
     (if current acc = [] then Ret (acc, w)
      else
        go_bind (mergeChunks (separator acc) (current acc) (currentBufferLen_by_time acc))
          (\<lambda>mergedData.
        go_bind (enqueueOnNext_by_time exec rest mergedData acc w) (\<lambda>(acc, w).
          let acc = acc\<lparr>current := []\<rparr>; acc = acc\<lparr>oldestDataTime := 0\<rparr> in
          Ret (acc\<lparr>metrics := increaseFlushCounter typeOfFlush (metrics acc)\<rparr>, w))))"

text \<open>\<open>now\<close> is what \<open>currentTimeProvider()\<close> returns in this call.\<close>

definition append_by_time ::
  "('w \<Rightarrow> bytes \<Rightarrow> ('w \<times> error option) go) \<Rightarrow> ('w \<Rightarrow> 'w) \<Rightarrow> int \<Rightarrow> bytes \<Rightarrow> by_time \<Rightarrow> 'w \<Rightarrow>
   (by_time \<times> 'w) go" where
  "append_by_time exec rest now d acc w =
     (let dataLen = int (length d) in
      if dataLen = 0 then Ret (acc, w)
      else
        let acc = acc\<lparr>metrics := incDataInBytesBy dataLen (metrics acc)\<rparr> in
        if limitOfBytes acc \<le> dataLen then
          go_bind (flush_by_time exec rest bySizeFlushType acc w) (\<lambda>(acc, w).
            enqueueOnNext_by_time exec rest d acc w)
        else
          let bufferLenAfterAppend =
                currentBufferLen_by_time acc + separatorLen acc + dataLen in
          go_bind
            (if limitOfBytes acc < bufferLenAfterAppend
             then flush_by_time exec rest bySizeFlushType acc w else Ret (acc, w)) (\<lambda>(acc, w).
          let acc = acc\<lparr>current := current acc @ [d]\<rparr>; acc = acc\<lparr>oldestDataTime := now\<rparr> in
          if bufferLenAfterAppend = limitOfBytes acc
          then flush_by_time exec rest bySizeFlushType acc w else Ret (acc, w)))"

text \<open>\<open>case currentTime := <-timeCheckTicker.C\<close>\<close>

definition tick_by_time ::
  "('w \<Rightarrow> bytes \<Rightarrow> ('w \<times> error option) go) \<Rightarrow> ('w \<Rightarrow> 'w) \<Rightarrow> int \<Rightarrow> by_time \<Rightarrow> 'w \<Rightarrow>
   (by_time \<times> 'w) go" where
  "tick_by_time exec rest currentTime acc w =
     (if \<not> time_IsZero (oldestDataTime acc) \<and>
         forceFlushAfter acc \<le> time_Sub currentTime (oldestDataTime acc)
      then flush_by_time exec rest byTimeoutFlushType acc w
      else Ret (acc, w))"

definition startRun_by_time :: "by_time \<Rightarrow> by_time" where
  "startRun_by_time acc =
     acc\<lparr>doneChan := Some \<lparr>chan_cap = 0, chan_buf = [], chan_closed = False\<rparr>\<rparr>"

definition closeDone_by_time :: "by_time \<Rightarrow> by_time" where
  "closeDone_by_time acc =
     acc\<lparr>doneChan := map_option (\<lambda>ch. ch\<lparr>chan_closed := True\<rparr>) (doneChan acc)\<rparr>"

definition Done_by_time :: "by_time \<Rightarrow> unit gochan option" where
  "Done_by_time acc = doneChan acc"

definition handle_by_time ::
  "('w \<Rightarrow> bytes \<Rightarrow> ('w \<times> error option) go) \<Rightarrow> ('w \<Rightarrow> 'w) \<Rightarrow> int \<Rightarrow> bytes \<Rightarrow> by_time \<Rightarrow> 'w \<Rightarrow>
   (by_time \<times> 'w) go" where
  "handle_by_time exec rest now d acc w =
     go_bind (append_by_time exec rest now d acc w) (\<lambda>(acc, w).
       Ret (updateEnqueuedItemsMetric_by_time acc, w))"

definition setShutdown_by_time :: "by_time \<Rightarrow> by_time" where
  "setShutdown_by_time acc = acc\<lparr>shuttingDown := True\<rparr>"

text \<open>\<open>clock\<close>: what the time provider returns while the payload is appended.\<close>

definition shutdown_by_time ::
  "('w \<Rightarrow> bytes \<Rightarrow> ('w \<times> error option) go) \<Rightarrow> ('w \<Rightarrow> 'w) \<Rightarrow> ('w \<Rightarrow> int) \<Rightarrow> by_time \<Rightarrow> 'w \<Rightarrow>
   (by_time \<times> 'w) go" where
  "shutdown_by_time exec rest clock acc w =
     (let acc = setShutdown_by_time acc in
      go_bind (chan_close (internalDataChan acc)) (\<lambda>ch.
      go_bind (drain (\<lambda>ch d (acc, w).
                 handle_by_time exec rest (clock w) d (acc\<lparr>internalDataChan := ch\<rparr>) w)
                 ch (acc, w)) (\<lambda>(ch, acc, w).
        flush_by_time exec rest byShutdownFlushType (acc\<lparr>internalDataChan := ch\<rparr>) w)))"

definition by_time_ops ::
  "('w \<Rightarrow> bytes \<Rightarrow> ('w \<times> error option) go) \<Rightarrow> ('w \<Rightarrow> 'w) \<Rightarrow> ('w \<Rightarrow> 'w \<Rightarrow> bool) \<Rightarrow>
   (by_time, bytes, 'w) stage_ops" where
  "by_time_ops exec rest env =
     \<lparr>op_enqueue = Enqueue_by_time,
      op_chan = internalDataChan,
      op_set_chan = (\<lambda>ch acc. acc\<lparr>internalDataChan := ch\<rparr>),
      op_shutting_down = shuttingDown,
      op_set_shutdown = setShutdown_by_time,
      op_handle = (\<lambda>now d acc w. handle_by_time exec rest now d acc w),
      op_tick = (\<lambda>now acc w. tick_by_time exec rest now acc w),
      op_finish = (\<lambda>acc w.
        go_bind (flush_by_time exec rest byShutdownFlushType acc w) (\<lambda>(acc, w).
          Ret (closeDone_by_time acc, w))),
      op_env = env\<rparr>"

subsection \<open>The common fields: the operations by size\<close>

text \<open>
  \<open>as_by_size\<close> forgets the timer.  Each operation commutes with it, whatever the clock says; only
  \<open>tick\<close> has no counterpart.
\<close>

definition as_by_size :: "by_time \<Rightarrow> by_size" where
  "as_by_size acc = by_size.truncate acc"

definition forget_timer :: "by_time \<times> 'w \<Rightarrow> by_size \<times> 'w" where
  "forget_timer = map_prod as_by_size id"

definition go_map :: "('a \<Rightarrow> 'b) \<Rightarrow> 'a go \<Rightarrow> 'b go" where
  "go_map f m = go_bind m (\<lambda>x. Ret (f x))"

lemma go_map_simps [simp]:
  "go_map f (Ret x) = Ret (f x)" "go_map f Block = Block" "go_map f (Panic m) = Panic m"
  by (simp_all add: go_map_def)

lemma go_map_bind: "go_map f (go_bind m g) = go_bind m (\<lambda>x. go_map f (g x))"
  by (cases m) simp_all

lemma go_bind_map: "go_bind (go_map f m) g = go_bind m (\<lambda>x. g (f x))"
  by (cases m) simp_all

lemma as_by_size_fields [simp]:
  "limitOfBytes (as_by_size acc) = limitOfBytes acc"
  "separator (as_by_size acc) = separator acc"
  "separatorLen (as_by_size acc) = separatorLen acc"
  "internalDataChan (as_by_size acc) = internalDataChan acc"
  "current (as_by_size acc) = current acc"
  "metrics (as_by_size acc) = metrics acc"
  "shuttingDown (as_by_size acc) = shuttingDown acc"
  "doneChan (as_by_size acc) = doneChan acc"
  by (simp_all add: as_by_size_def by_size.truncate_def)

lemma as_by_size_updates [simp]:
  "as_by_size (acc\<lparr>internalDataChan := ch\<rparr>) = (as_by_size acc)\<lparr>internalDataChan := ch\<rparr>"
  "as_by_size (acc\<lparr>current := cs\<rparr>) = (as_by_size acc)\<lparr>current := cs\<rparr>"
  "as_by_size (acc\<lparr>metrics := m\<rparr>) = (as_by_size acc)\<lparr>metrics := m\<rparr>"
  "as_by_size (acc\<lparr>shuttingDown := b\<rparr>) = (as_by_size acc)\<lparr>shuttingDown := b\<rparr>"
  "as_by_size (acc\<lparr>doneChan := dc\<rparr>) = (as_by_size acc)\<lparr>doneChan := dc\<rparr>"
  "as_by_size (acc\<lparr>oldestDataTime := t\<rparr>) = as_by_size acc"
  by (simp_all add: as_by_size_def by_size.truncate_def)

lemma forget_timer_pair [simp]: "forget_timer (acc, w) = (as_by_size acc, w)"
  by (simp add: forget_timer_def)

lemma update_forget [simp]:
  "as_by_size (updateEnqueuedItemsMetric_by_time acc) =
   updateEnqueuedItemsMetric_by_size (as_by_size acc)"
  by (simp add: updateEnqueuedItemsMetric_by_time_def updateEnqueuedItemsMetric_by_size_def)

lemma New_forget:
  "go_map as_by_size (NewAccumulatorByTimeAndSize limit sep cap f) =
   NewAccumulatorBySize limit sep cap"
  by (simp add: NewAccumulatorByTimeAndSize_def NewAccumulatorBySize_def go_map_bind)
     (simp add: as_by_size_def by_size.truncate_def)

lemma Enqueue_forget:
  "go_map forget_timer (Enqueue_by_time rdy acc d) = Enqueue_by_size rdy (as_by_size acc) d"
  by (cases "chan_try_send rdy (internalDataChan acc) d")
     (auto simp: Enqueue_by_time_def Enqueue_by_size_def Let_def split: prod.split)

lemma enqueueOnNext_forget:
  "go_map forget_timer (enqueueOnNext_by_time exec rest d acc w) =
   enqueueOnNext_by_size exec rest d (as_by_size acc) w"
  by (simp add: enqueueOnNext_by_time_def enqueueOnNext_by_size_def go_map_bind)

lemma currentBufferLen_forget [simp]:
  "currentBufferLen_by_size (as_by_size acc) = currentBufferLen_by_time acc"
  by (simp add: currentBufferLen_by_size_def currentBufferLen_by_time_def)

lemma flush_forget:
  "go_map forget_timer (flush_by_time exec rest typ acc w) =
   flush_by_size exec rest typ (as_by_size acc) w"
  by (simp add: flush_by_time_def flush_by_size_def go_map_bind case_prod_beta Let_def
      flip: enqueueOnNext_forget)
     (simp add: go_bind_map case_prod_beta forget_timer_def)

lemma flush_ignores_timer:
  "go_map forget_timer (flush_by_time exec rest typ (acc\<lparr>oldestDataTime := t\<rparr>) w) =
   go_map forget_timer (flush_by_time exec rest typ acc w)"
  by (simp add: flush_forget)

lemma go_map_if: "go_map f (if b then x else y) = (if b then go_map f x else go_map f y)"
  by simp

lemma append_forget:
  "go_map forget_timer (append_by_time exec rest now d acc w) =
   append_by_size exec rest d (as_by_size acc) w"
proof -
  have t: "forget_timer x = (as_by_size (fst x), snd x)" for x :: "by_time \<times> 'w"
    by (cases x) simp
  have m: "(as_by_size a)\<lparr>metrics := k\<rparr> = as_by_size (a\<lparr>metrics := k\<rparr>)" for a k by simp
  have c: "(as_by_size a)\<lparr>current := k\<rparr> = as_by_size (a\<lparr>current := k\<rparr>)" for a k by simp
  have o: "as_by_size (a\<lparr>oldestDataTime := k\<rparr>) = as_by_size a" for a k by simp
  have u: "a\<lparr>current := cs, oldestDataTime := now\<rparr> = (a\<lparr>current := cs\<rparr>)\<lparr>oldestDataTime := now\<rparr>"
    for a :: by_time and cs by simp
  note fields = as_by_size_fields currentBufferLen_forget
  show ?thesis
    unfolding append_by_time_def append_by_size_def Let_def fields m go_map_if
      flush_forget[symmetric] enqueueOnNext_forget[symmetric]
    by (simp only: go_map_bind go_bind_map go_map_if go_map_simps case_prod_beta t fst_conv snd_conv
        fields m c o flush_ignores_timer flush_forget[symmetric] enqueueOnNext_forget[symmetric]
        if_distrib[of "\<lambda>z. go_bind z _"] go_bind.simps cong: if_cong)
       (simp del: as_by_size_updates cong: if_cong)
qed

lemma handle_forget:
  "go_map forget_timer (handle_by_time exec rest now d acc w) =
   handle_by_size exec rest d (as_by_size acc) w"
  by (simp add: handle_by_time_def handle_by_size_def go_map_bind case_prod_beta
      flip: append_forget[of exec rest now])
     (simp add: go_bind_map case_prod_beta forget_timer_def)

text \<open>So what an operation returns, the operation by size returns on the common fields.\<close>

lemma by_size_of_by_time:
  "append_by_time exec rest now d acc w = Ret (acc', w') \<Longrightarrow>
     append_by_size exec rest d (as_by_size acc) w = Ret (as_by_size acc', w')"
  "flush_by_time exec rest typ acc w = Ret (acc', w') \<Longrightarrow>
     flush_by_size exec rest typ (as_by_size acc) w = Ret (as_by_size acc', w')"
  "Enqueue_by_time rdy acc d = Ret (acc', err) \<Longrightarrow>
     Enqueue_by_size rdy (as_by_size acc) d = Ret (as_by_size acc', err)"
  using append_forget[of exec rest now d acc w] flush_forget[of exec rest "typ" acc w]
    Enqueue_forget[of rdy acc d] by simp_all

subsection \<open>The timer\<close>

text \<open>
  An empty buffer has no time.  \<open>oldestDataTime\<close> of a buffer that is not empty is the time of the
  last payload appended to it.
\<close>

definition timer_ok :: "by_time \<Rightarrow> bool" where
  "timer_ok acc \<longleftrightarrow> (current acc = [] \<longrightarrow> oldestDataTime acc = 0)"

lemma enqueueOnNext_by_time_timer:
  "enqueueOnNext_by_time exec rest d acc w = Ret (acc', w') \<Longrightarrow>
   current acc' = current acc \<and> oldestDataTime acc' = oldestDataTime acc \<and>
   forceFlushAfter acc' = forceFlushAfter acc"
  by (auto simp: enqueueOnNext_by_time_def go_ret_iff)

lemma flush_by_time_timer:
  "flush_by_time exec rest typ acc w = Ret (acc', w') \<Longrightarrow> timer_ok acc \<Longrightarrow>
   current acc' = [] \<and> oldestDataTime acc' = 0 \<and> forceFlushAfter acc' = forceFlushAfter acc"
  by (auto simp: flush_by_time_def go_ret_iff timer_ok_def Let_def enqueueOnNext_by_time_def
      split: if_splits)

lemma timer_ok_metrics [simp]: "timer_ok (acc\<lparr>metrics := m\<rparr>) = timer_ok acc"
  by (simp add: timer_ok_def)

lemma append_by_time_timer:
  assumes "append_by_time exec rest now d acc w = Ret (acc', w')" and "timer_ok acc"
  shows "timer_ok acc' \<and> forceFlushAfter acc' = forceFlushAfter acc \<and>
    (d \<noteq> [] \<longrightarrow> current acc' \<noteq> [] \<longrightarrow> oldestDataTime acc' = now)"
proof -
  let ?acc = "acc\<lparr>metrics := incDataInBytesBy (int (length d)) (metrics acc)\<rparr>"
  let ?n = "currentBufferLen_by_time ?acc + separatorLen acc + int (length d)"
  have ok: "timer_ok ?acc" using assms(2) by simp
  have tail: "timer_ok a' \<and> forceFlushAfter a' = forceFlushAfter a \<and>
      (current a' \<noteq> [] \<longrightarrow> oldestDataTime a' = now)"
    if "(if ?n = limitOfBytes a then flush_by_time exec rest bySizeFlushType
           (a\<lparr>current := current a @ [d], oldestDataTime := now\<rparr>) v
         else Ret (a\<lparr>current := current a @ [d], oldestDataTime := now\<rparr>, v)) = Ret (a', v')"
    for a v a' v'
    using that by (auto simp: timer_ok_def split: if_splits dest: flush_by_time_timer)
  consider "d = []" | "d \<noteq> []" "limitOfBytes acc \<le> int (length d)"
    | "d \<noteq> []" "int (length d) < limitOfBytes acc" "limitOfBytes acc < ?n"
    | "d \<noteq> []" "int (length d) < limitOfBytes acc" "?n \<le> limitOfBytes acc" by linarith
  then show ?thesis
  proof cases
    case 1
    with assms show ?thesis by (simp add: append_by_time_def)
  next
    case 2
    with assms(1) obtain a v where
      "flush_by_time exec rest bySizeFlushType ?acc w = Ret (a, v)"
      "enqueueOnNext_by_time exec rest d a v = Ret (acc', w')"
      by (auto simp: append_by_time_def Let_def go_ret_iff)
    from flush_by_time_timer[OF this(1) ok] enqueueOnNext_by_time_timer[OF this(2)]
    show ?thesis by (simp add: timer_ok_def)
  next
    case 3
    with assms(1) obtain a v where
      f: "flush_by_time exec rest bySizeFlushType ?acc w = Ret (a, v)" and
      r: "(if ?n = limitOfBytes a then flush_by_time exec rest bySizeFlushType
           (a\<lparr>current := current a @ [d], oldestDataTime := now\<rparr>) v
         else Ret (a\<lparr>current := current a @ [d], oldestDataTime := now\<rparr>, v)) = Ret (acc', w')"
      by (auto simp: append_by_time_def Let_def go_ret_iff)
    from tail[OF r] flush_by_time_timer[OF f ok] show ?thesis by simp
  next
    case 4
    with assms(1) have "(if ?n = limitOfBytes ?acc then flush_by_time exec rest bySizeFlushType
           (?acc\<lparr>current := current ?acc @ [d], oldestDataTime := now\<rparr>) w
         else Ret (?acc\<lparr>current := current ?acc @ [d], oldestDataTime := now\<rparr>, w)) = Ret (acc', w')"
      by (simp add: append_by_time_def Let_def)
    from tail[OF this] show ?thesis by simp
  qed
qed

lemma tick_by_time_cases:
  "tick_by_time exec rest now acc w = Ret (acc', w') \<Longrightarrow>
     (acc' = acc \<and> w' = w \<and>
        (oldestDataTime acc = 0 \<or> time_Sub now (oldestDataTime acc) < forceFlushAfter acc)) \<or>
     (flush_by_time exec rest byTimeoutFlushType acc w = Ret (acc', w') \<and>
        oldestDataTime acc \<noteq> 0 \<and> forceFlushAfter acc \<le> time_Sub now (oldestDataTime acc))"
  by (auto simp: tick_by_time_def time_IsZero_def split: if_splits)

subsection \<open>The goroutine refines a packing with flushes in between\<close>

definition by_time_relates ::
  "('w \<Rightarrow> bytes list) \<Rightarrow> ('w \<Rightarrow> bool) \<Rightarrow> bytes list \<Rightarrow> int \<Rightarrow> bytes \<Rightarrow>
   bytes list \<Rightarrow> by_time \<Rightarrow> 'w \<Rightarrow> bool" where
  "by_time_relates taken good base L sep hs acc w \<longleftrightarrow>
     by_size_ok L sep (as_by_size acc) \<and> good w \<and>
     doneChan acc = Some \<lparr>chan_cap = 0, chan_buf = [], chan_closed = False\<rparr> \<and> timer_ok acc \<and>
     (\<exists>gs. timed_packing L (int (length sep)) hs (gs, current acc) \<and>
        taken w = base @ map (join_bytes sep) gs \<and>
        counters_match (map (join_bytes sep) gs) hs (metrics acc))"

definition by_time_complete ::
  "('w \<Rightarrow> bytes list) \<Rightarrow> ('w \<Rightarrow> bool) \<Rightarrow> bytes list \<Rightarrow> int \<Rightarrow> bytes \<Rightarrow>
   bytes list \<Rightarrow> by_time \<Rightarrow> 'w \<Rightarrow> bool" where
  "by_time_complete taken good base L sep hs acc w \<longleftrightarrow>
     good w \<and> current acc = [] \<and>
     doneChan acc = Some \<lparr>chan_cap = 0, chan_buf = [], chan_closed = True\<rparr> \<and>
     (\<exists>gs. timed_packing L (int (length sep)) hs (gs, []) \<and>
        taken w = base @ map (join_bytes sep) gs \<and>
        counters_match (map (join_bytes sep) gs) hs (metrics acc))"

lemma by_time_relates_flags [simp]:
  "by_time_relates taken good base L sep hs (acc\<lparr>internalDataChan := ch\<rparr>) w =
   by_time_relates taken good base L sep hs acc w"
  "by_time_relates taken good base L sep hs (setShutdown_by_time acc) w =
   by_time_relates taken good base L sep hs acc w"
  by (simp_all add: by_time_relates_def by_size_ok_def setShutdown_by_time_def timer_ok_def)

lemma Enqueue_by_time_cases:
  assumes "Enqueue_by_time rdy acc d = Ret (acc', err)"
  shows "by_size_ok L sep (as_by_size acc') = by_size_ok L sep (as_by_size acc) \<and>
     current acc' = current acc \<and> shuttingDown acc' = shuttingDown acc \<and>
     doneChan acc' = doneChan acc \<and> timer_ok acc' = timer_ok acc \<and>
     (err = None \<longrightarrow> \<not> shuttingDown acc \<and>
        chan_try_send rdy (internalDataChan acc) d = Ret (internalDataChan acc', True)) \<and>
     (err \<noteq> None \<longrightarrow> internalDataChan acc' = internalDataChan acc) \<and>
     (\<forall>ds hs. counters_match ds hs (metrics acc') = counters_match ds hs (metrics acc))"
proof -
  have "oldestDataTime acc' = oldestDataTime acc"
    using assms by (auto simp: Enqueue_by_time_def Let_def go_ret_iff
        updateEnqueuedItemsMetric_by_time_def split: if_splits)
  then show ?thesis
    using Enqueue_by_size_cases[OF by_size_of_by_time(3)[OF assms]]
    by (simp add: by_size_ok_def timer_ok_def)
qed

lemma handle_by_time_frame:
  assumes "handle_by_time exec rest now d acc w = Ret (acc', w')"
  shows "internalDataChan acc' = internalDataChan acc \<and> shuttingDown acc' = shuttingDown acc"
proof -
  have "handle_by_size exec rest d (as_by_size acc) w = Ret (as_by_size acc', w')"
    using handle_forget[of exec rest now d acc w] assms by simp
  from handle_by_size_frame[OF this] show ?thesis by simp
qed

lemma flush_by_time_frame:
  "flush_by_time exec rest typ acc w = Ret (acc', w') \<Longrightarrow>
   internalDataChan acc' = internalDataChan acc \<and> shuttingDown acc' = shuttingDown acc \<and>
   doneChan acc' = doneChan acc"
  using flush_by_size_frame[OF by_size_of_by_time(2)] by (fastforce simp: by_size_same_chan_def)

context next_stage
begin

lemma flush_by_time_spec:
  assumes rel: "by_time_relates taken good base L sep hs acc w"
    and f: "flush_by_time exec rest typ acc w = Ret (acc', w')"
  shows "by_time_relates taken good base L sep hs acc' w' \<and> current acc' = []"
proof -
  obtain gs where gs: "timed_packing L (int (length sep)) hs (gs, current acc)"
    "taken w = base @ map (join_bytes sep) gs"
    "counters_match (map (join_bytes sep) gs) hs (metrics acc)"
    using rel by (auto simp: by_time_relates_def)
  have w: "good w" "by_size_ok L sep (as_by_size acc)" "timer_ok acc"
    using rel by (auto simp: by_time_relates_def)
  note s = flush_by_size_spec[OF w(1,2) by_size_of_by_time(2)[OF f]]
  let ?g = "if current acc = [] then [] else [current acc]"
  have "timed_packing L (int (length sep)) hs (gs @ ?g, [])"
    using timed_packing.flush[OF gs(1)] by (auto simp: flushed_def)
  moreover have "taken w' = base @ map (join_bytes sep) (gs @ ?g)"
    using s gs(2) by (simp add: Let_def split: if_splits)
  moreover have "counters_match (map (join_bytes sep) (gs @ ?g)) hs (metrics acc')"
    using s counters_match_flush[OF gs(3), of "map (join_bytes sep) ?g" "metrics acc'"]
    by (simp add: Let_def split: if_splits)
  ultimately show ?thesis
    using s flush_by_time_frame[OF f] flush_by_time_timer[OF f w(3)] rel
    unfolding by_time_relates_def timer_ok_def by auto
qed

lemma append_by_time_spec:
  assumes rel: "by_time_relates taken good base L sep hs acc w"
    and a: "append_by_time exec rest now d acc w = Ret (acc', w')"
  shows "by_time_relates taken good base L sep (hs @ [d]) acc' w'"
proof -
  let ?sl = "int (length sep)"
  obtain gs where gs: "timed_packing L ?sl hs (gs, current acc)"
    "taken w = base @ map (join_bytes sep) gs"
    "counters_match (map (join_bytes sep) gs) hs (metrics acc)"
    using rel by (auto simp: by_time_relates_def)
  have w: "good w" "by_size_ok L sep (as_by_size acc)" "timer_ok acc"
    using rel by (auto simp: by_time_relates_def)
  have fit: "fits L ?sl (current (as_by_size acc))" using timed_packing_bounded[OF gs(1)] by simp
  note s = append_by_size_spec[OF w(1,2) fit by_size_of_by_time(1)[OF a]]
  let ?n = "fst (pack_step L ?sl ([], current acc) d)"
  have "timed_packing L ?sl (hs @ [d]) (gs @ ?n, current acc')"
    using timed_packing.payload[OF gs(1), of d] s pack_step_prefix[of L ?sl gs "current acc" d]
    by (simp add: Let_def)
  moreover have "taken w' = base @ map (join_bytes sep) (gs @ ?n)"
    using s gs(2) by (simp add: Let_def)
  moreover have "counters_match (map (join_bytes sep) (gs @ ?n)) (hs @ [d]) (metrics acc')"
    using s counters_match_step[OF gs(3), of "map (join_bytes sep) ?n" d "metrics acc'"]
    by (simp add: Let_def)
  ultimately show ?thesis
    using s append_by_size_frame[OF by_size_of_by_time(1)[OF a]] append_by_time_timer[OF a w(3)] rel
    unfolding by_time_relates_def by_size_same_chan_def by auto
qed

lemma handle_by_time_spec:
  assumes "by_time_relates taken good base L sep hs acc w"
    and "handle_by_time exec rest now d acc w = Ret (acc', w')"
  shows "by_time_relates taken good base L sep (hs @ [d]) acc' w'"
proof -
  obtain a where a: "append_by_time exec rest now d acc w = Ret (a, w')"
    and eq: "acc' = updateEnqueuedItemsMetric_by_time a"
    using assms(2) by (auto simp: handle_by_time_def go_ret_iff)
  from append_by_time_spec[OF assms(1) a] show ?thesis
    by (simp add: eq by_time_relates_def updateEnqueuedItemsMetric_by_time_def by_size_ok_def)
qed

lemma tick_by_time_spec:
  "by_time_relates taken good base L sep hs acc w \<Longrightarrow>
   tick_by_time exec rest now acc w = Ret (acc', w') \<Longrightarrow>
   by_time_relates taken good base L sep hs acc' w' \<and>
   internalDataChan acc' = internalDataChan acc \<and> shuttingDown acc' = shuttingDown acc"
  by (auto dest!: tick_by_time_cases dest: flush_by_time_spec flush_by_time_frame)

lemma finish_by_time_spec:
  "by_time_relates taken good base L sep hs acc w \<Longrightarrow>
   flush_by_time exec rest typ acc w = Ret (acc', w') \<Longrightarrow>
   by_time_complete taken good base L sep hs (closeDone_by_time acc') w'"
  using flush_by_time_spec[of base L sep hs acc w "typ" acc' w']
  by (auto simp: by_time_relates_def by_time_complete_def closeDone_by_time_def)

end

sublocale accumulating \<subseteq> tm: stage "by_time_ops exec rest env"
  "by_time_relates taken good base L sep" "by_time_complete taken good base L sep"
proof (unfold_locales, goal_cases)
  case (3 c)
  then show ?case by (simp add: by_time_ops_def setShutdown_by_time_def)
next
  case (4 c)
  then show ?case by (simp add: by_time_ops_def setShutdown_by_time_def)
next
  case (5 c rdy d)
  then show ?case by (simp add: by_time_ops_def Enqueue_by_time_def)
next
  case (6 c rdy d)
  then have "go_returns (Enqueue_by_size rdy (as_by_size c) d)"
    by (simp add: by_time_ops_def Enqueue_by_size_open)
  then show ?case
    by (cases "Enqueue_by_time rdy c d") (simp_all add: by_time_ops_def flip: Enqueue_forget)
next
  case (7 rdy c d c')
  then show ?case
    using Enqueue_by_time_cases[of rdy c d c' None L sep] by (auto simp: by_time_ops_def)
next
  case (8 rdy c d c' e)
  then show ?case
    using Enqueue_by_time_cases[of rdy c d c' "Some e" L sep] by (auto simp: by_time_ops_def)
next
  case (9 now d c w c' w')
  then show ?case by (auto simp: by_time_ops_def dest: handle_by_time_frame)
next
  case (10 now c w c' w')
  then show ?case
    by (auto simp: by_time_ops_def dest!: tick_by_time_cases dest: flush_by_time_frame)
next
  case (11 c w c' w')
  then show ?case
    by (auto simp: by_time_ops_def go_ret_iff closeDone_by_time_def dest: flush_by_time_frame)
next
  case (12 hs c w rdy d c' err)
  then show ?case
    using Enqueue_by_time_cases[of rdy c d c' err L sep]
    by (auto simp: by_time_ops_def by_time_relates_def)
next
  case (13 hs c w ch)
  then show ?case by (simp add: by_time_ops_def)
next
  case (14 hs c w)
  then show ?case by (simp add: by_time_ops_def)
next
  case (15 hs c w now d c' w')
  then show ?case by (auto simp: by_time_ops_def dest: handle_by_time_spec)
next
  case (16 hs c w now c' w')
  then show ?case by (auto simp: by_time_ops_def dest: tick_by_time_spec)
next
  case (17 hs c w w')
  then show ?case using env_keeps[of w w'] by (auto simp: by_time_ops_def by_time_relates_def)
next
  case (18 hs c w c' w')
  then show ?case by (auto simp: by_time_ops_def go_ret_iff dest: finish_by_time_spec)
next
  case (19 hs c w w')
  then show ?case using env_keeps[of w w'] by (auto simp: by_time_ops_def by_time_complete_def)
next
  case (20 hs c w rdy d c' err)
  then show ?case
    using Enqueue_by_time_cases[of rdy c d c' err L sep]
    by (auto simp: by_time_ops_def by_time_complete_def)
qed (auto simp: by_time_ops_def)

subsection \<open>When the timer flushes\<close>

text \<open>A small payload that leaves room is only appended; it also restarts the timer.\<close>

lemma append_by_time_room:
  assumes "d \<noteq> []" and "group_len (separatorLen acc) (current acc @ [d]) < limitOfBytes acc"
    and "0 \<le> separatorLen acc" and "[] \<notin> set (current acc)"
  shows "append_by_time exec rest now d acc w =
    Ret (acc\<lparr>metrics := incDataInBytesBy (int (length d)) (metrics acc),
             current := current acc @ [d], oldestDataTime := now\<rparr>, w)"
proof -
  have len: "currentBufferLen_by_time acc = group_len (separatorLen acc) (current acc)"
    by (simp add: currentBufferLen_by_time_def bufferLenLoop_sum group_len_def)
  have "0 \<le> group_len (separatorLen acc) (current acc) + separatorLen acc"
    using assms(3,4) group_len_positive[of "separatorLen acc" "current acc"]
    by (cases "current acc = []") auto
  with assms len show ?thesis
    by (simp add: append_by_time_def Let_def currentBufferLen_by_time_def)
qed

text \<open>
  The rounds of a steady flow: a payload handled at time \<open>t\<close>, then the ticker at time \<open>t'\<close>, again
  and again.
\<close>

definition steady_round ::
  "('w \<Rightarrow> bytes \<Rightarrow> ('w \<times> error option) go) \<Rightarrow> ('w \<Rightarrow> 'w) \<Rightarrow> bytes \<times> int \<times> int \<Rightarrow>
   by_time \<times> 'w \<Rightarrow> (by_time \<times> 'w) go" where
  "steady_round exec rest = (\<lambda>(d, t, t') (acc, w).
     go_bind (append_by_time exec rest t d acc w) (\<lambda>(acc, w). tick_by_time exec rest t' acc w))"

text \<open>
  C26 (functional): \<open>oldestDataTime\<close> is the time of the newest payload, not of the oldest one: it is
  set on every append.  So as long as the payloads keep coming faster than \<open>forceFlushAfter\<close> and
  the limit is not reached, the ticker never flushes, for however long that goes on and however old
  the first payload in the buffer becomes.
\<close>

theorem steady_rounds_never_flush:
  assumes "\<forall>(d, t, t') \<in> set rs. d \<noteq> [] \<and> t \<le> t' \<and> t' - t < forceFlushAfter acc \<and>
      t' - t \<le> maxDuration"
    and "group_len (separatorLen acc) (current acc @ map fst rs) < limitOfBytes acc"
    and "0 \<le> separatorLen acc" and "[] \<notin> set (current acc)"
  shows "\<exists>acc'. go_foreach (steady_round exec rest) rs (acc, w) = Ret (acc', w) \<and>
    current acc' = current acc @ map fst rs"
  using assms
proof (induction rs arbitrary: acc)
  case (Cons r rs)
  obtain d t t' where r: "r = (d, t, t')" by (cases r)
  let ?acc = "acc\<lparr>metrics := incDataInBytesBy (int (length d)) (metrics acc),
             current := current acc @ [d], oldestDataTime := t\<rparr>"
  have pre: "0 \<le> (\<Sum>c\<leftarrow>map fst rs. int (length c) + separatorLen acc)"
    using Cons.prems(3) by (intro sum_list_nonneg) auto
  have "group_len (separatorLen acc) (current acc @ [d]) \<le>
      group_len (separatorLen acc) (current acc @ map fst (r # rs))"
    using pre by (simp add: r group_len_def)
  then have app: "append_by_time exec rest t d acc w = Ret (?acc, w)"
    using Cons.prems r by (intro append_by_time_room) auto
  have tick: "tick_by_time exec rest t' ?acc w = Ret (?acc, w)"
    using Cons.prems(1) r by (auto simp: tick_by_time_def time_Sub_def minDuration_def)
  have "\<exists>acc'. go_foreach (steady_round exec rest) rs (?acc, w) = Ret (acc', w) \<and>
      current acc' = current ?acc @ map fst rs"
    using Cons.prems r by (intro Cons.IH) auto
  with app tick show ?case by (simp add: r steady_round_def)
qed simp

lemma steady_rounds_never_flush_witness:
  "\<exists>acc acc'. NewAccumulatorByTimeAndSize 100 [] 2 10 = Ret acc \<and>
     go_foreach (steady_round (\<lambda>w d. Ret (w @ [d], None)) id)
       [([1], 1, 9), ([2], 10, 18), ([3], 19, 27), ([4], 28, 36)] (acc, []) = Ret (acc', []) \<and>
     current acc' = [[1], [2], [3], [4]]"
proof -
  obtain acc where n: "NewAccumulatorByTimeAndSize 100 [] 2 10 = Ret acc"
    by (simp add: NewAccumulatorByTimeAndSize_def MinQueueCapacity_def make_chan_def)
  then have f: "current acc = []" "separatorLen acc = 0" "limitOfBytes acc = 100"
    "forceFlushAfter acc = 10"
    by (auto simp: NewAccumulatorByTimeAndSize_def MinQueueCapacity_def make_chan_def)
  have "\<exists>acc'. go_foreach (steady_round (\<lambda>w d. Ret (w @ [d], None)) id)
      [([1], 1, 9), ([2], 10, 18), ([3], 19, 27), ([4], 28, 36)] (acc, []) = Ret (acc', []) \<and>
    current acc' = current acc @ map fst [([1], 1 :: int, 9 :: int), ([2], 10, 18), ([3], 19, 27), ([4], 28, 36)]"
    by (rule steady_rounds_never_flush) (simp_all add: f maxDuration_def group_len_def)
  with n f show ?thesis by auto
qed

text \<open>The ticker: a buffer whose last payload is old enough is sent on.\<close>

lemma tick_by_time_flushes:
  assumes "current acc \<noteq> []" and "oldestDataTime acc \<noteq> 0"
    and "forceFlushAfter acc \<le> time_Sub now (oldestDataTime acc)"
  shows "tick_by_time exec rest now acc w = flush_by_time exec rest byTimeoutFlushType acc w"
  using assms by (simp add: tick_by_time_def time_IsZero_def)

subsection \<open>Property\<close>

text \<open>
  C25 (equivalence): but for the timer, the two accumulators are the same: constructing, enqueueing,
  appending and flushing do to the common fields and to the next component what the accumulator by
  size does, whatever the clock says.
\<close>

theorem timer_does_not_touch_data:
  "go_map as_by_size (NewAccumulatorByTimeAndSize L sep cap f) = NewAccumulatorBySize L sep cap \<and>
   go_map forget_timer (Enqueue_by_time rdy acc d) = Enqueue_by_size rdy (as_by_size acc) d \<and>
   go_map forget_timer (append_by_time exec rest now d acc w) =
     append_by_size exec rest d (as_by_size acc) w \<and>
   go_map forget_timer (flush_by_time exec rest typeOfFlush acc w) =
     flush_by_size exec rest typeOfFlush (as_by_size acc) w"
  by (simp add: New_forget Enqueue_forget append_forget flush_forget)

end
