(* ===== verification/Accumulator_Flow.thy ===== *)
theory Accumulator_Flow
  imports Accumulator_Time Uploader
begin

text \<open>
  The accumulators in a flow: in front of the uploader of the theory Uploader, behind a circuit
  breaker, as createAccumulator in pkg/app/app.go and pkg/accumulator/factory.go put them
  together.  First, an accumulator whose next component is responsive gets through every payload
  and through its shutdown; then, the uploader's stage is such a next component.
\<close>

subsection \<open>With a responsive next component nothing blocks\<close>

context responsive_stage
begin

lemma enqueueOnNext_by_size_returns:
  "good w \<Longrightarrow> go_returns (enqueueOnNext_by_size exec rest d acc w)"
  using deliver_returns[of w d] by (auto simp: enqueueOnNext_by_size_def)

lemma flush_by_size_returns:
  assumes "good w" and "by_size_ok L sep acc"
  shows "go_returns (flush_by_size exec rest typ acc w)"
proof (cases "current acc = []")
  case True
  then show ?thesis by (simp add: flush_by_size_def)
next
  case False
  have "mergeChunks (separator acc) (current acc) (currentBufferLen_by_size acc) =
      Ret (join_bytes sep (current acc))"
    using assms(2) False mergeChunks_join by (simp add: by_size_ok_def currentBufferLen_group_len)
  with False enqueueOnNext_by_size_returns[OF assms(1), of "join_bytes sep (current acc)" acc]
  show ?thesis by (auto simp: flush_by_size_def go_returns_iff Let_def)
qed

lemma append_by_size_returns:
  assumes "good w" and "by_size_ok L sep acc"
  shows "go_returns (append_by_size exec rest d acc w)"
proof -
  let ?acc = "acc\<lparr>metrics := incDataInBytesBy (int (length d)) (metrics acc)\<rparr>"
  have ok: "by_size_ok L sep ?acc" using assms(2) by (simp add: by_size_ok_def)
  obtain a v where f: "flush_by_size exec rest bySizeFlushType ?acc w = Ret (a, v)"
    using flush_by_size_returns[OF assms(1) ok] by (fastforce simp: go_returns_iff)
  have v: "good v" "by_size_ok L sep a" using flush_by_size_spec[OF assms(1) ok f] by auto
  have ok': "by_size_ok L sep (a\<lparr>current := current a @ [d]\<rparr>)"
    "by_size_ok L sep (?acc\<lparr>current := current acc @ [d]\<rparr>)"
    using v(2) ok by (simp_all add: by_size_ok_def)
  show ?thesis
    using f flush_by_size_returns[OF v(1) ok'(1)] flush_by_size_returns[OF assms(1) ok'(2)]
      enqueueOnNext_by_size_returns[OF v(1), of d a]
    by (simp add: append_by_size_def Let_def)
qed

lemma handle_by_size_returns:
  "good w \<Longrightarrow> by_size_ok L sep acc \<Longrightarrow> go_returns (handle_by_size exec rest d acc w)"
  using append_by_size_returns[of w L sep acc d]
  by (auto simp: handle_by_size_def go_returns_iff)

end

context responsive_stage
begin

lemma shutdown_by_size_returns:
  assumes rel: "by_size_relates taken good base L sep hs acc w"
    and "\<not> chan_closed (internalDataChan acc)"
  shows "go_returns (shutdown_by_size exec rest acc w)"
proof -
  let ?ch = "(internalDataChan acc)\<lparr>chan_closed := True\<rparr>"
  let ?f = "\<lambda>ch d (acc, w). handle_by_size exec rest d (acc\<lparr>internalDataChan := ch\<rparr>) w"
  let ?P = "\<lambda>(acc, w). \<exists>hs. by_size_relates taken good base L sep hs acc w"
  have "\<exists>ch s. drain ?f ?ch (setShutdown_by_size acc, w) = Ret (ch, s) \<and> ?P s"
  proof (rule drain_closed_returns)
    fix d ch s assume "?P s"
    then obtain a v hs where s: "s = (a, v)" and r: "by_size_relates taken good base L sep hs a v"
      by (cases s) auto
    from r have "go_returns (handle_by_size exec rest d (a\<lparr>internalDataChan := ch\<rparr>) v)"
      by (intro handle_by_size_returns) (auto simp: by_size_relates_def by_size_ok_def)
    then obtain a' v' where
      h: "handle_by_size exec rest d (a\<lparr>internalDataChan := ch\<rparr>) v = Ret (a', v')"
      by (fastforce simp: go_returns_iff)
    from handle_by_size_spec[OF _ h, of base L sep hs] r h s
    show "\<exists>s'. ?f ch d s = Ret s' \<and> ?P s'" by auto
  qed (use rel in auto)
  then obtain ch a v hs where
    dr: "drain ?f ?ch (setShutdown_by_size acc, w) = Ret (ch, a, v)" and
    "by_size_relates taken good base L sep hs a v" by auto
  then have "go_returns (flush_by_size exec rest byShutdownFlushType (a\<lparr>internalDataChan := ch\<rparr>) v)"
    by (intro flush_by_size_returns) (auto simp: by_size_relates_def by_size_ok_def)
  with dr assms(2) show ?thesis
    by (simp add: shutdown_by_size_def chan_close_def Let_def)
qed

end

lemma go_returns_map [simp]: "go_returns (go_map f m) = go_returns m"
  by (cases m) simp_all

locale responsive_accumulating =
  accumulating exec rest taken good env base L sep +
  responsive_stage exec rest taken good backlog
  for exec :: "'w \<Rightarrow> bytes \<Rightarrow> ('w \<times> error option) go" and rest and taken and good
    and env and base and L and sep and backlog

sublocale responsive_accumulating \<subseteq> szf: finishing_stage "by_size_ops exec rest env"
  "by_size_relates taken good base L sep" "by_size_complete taken good base L sep"
proof (unfold_locales, goal_cases)
  case (1 hs c w now d)
  then have "go_returns (handle_by_size exec rest d c w)"
    by (auto simp: by_size_relates_def intro: handle_by_size_returns)
  then show ?case by (auto simp: by_size_ops_def)
next
  case (2 hs c w)
  then have "go_returns (flush_by_size exec rest byShutdownFlushType c w)"
    by (auto simp: by_size_relates_def intro: flush_by_size_returns)
  then show ?case by (auto simp: by_size_ops_def go_returns_iff)
qed

sublocale responsive_accumulating \<subseteq> tmf: finishing_stage "by_time_ops exec rest env"
  "by_time_relates taken good base L sep" "by_time_complete taken good base L sep"
proof (unfold_locales, goal_cases)
  case (1 hs c w now d)
  then have "go_returns (handle_by_size exec rest d (as_by_size c) w)"
    by (auto simp: by_time_relates_def intro: handle_by_size_returns)
  then have "go_returns (handle_by_time exec rest now d c w)"
    by (simp flip: handle_forget[of exec rest now])
  then show ?case by (auto simp: by_time_ops_def)
next
  case (2 hs c w)
  then have "go_returns (flush_by_size exec rest byShutdownFlushType (as_by_size c) w)"
    by (auto simp: by_time_relates_def intro: flush_by_size_returns)
  then have "go_returns (flush_by_time exec rest byShutdownFlushType c w)"
    by (simp flip: flush_forget)
  then show ?case by (auto simp: by_time_ops_def go_returns_iff)
qed

subsection \<open>The uploader while an accumulator waits\<close>

text \<open>
  One turn of the rest of the flow: the workers receive what is on \<open>next\<close>, the uploader's goroutine
  sends on the payload it holds, if it holds one, and receives the next one, if there is one.
\<close>

definition workers_receive :: "'p up_world \<Rightarrow> 'p up_world" where
  "workers_receive w =
     w\<lparr>up_next := (up_next w)\<lparr>chan_buf := []\<rparr>,
       up_received := up_received w @ chan_buf (up_next w)\<rparr>"

definition try_event :: "bytes stage_event \<Rightarrow> up_stage \<Rightarrow> up_stage" where
  "try_event e s = (case stage_exec flow_uploader_ops e s of Some t \<Rightarrow> t | None \<Rightarrow> s)"

definition uploader_turn :: "up_stage \<Rightarrow> up_stage" where
  "uploader_turn s =
     try_event Recv (try_event (Handle 0) (s\<lparr>st_world := workers_receive (st_world s)\<rparr>))"

definition uploader_backlog :: "up_stage \<Rightarrow> nat" where
  "uploader_backlog s = 2 * length (st_buf flow_uploader_ops s) + length (hand_list (st_hand s))"

text \<open>An uploader that is up: not shutting down, and in the states its stage can be in.\<close>

definition uploader_up :: "up_stage \<Rightarrow> bool" where
  "uploader_up s \<longleftrightarrow> fu.up.stage_inv s \<and> st_phase s = Running"

lemma workers_receive_env: "(up_env moves)\<^sup>*\<^sup>* w (workers_receive w)"
proof (induction "chan_buf (up_next w)" arbitrary: w)
  case Nil
  then have "workers_receive w = w" by (simp add: workers_receive_def)
  then show ?case by simp
next
  case (Cons u us)
  let ?v = "w\<lparr>up_next := (up_next w)\<lparr>chan_buf := us\<rparr>, up_received := up_received w @ [u]\<rparr>"
  have "up_env moves w ?v" using Cons.hyps(2)[symmetric] by (intro worker_receives) (simp add: go_ret_iff)
  moreover have "(up_env moves)\<^sup>*\<^sup>* ?v (workers_receive ?v)" by (rule Cons.hyps(1)) simp
  moreover have "workers_receive ?v = workers_receive w"
    by (simp add: workers_receive_def flip: Cons.hyps(2))
  ultimately show ?case by (metis converse_rtranclp_into_rtranclp)
qed

lemma try_event_reach: "stage_reach flow_uploader_ops s (try_event e s)"
  by (auto simp: try_event_def split: option.split
      intro: stage_reach.start stage_reach_step stage_exec_step)

lemma uploader_turn_reach: "stage_reach flow_uploader_ops s (uploader_turn s)"
proof -
  have "stage_reach flow_uploader_ops s (s\<lparr>st_world := workers_receive (st_world s)\<rparr>)"
    by (rule stage_reach_environment) (simp add: flow_uploader_ops_def uploader_ops_def workers_receive_env)
  then show ?thesis
    unfolding uploader_turn_def by (blast intro: stage_reach_trans try_event_reach)
qed

lemma try_event_frame:
  "e = Recv \<or> e = Handle now \<Longrightarrow>
   st_accepted (try_event e s) = st_accepted s \<and> st_phase (try_event e s) = st_phase s"
  by (auto simp: try_event_def split: option.splits go.splits prod.splits if_splits)

lemma uploader_turn_frame:
  "st_accepted (uploader_turn s) = st_accepted s \<and> st_phase (uploader_turn s) = st_phase s"
  by (simp add: uploader_turn_def try_event_frame)

lemma uploader_turn_up: "uploader_up s \<Longrightarrow> uploader_up (uploader_turn s)"
  using fu.up.stage_inv_reach[OF uploader_turn_reach[of s, unfolded flow_uploader_ops_def]]
  by (simp add: uploader_up_def uploader_turn_frame)

lemma hand_is_sent:
  assumes "uploader_up s" and "chan_buf (up_next (st_world s)) = []" and "st_hand s = Some d"
  shows "st_hand (try_event (Handle 0) s) = None \<and>
    st_buf flow_uploader_ops (try_event (Handle 0) s) = st_buf flow_uploader_ops s"
proof -
  have rel: "up_relates pather_ok (st_handled s) (st_comp s) (st_world s)"
    using assms(1) by (simp add: uploader_up_def fu.up.stage_inv_def)
  with assms(2) have "go_returns (sendWorkToNext fp_Filename fp_Prefix d (st_comp s) (st_world s))"
    by (intro fu.sendWorkToNext_room[OF rel]) (simp add: up_relates_def)
  then obtain c' w' where
    h: "sendWorkToNext fp_Filename fp_Prefix d (st_comp s) (st_world s) = Ret (c', w')"
    by (auto simp: go_returns_iff)
  with assms(3) sendWorkToNext_frame[OF h] show ?thesis
    by (simp add: try_event_def flow_uploader_ops_def uploader_ops_def st_buf_def)
qed

lemma receive_shortens:
  assumes "st_phase s = Running" and "st_hand s = None"
  shows "uploader_backlog (try_event Recv s) \<le> uploader_backlog s \<and>
    (st_buf flow_uploader_ops s \<noteq> [] \<longrightarrow> uploader_backlog (try_event Recv s) < uploader_backlog s)"
  using assms
  by (cases "chan_buf (up_internalDataChan (st_comp s))")
     (auto simp: try_event_def uploader_backlog_def st_buf_def flow_uploader_ops_def
       uploader_ops_def chan_recv_def split: if_splits)

text \<open>As long as there is something queued or held, a turn brings the uploader forward.\<close>

lemma uploader_turn_progress:
  assumes "uploader_up s"
  shows "uploader_backlog (uploader_turn s) \<le> uploader_backlog s \<and>
    (0 < uploader_backlog s \<longrightarrow> uploader_backlog (uploader_turn s) < uploader_backlog s)"
proof -
  let ?s = "s\<lparr>st_world := workers_receive (st_world s)\<rparr>"
  let ?t = "try_event (Handle 0) ?s"
  have "stage_reach flow_uploader_ops s ?s"
    by (rule stage_reach_environment) (simp add: flow_uploader_ops_def uploader_ops_def workers_receive_env)
  from fu.up.stage_inv_reach[OF this[unfolded flow_uploader_ops_def]] assms
  have up: "uploader_up ?s" by (simp add: uploader_up_def)
  have run: "st_phase ?t = Running" using assms by (simp add: try_event_frame uploader_up_def)
  have bl: "uploader_backlog ?s = uploader_backlog s"
    by (simp add: uploader_backlog_def st_buf_def)
  show ?thesis
  proof (cases "st_hand s")
    case None
    then have "?t = ?s" by (simp add: try_event_def)
    with None receive_shortens[of ?t] run bl show ?thesis
      by (auto simp: uploader_turn_def uploader_backlog_def st_buf_def)
  next
    case (Some d)
    with hand_is_sent[OF up, of d] have "st_hand ?t = None"
      "st_buf flow_uploader_ops ?t = st_buf flow_uploader_ops ?s"
      by (auto simp: workers_receive_def)
    with Some receive_shortens[of ?t] run bl show ?thesis
      by (auto simp: uploader_turn_def uploader_backlog_def st_buf_def)
  qed
qed

text \<open>An uploader that is up refuses a payload only when something is queued or held.\<close>

lemma refused_backlog:
  assumes "uploader_up s" and "stage_enqueue flow_uploader_ops s d = Ret (t, Some e)"
  shows "0 < uploader_backlog s \<and> uploader_up t \<and> uploader_backlog t = uploader_backlog s"
proof -
  have "fu.up.stage_inv t"
    using fu.up.flow.enq_err assms by (auto simp: uploader_up_def flow_uploader_ops_def)
  moreover have "\<not> up_shuttingDown (st_comp s)"
    using assms(1) unfolding uploader_up_def fu.up.stage_inv_def by (simp add: uploader_ops_def)
  ultimately show ?thesis
    using assms
    by (auto simp: uploader_up_def stage_enqueue_def flow_uploader_ops_def uploader_ops_def
        Enqueue_uploader_def Let_def go_ret_iff st_parked_def uploader_backlog_def st_buf_def
        split: if_splits)
qed

lemma accepted_up:
  assumes "uploader_up s" and "stage_enqueue flow_uploader_ops s d = Ret (t, None)"
  shows "uploader_up t \<and> st_accepted t = st_accepted s @ [d]"
  using fu.up.flow.enq_ok[of s d t] assms
  by (auto simp: uploader_up_def flow_uploader_ops_def stage_enqueue_def go_ret_iff)

interpretation uf: data_flow "stage_enqueue flow_uploader_ops" st_accepted uploader_up
proof
  fix n d assume "uploader_up n"
  then show "go_returns (stage_enqueue flow_uploader_ops n d)"
    using fu.up.flow.enq_returns by (simp add: uploader_up_def flow_uploader_ops_def)
next
  fix n d n' assume "uploader_up n" "stage_enqueue flow_uploader_ops n d = Ret (n', None)"
  then show "uploader_up n' \<and> st_accepted n' = st_accepted n @ [d]" by (rule accepted_up)
next
  fix n d n' e assume "uploader_up n" "stage_enqueue flow_uploader_ops n d = Ret (n', Some e)"
  then show "uploader_up n' \<and> st_accepted n' = st_accepted n"
    using refused_backlog by (auto simp: stage_enqueue_def go_ret_iff)
qed

subsection \<open>The breaker in between\<close>

text \<open>
  A breaker that recovers: \<open>pass\<close> is what the time of one retry sleep does to it.  A rejected
  request finds it closer to letting one through; a request that ran and failed leaves it at most
  \<open>K\<close> sleeps away (its open interval).
\<close>

locale recovering_breaker = circuit_breaker execute
  for execute ::
    "'b \<Rightarrow> ('n \<Rightarrow> ('n \<times> error option) go) \<Rightarrow> 'n \<Rightarrow> ('b \<times> 'n \<times> error option) go" +
  fixes pass :: "'b \<Rightarrow> 'b"
    and cooldown :: "'b \<Rightarrow> nat"
    and K :: nat
  assumes fails: "execute b f n = Ret (b', n', Some e) \<Longrightarrow>
      (n' = n \<and> cooldown (pass b') < cooldown b) \<or>
      (f n = Ret (n', Some e) \<and> cooldown (pass b') \<le> K)"

text \<open>
  Around an accumulator, the uploader's stage and the path provider take their steps, other than
  being shut down (the accumulator is stopped first), and time passes for the breaker.
\<close>

definition flow_env :: "'b \<times> up_stage \<Rightarrow> 'b \<times> up_stage \<Rightarrow> bool" where
  "flow_env w w' \<longleftrightarrow> stage_reach flow_uploader_ops (snd w) (snd w') \<and>
     st_accepted (snd w') = st_accepted (snd w) \<and> st_phase (snd w') = Running"

definition flow_taken :: "'b \<times> up_stage \<Rightarrow> bytes list" where
  "flow_taken w = st_accepted (snd w)"

definition flow_good :: "'b \<times> up_stage \<Rightarrow> bool" where
  "flow_good w \<longleftrightarrow> uploader_up (snd w)"

definition flow_exec where
  "flow_exec execute = breaker_enqueue execute (stage_enqueue flow_uploader_ops)"

definition flow_rest :: "('b \<Rightarrow> 'b) \<Rightarrow> 'b \<times> up_stage \<Rightarrow> 'b \<times> up_stage" where
  "flow_rest pass w = (pass (fst w), uploader_turn (snd w))"

text \<open>
  With any breaker in between that keeps the contract of the locale \<open>circuit_breaker\<close>, the world
  of the accumulator is one in which nothing is lost; \<open>pass\<close> is what time does to the breaker.
\<close>

locale guarded_flow = circuit_breaker execute
  for execute :: "'b \<Rightarrow> (up_stage \<Rightarrow> (up_stage \<times> error option) go) \<Rightarrow> up_stage \<Rightarrow>
      ('b \<times> up_stage \<times> error option) go" +
  fixes pass :: "'b \<Rightarrow> 'b"

sublocale guarded_flow \<subseteq> bf: breaker_flow execute "stage_enqueue flow_uploader_ops" st_accepted
  uploader_up "flow_rest pass"
  by unfold_locales (auto simp: flow_rest_def uploader_turn_up uploader_turn_frame)

sublocale guarded_flow \<subseteq> ga: accumulating "flow_exec execute" "flow_rest pass"
  flow_taken flow_good flow_env base L sep
  for base L sep
proof (unfold_locales, goal_cases)
  case (1 w d w')
  then show ?case
    using bf.exec_ok[of w d w'] by (simp add: flow_good_def flow_exec_def flow_taken_def)
next
  case (2 w d w' e)
  then show ?case
    using bf.exec_err[of w d w' e] by (simp add: flow_good_def flow_exec_def flow_taken_def)
next
  case (3 w d)
  then show ?case using bf.exec_returns[of w d] by (simp add: flow_good_def flow_exec_def)
next
  case (4 w)
  then show ?case using bf.rest_keeps[of w] by (simp add: flow_good_def flow_taken_def)
next
  case (5 w w')
  then show ?case
    using fu.up.stage_inv_reach[of "snd w" "snd w'"]
    by (auto simp: flow_env_def flow_good_def flow_taken_def uploader_up_def flow_uploader_ops_def)
qed

text \<open>With a breaker that recovers, it is also one in which every payload gets through.\<close>

locale flow_breaker = guarded_flow execute pass + recovering_breaker execute pass cooldown K
  for execute :: "'b \<Rightarrow> (up_stage \<Rightarrow> (up_stage \<times> error option) go) \<Rightarrow> up_stage \<Rightarrow>
      ('b \<times> up_stage \<times> error option) go"
    and pass and cooldown and K

sublocale flow_breaker \<subseteq> fl: responsive_accumulating "flow_exec execute" "flow_rest pass"
  flow_taken flow_good flow_env base L sep
  "\<lambda>w. (K + 1) * uploader_backlog (snd w) + cooldown (fst w)"
  for base L sep
proof (unfold_locales, goal_cases)
  case (1 w d w' e)
  then have up: "uploader_up (snd w)" by (simp add: flow_good_def)
  from 1 have "execute (fst w) (\<lambda>n. stage_enqueue flow_uploader_ops n d) (snd w) =
      Ret (fst w', snd w', Some e)"
    by (auto simp: flow_exec_def breaker_enqueue_def go_ret_iff)
  from fails[OF this] show ?case
  proof
    assume r: "snd w' = snd w \<and> cooldown (pass (fst w')) < cooldown (fst w)"
    with uploader_turn_progress[OF up]
    have "(K + 1) * uploader_backlog (uploader_turn (snd w)) \<le> (K + 1) * uploader_backlog (snd w)"
      by (intro mult_le_mono) simp_all
    with r show ?case by (simp add: flow_rest_def)
  next
    assume r: "stage_enqueue flow_uploader_ops (snd w) d = Ret (snd w', Some e) \<and>
        cooldown (pass (fst w')) \<le> K"
    with refused_backlog[OF up] uploader_turn_progress[of "snd w'"]
    have "uploader_backlog (uploader_turn (snd w')) + 1 \<le> uploader_backlog (snd w)" by fastforce
    then have "(K + 1) * (uploader_backlog (uploader_turn (snd w')) + 1) \<le>
        (K + 1) * uploader_backlog (snd w)" by (rule mult_le_mono2)
    with r show ?case by (simp add: flow_rest_def)
  qed
qed

text \<open>With the breaker disabled in the configuration, the dummy one is used: it never rejects.\<close>

interpretation df: flow_breaker dummy_execute id "\<lambda>_. 0" 0
  by unfold_locales (auto simp: dummy_execute_def go_ret_iff)

text \<open>
  A breaker as the configuration sets gobreaker up, seen in retry sleeps: one failure opens it for
  \<open>K\<close> of them, then one request is let through.
\<close>

definition tripping_execute ::
  "nat \<Rightarrow> nat \<Rightarrow> ('n \<Rightarrow> ('n \<times> error option) go) \<Rightarrow> 'n \<Rightarrow> (nat \<times> 'n \<times> error option) go" where
  "tripping_execute K b f n =
     (if 0 < b then Ret (b, n, Some (Error ''circuit breaker is open''))
      else go_bind (f n) (\<lambda>(n', e). Ret (if e = None then 0 else K, n', e)))"

interpretation trip: flow_breaker "tripping_execute K" "\<lambda>b. b - 1" id K for K
  by unfold_locales (auto simp: tripping_execute_def go_ret_iff go_returns_iff split: if_splits)

subsection \<open>Every state an accumulator of a flow can get into\<close>

text \<open>
  An accumulator whose goroutine has just started, in front of the uploader \<open>u\<close> and behind the
  breaker \<open>b\<close>.
\<close>

definition flow_start_by_size ::
  "by_size \<Rightarrow> 'b \<Rightarrow> up_stage \<Rightarrow> (by_size, bytes, 'b \<times> up_stage) stage_state" where
  "flow_start_by_size acc b u = stage_start (startRun_by_size acc) (b, u)"

definition flow_start_by_time ::
  "by_time \<Rightarrow> 'b \<Rightarrow> up_stage \<Rightarrow> (by_time, bytes, 'b \<times> up_stage) stage_state" where
  "flow_start_by_time acc b u = stage_start (startRun_by_time acc) (b, u)"

abbreviation flow_ops_by_size where
  "flow_ops_by_size execute pass \<equiv> by_size_ops (flow_exec execute) (flow_rest pass) flow_env"

abbreviation flow_ops_by_time where
  "flow_ops_by_time execute pass \<equiv> by_time_ops (flow_exec execute) (flow_rest pass) flow_env"

lemma by_size_ops_fields [simp]:
  "op_chan (by_size_ops ex re env) = internalDataChan"
  "op_shutting_down (by_size_ops ex re env) = shuttingDown"
  "op_enqueue (by_size_ops ex re env) = Enqueue_by_size"
  by (simp_all add: by_size_ops_def)

lemma by_time_ops_fields [simp]:
  "op_chan (by_time_ops ex re env) = internalDataChan"
  "op_shutting_down (by_time_ops ex re env) = shuttingDown"
  "op_enqueue (by_time_ops ex re env) = Enqueue_by_time"
  by (simp_all add: by_time_ops_def)

context guarded_flow
begin

lemma start_by_size_inv:
  assumes "NewAccumulatorBySize L sep cap = Ret acc" and "uploader_up u"
  shows "ga.sz.stage_inv (st_accepted u) L sep (flow_start_by_size acc b u)"
  unfolding flow_start_by_size_def
  using assms
  by (intro ga.sz.stage_inv_start[where n = "nat cap"])
     (auto simp: NewAccumulatorBySize_def go_ret_iff startRun_by_size_def by_size_relates_def
       by_size_ok_def flow_good_def flow_taken_def split: if_splits)

lemma start_by_time_inv:
  assumes "NewAccumulatorByTimeAndSize L sep cap f = Ret acc" and "uploader_up u"
  shows "ga.tm.stage_inv (st_accepted u) L sep (flow_start_by_time acc b u)"
  unfolding flow_start_by_time_def
  using assms
  by (intro ga.tm.stage_inv_start[where n = "nat cap"])
     (auto simp: NewAccumulatorByTimeAndSize_def go_ret_iff startRun_by_time_def by_time_relates_def
       by_size_ok_def flow_good_def flow_taken_def timer_ok_def split: if_splits
       intro: timed_packing.nothing)

lemma by_size_flow_inv:
  assumes "NewAccumulatorBySize L sep cap = Ret acc" and "uploader_up u"
    and "stage_reach (flow_ops_by_size execute pass) (flow_start_by_size acc b u) t"
  shows "ga.sz.stage_inv (st_accepted u) L sep t"
  by (rule ga.sz.stage_inv_reach[OF assms(3) start_by_size_inv[OF assms(1,2)]])

lemma by_time_flow_inv:
  assumes "NewAccumulatorByTimeAndSize L sep cap f = Ret acc" and "uploader_up u"
    and "stage_reach (flow_ops_by_time execute pass) (flow_start_by_time acc b u) t"
  shows "ga.tm.stage_inv (st_accepted u) L sep t"
  by (rule ga.tm.stage_inv_reach[OF assms(3) start_by_time_inv[OF assms(1,2)]])

end

context guarded_flow
begin

lemma by_size_flow_packing:
  assumes "NewAccumulatorBySize L sep cap = Ret acc" and "uploader_up u"
    and "stage_reach (flow_ops_by_size execute pass) (flow_start_by_size acc b u) t"
  shows "st_accepted t =
      st_handled t @ hand_list (st_hand t) @ chan_buf (internalDataChan (st_comp t)) \<and>
    (st_phase t = Finished \<longrightarrow> st_accepted t = st_handled t) \<and>
    (let gp = (if st_phase t = Finished then flushed else id)
                (pack L (int (length sep)) (st_handled t)) in
     st_accepted (snd (st_world t)) = st_accepted u @ map (join_bytes sep) (fst gp) \<and>
     current (st_comp t) = snd gp \<and>
     counters_match (map (join_bytes sep) (fst gp)) (st_handled t) (metrics (st_comp t)))"
  using by_size_flow_inv[OF assms]
  by (auto simp: ga.sz.stage_inv_def by_size_relates_def by_size_complete_def flow_taken_def
      st_buf_def flushed_def Let_def split: if_splits)

lemma by_time_flow_packing:
  assumes "NewAccumulatorByTimeAndSize L sep cap f = Ret acc" and "uploader_up u"
    and "stage_reach (flow_ops_by_time execute pass) (flow_start_by_time acc b u) t"
  shows "st_accepted t =
      st_handled t @ hand_list (st_hand t) @ chan_buf (internalDataChan (st_comp t)) \<and>
    (st_phase t = Finished \<longrightarrow> st_accepted t = st_handled t \<and> current (st_comp t) = []) \<and>
    (\<exists>gs. timed_packing L (int (length sep)) (st_handled t) (gs, current (st_comp t)) \<and>
       st_accepted (snd (st_world t)) = st_accepted u @ map (join_bytes sep) gs \<and>
       counters_match (map (join_bytes sep) gs) (st_handled t) (metrics (st_comp t)))"
  using by_time_flow_inv[OF assms]
  by (auto simp: ga.tm.stage_inv_def by_time_relates_def by_time_complete_def flow_taken_def
      st_buf_def split: if_splits)

lemma by_size_flow_producers:
  assumes "NewAccumulatorBySize L sep cap = Ret acc" and "uploader_up u"
    and "stage_reach (flow_ops_by_size execute pass) (flow_start_by_size acc b u) t"
  shows "\<exists>c' err. Enqueue_by_size rdy (st_comp t) d = Ret (c', err) \<and>
    (st_phase t \<noteq> Running \<longrightarrow> err \<noteq> None)"
proof -
  note inv = by_size_flow_inv[OF assms]
  obtain c' err where e: "Enqueue_by_size rdy (st_comp t) d = Ret (c', err)"
    using ga.sz.enqueue_never_stuck[OF inv, of rdy d] by (auto simp: go_returns_iff)
  have "st_phase t \<noteq> Running \<Longrightarrow> shuttingDown (st_comp t)"
    using inv by (simp add: ga.sz.stage_inv_def)
  with e show ?thesis by (auto simp: Enqueue_by_size_flagged)
qed

lemma by_time_flow_producers:
  assumes "NewAccumulatorByTimeAndSize L sep cap f = Ret acc" and "uploader_up u"
    and "stage_reach (flow_ops_by_time execute pass) (flow_start_by_time acc b u) t"
  shows "\<exists>c' err. Enqueue_by_time rdy (st_comp t) d = Ret (c', err) \<and>
    (st_phase t \<noteq> Running \<longrightarrow> err \<noteq> None)"
proof -
  note inv = by_time_flow_inv[OF assms]
  obtain c' err where e: "Enqueue_by_time rdy (st_comp t) d = Ret (c', err)"
    using ga.tm.enqueue_never_stuck[OF inv, of rdy d] by (auto simp: go_returns_iff)
  have "st_phase t \<noteq> Running \<Longrightarrow> shuttingDown (st_comp t)"
    using inv by (simp add: ga.tm.stage_inv_def)
  with e show ?thesis by (auto simp: Enqueue_by_time_def)
qed

end

context flow_breaker
begin

lemma by_size_flow_ends:
  assumes "NewAccumulatorBySize L sep cap = Ret acc" and "uploader_up u"
    and "stage_reach (flow_ops_by_size execute pass) (flow_start_by_size acc b u) t"
    and "st_phase t = Running"
  shows "\<exists>v. stage_reach (flow_ops_by_size execute pass) t v \<and> st_phase v = Finished \<and>
    st_accepted v = st_accepted t"
  by (rule fl.szf.shutdown_reaches_finish_busy[OF by_size_flow_inv[OF assms(1-3)] assms(4)])

lemma by_size_flow_shutdown:
  assumes "NewAccumulatorBySize L sep cap = Ret acc" and "uploader_up u"
    and "stage_reach (flow_ops_by_size execute pass) (flow_start_by_size acc b u) t"
    and "st_parked t"
  shows "\<exists>acc' w'. shutdown_by_size (flow_exec execute) (flow_rest pass) (st_comp t) (st_world t) =
      Ret (acc', w') \<and> chan_buf (internalDataChan acc') = [] \<and> shuttingDown acc' \<and>
    st_accepted (snd w') = st_accepted u @
      map (join_bytes sep) (fst (flushed (pack L (int (length sep)) (st_accepted t))))"
proof -
  note inv = by_size_flow_inv[OF assms(1-3)]
  from inv assms(4) have
    rel: "by_size_relates flow_taken flow_good (st_accepted u) L sep (st_handled t) (st_comp t)
      (st_world t)" and
    cl: "\<not> chan_closed (internalDataChan (st_comp t))" and
    acc: "st_accepted t = st_handled t @ chan_buf (internalDataChan (st_comp t))"
    by (auto simp: ga.sz.stage_inv_def st_parked_def st_buf_def)
  obtain acc' w' where sh: "shutdown_by_size (flow_exec execute) (flow_rest pass) (st_comp t)
      (st_world t) = Ret (acc', w')"
    using fl.shutdown_by_size_returns[OF rel cl] by (fastforce simp: go_returns_iff)
  from ga.shutdown_by_size_spec[OF rel cl this] sh acc show ?thesis
    by (auto simp: by_size_complete_def flow_taken_def)
qed

lemma by_time_flow_ends:
  assumes "NewAccumulatorByTimeAndSize L sep cap f = Ret acc" and "uploader_up u"
    and "stage_reach (flow_ops_by_time execute pass) (flow_start_by_time acc b u) t"
    and "st_phase t = Running"
  shows "\<exists>v. stage_reach (flow_ops_by_time execute pass) t v \<and> st_phase v = Finished \<and>
    st_accepted v = st_accepted t"
  by (rule fl.tmf.shutdown_reaches_finish_busy[OF by_time_flow_inv[OF assms(1-3)] assms(4)])

end

lemma accumulator_packing_at_end:
  assumes "circuit_breaker execute" and "NewAccumulatorBySize L sep cap = Ret acc"
    and "uploader_up u"
    and "stage_reach (flow_ops_by_size execute pass) (flow_start_by_size acc b u) t"
    and "st_phase t = Finished"
  shows "st_accepted (snd (st_world t)) = st_accepted u @
    map (join_bytes sep) (fst (flushed (pack L (int (length sep)) (st_accepted t))))"
  using guarded_flow.by_size_flow_packing[OF guarded_flow.intro[OF assms(1)] assms(2-4)] assms(5)
  by (auto simp: Let_def)

subsection \<open>Properties\<close>

text \<open>A concrete flow and a run of it from the first payload to the end.\<close>

definition sample_by_size :: by_size where
  "sample_by_size = (case NewAccumulatorBySize 5 [0] 2 of Ret acc \<Rightarrow> acc | _ \<Rightarrow> undefined)"

definition sample_by_time :: by_time where
  "sample_by_time = (case NewAccumulatorByTimeAndSize 5 [0] 2 10 of Ret acc \<Rightarrow> acc | _ \<Rightarrow> undefined)"

definition sample_events :: "bytes stage_event list" where
  "sample_events = [Enq [1, 2], Recv, Handle 7, Enq [3, 4], Enq [5], Recv, Handle 8, Cancel, Close,
     Recv, Handle 9, Finish]"

definition sample_timed_events :: "bytes stage_event list" where
  "sample_timed_events = [Enq [1, 2], Recv, Handle 7, Tick 17, Enq [3, 4], Enq [5], Recv, Handle 18,
     Cancel, Close, Recv, Handle 19, Finish]"

lemma sample_accumulators:
  "NewAccumulatorBySize 5 [0] 2 = Ret sample_by_size"
  "NewAccumulatorByTimeAndSize 5 [0] 2 10 = Ret sample_by_time"
  by (simp_all add: sample_by_size_def sample_by_time_def NewAccumulatorBySize_def
      NewAccumulatorByTimeAndSize_def MinQueueCapacity_def make_chan_def)

lemma sample_uploader_up: "0 \<le> cap \<Longrightarrow> uploader_up (sample_uploader cap)"
  by (simp add: uploader_up_def sample_uploader_inv) (simp add: sample_uploader_def stage_start_def)

lemma sample_by_size_run:
  "\<exists>t. stage_reach (flow_ops_by_size dummy_execute id)
         (flow_start_by_size sample_by_size () (sample_uploader 2)) t \<and> st_phase t = Finished \<and>
       st_accepted t = [[1, 2], [3, 4], [5]] \<and>
       st_accepted (snd (st_world t)) = [[1, 2, 0, 3, 4], [5]]"
proof -
  have "map_option (\<lambda>t. (st_phase t, st_accepted t, st_accepted (snd (st_world t))))
      (stage_run (flow_ops_by_size dummy_execute id) sample_events
        (flow_start_by_size sample_by_size () (sample_uploader 2))) =
    Some (Finished, [[1, 2], [3, 4], [5]], [[1, 2, 0, 3, 4], [5]])" by code_simp
  then show ?thesis by (auto dest: stage_run_reach)
qed

lemma sample_by_time_run:
  "\<exists>t. stage_reach (flow_ops_by_time dummy_execute id)
         (flow_start_by_time sample_by_time () (sample_uploader 4)) t \<and> st_phase t = Finished \<and>
       st_accepted t = [[1, 2], [3, 4], [5]] \<and>
       st_accepted (snd (st_world t)) = [[1, 2], [3, 4, 0, 5]]"
proof -
  have "map_option (\<lambda>t. (st_phase t, st_accepted t, st_accepted (snd (st_world t))))
      (stage_run (flow_ops_by_time dummy_execute id) sample_timed_events
        (flow_start_by_time sample_by_time () (sample_uploader 4))) =
    Some (Finished, [[1, 2], [3, 4], [5]], [[1, 2], [3, 4, 0, 5]])" by code_simp
  then show ?thesis by (auto dest: stage_run_reach)
qed

text \<open>
  C3 (refinement): an accumulator by size, behind any breaker that keeps its contract and with any
  interleaving of producers, its own goroutine, the uploader and a shutdown, implements the greedy
  packing.  At every moment what it has accepted is what it has handled, the payload it holds and
  what is queued, in order; what it has pushed into the uploader are the complete groups of the
  packing of the handled payloads, each merged with the separator, in order; and its buffer is the
  open group.  When it has finished, the open group has been pushed too.
\<close>

theorem accumulator_by_size_packs:
  assumes "circuit_breaker execute" and "NewAccumulatorBySize L sep cap = Ret acc"
    and "uploader_up u"
    and "stage_reach (flow_ops_by_size execute pass) (flow_start_by_size acc b u) t"
  shows "st_accepted t =
      st_handled t @ hand_list (st_hand t) @ chan_buf (internalDataChan (st_comp t)) \<and>
    (st_phase t = Finished \<longrightarrow> st_accepted t = st_handled t) \<and>
    (let gp = (if st_phase t = Finished then flushed else id)
                (pack L (int (length sep)) (st_handled t)) in
     st_accepted (snd (st_world t)) = st_accepted u @ map (join_bytes sep) (fst gp) \<and>
     current (st_comp t) = snd gp)"
  using guarded_flow.by_size_flow_packing[OF guarded_flow.intro[OF assms(1)] assms(2-4)]
  by (auto simp: Let_def)

lemma accumulator_by_size_packs_witness:
  "\<exists>t :: (by_size, bytes, unit \<times> up_stage) stage_state.
     st_phase t = Finished \<and> st_accepted t = [[1, 2], [3, 4], [5]] \<and>
     st_handled t = st_accepted t \<and>
     st_accepted (snd (st_world t)) =
       map (join_bytes [0]) (fst (flushed (pack 5 1 [[1, 2], [3, 4], [5]])))"
proof -
  obtain t where t: "stage_reach (flow_ops_by_size dummy_execute id)
      (flow_start_by_size sample_by_size () (sample_uploader 2)) t" "st_phase t = Finished"
    "st_accepted t = [[1, 2], [3, 4], [5]]" using sample_by_size_run by blast
  have "st_accepted (sample_uploader 2) = []" by (simp add: sample_uploader_def stage_start_def)
  with accumulator_by_size_packs[OF dummy.circuit_breaker_axioms sample_accumulators(1)
      sample_uploader_up t(1)] t(2,3)
  show ?thesis by (intro exI[of _ t]) (auto simp: Let_def)
qed



text \<open>
  C5 (refinement): the accumulator by time and size, with its ticker at any moments, sends the same
  payloads in the same order, cut into groups of which none is empty and only a group of one single
  payload is over the limit; when it has finished, every accepted payload that is not empty has been
  pushed, once.
\<close>

theorem accumulator_by_time_packs:
  assumes "circuit_breaker execute" and "NewAccumulatorByTimeAndSize L sep cap f = Ret acc"
    and "uploader_up u"
    and "stage_reach (flow_ops_by_time execute pass) (flow_start_by_time acc b u) t"
  shows "st_accepted t =
      st_handled t @ hand_list (st_hand t) @ chan_buf (internalDataChan (st_comp t)) \<and>
    (\<exists>gs. st_accepted (snd (st_world t)) = st_accepted u @ map (join_bytes sep) gs \<and>
       concat gs @ current (st_comp t) = filter (\<lambda>d. d \<noteq> []) (st_handled t) \<and>
       (\<forall>g \<in> set gs. within_limit L (int (length sep)) g)) \<and>
    (st_phase t = Finished \<longrightarrow> st_accepted t = st_handled t \<and> current (st_comp t) = [])"
proof -
  note pk = guarded_flow.by_time_flow_packing[OF guarded_flow.intro[OF assms(1)] assms(2-4)]
  then obtain gs where gs: "timed_packing L (int (length sep)) (st_handled t) (gs, current (st_comp t))"
    "st_accepted (snd (st_world t)) = st_accepted u @ map (join_bytes sep) gs" by blast
  from timed_packing_concat[OF gs(1)] timed_packing_bounded[OF gs(1)] gs(2) pk show ?thesis
    unfolding fst_conv snd_conv by blast
qed

lemma accumulator_by_time_packs_witness:
  "\<exists>t :: (by_time, bytes, unit \<times> up_stage) stage_state.
     st_phase t = Finished \<and> st_accepted t = [[1, 2], [3, 4], [5]] \<and>
     (\<exists>gs. st_accepted (snd (st_world t)) = map (join_bytes [0]) gs \<and>
        concat gs = [[1, 2], [3, 4], [5]])"
proof -
  obtain t where t: "stage_reach (flow_ops_by_time dummy_execute id)
      (flow_start_by_time sample_by_time () (sample_uploader 4)) t"
    "st_phase t = Finished" "st_accepted t = [[1, 2], [3, 4], [5]]"
    using sample_by_time_run by blast
  have "st_accepted (sample_uploader 4) = []" by (simp add: sample_uploader_def stage_start_def)
  note packs = accumulator_by_time_packs[OF dummy.circuit_breaker_axioms sample_accumulators(2)
      sample_uploader_up t(1)]
  from packs t(2,3) have h: "st_handled t = [[1, 2], [3, 4], [5]]" "current (st_comp t) = []" by auto
  from packs obtain gs where
    "st_accepted (snd (st_world t)) = st_accepted (sample_uploader 4) @ map (join_bytes [0]) gs"
    "concat gs @ current (st_comp t) = filter (\<lambda>d. d \<noteq> []) (st_handled t)" by auto
  with h t(2,3) \<open>st_accepted (sample_uploader 4) = []\<close> show ?thesis
    by (intro exI[of _ t] conjI exI[of _ gs]) simp_all
qed

text \<open>
  C20 (safety): a producer may call \<open>Enqueue\<close> of either accumulator in every state they can get
  into, with the channel full, during the shutdown and after it: the call returns, it does not send
  on the closed channel, and once the shutdown has begun it returns an error.
\<close>

theorem producers_never_wait:
  assumes "circuit_breaker execute" and "uploader_up u"
    and "NewAccumulatorBySize L sep cap = Ret acc"
    and "NewAccumulatorByTimeAndSize L sep cap f = Ret acct"
    and "stage_reach (flow_ops_by_size execute pass) (flow_start_by_size acc b u) t"
    and "stage_reach (flow_ops_by_time execute pass) (flow_start_by_time acct b u) tt"
  shows "(\<exists>c err. Enqueue_by_size rdy (st_comp t) d = Ret (c, err) \<and>
      (st_phase t \<noteq> Running \<longrightarrow> err \<noteq> None)) \<and>
    (\<exists>c err. Enqueue_by_time rdy (st_comp tt) d = Ret (c, err) \<and>
      (st_phase tt \<noteq> Running \<longrightarrow> err \<noteq> None))"
  using guarded_flow.by_size_flow_producers[OF guarded_flow.intro[OF assms(1)] assms(3,2,5)]
    guarded_flow.by_time_flow_producers[OF guarded_flow.intro[OF assms(1)] assms(4,2,6)] by blast

lemma producers_never_wait_witness:
  "\<exists>c c' :: by_size. \<exists>d d' :: by_time. \<exists>err err'.
     Enqueue_by_size True c [1] = Ret (c', Some err) \<and>
     Enqueue_by_time True d [1] = Ret (d', Some err')"
proof -
  obtain t where t: "stage_reach (flow_ops_by_size dummy_execute id)
      (flow_start_by_size sample_by_size () (sample_uploader 2)) t" "st_phase t = Finished"
    using sample_by_size_run by blast
  obtain tt where tt: "stage_reach (flow_ops_by_time dummy_execute id)
      (flow_start_by_time sample_by_time () (sample_uploader 2)) tt" "st_phase tt = Flagged"
  proof -
    have "map_option st_phase (stage_run (flow_ops_by_time dummy_execute id) [Cancel]
        (flow_start_by_time sample_by_time () (sample_uploader 2))) = Some Flagged" by code_simp
    then show ?thesis using that by (auto simp del: stage_run.simps dest: stage_run_reach)
  qed
  from producers_never_wait[OF dummy.circuit_breaker_axioms sample_uploader_up sample_accumulators
      t(1) tt(1), of True "[1]"] t(2) tt(2)
  show ?thesis by auto
qed



text \<open>
  C27 (functional): the Prometheus counters tell the truth: at every moment the bytes-in counter is
  the size of the payloads handled, the bytes-out counter the size of the objects pushed, the
  kilobyte counters are these divided by 1024, and the next-counter is the number of objects.
\<close>

theorem accumulator_counters_match:
  assumes "circuit_breaker execute" and "NewAccumulatorBySize L sep cap = Ret acc"
    and "uploader_up u"
    and "stage_reach (flow_ops_by_size execute pass) (flow_start_by_size acc b u) t"
  shows "\<exists>objs. st_accepted (snd (st_world t)) = st_accepted u @ objs \<and>
    (let m = metrics (st_comp t); bytes_of = (\<lambda>ds. \<Sum>d\<leftarrow>ds. int (length d)) in
     dataSizeInBytesCounter m = bytes_of (st_handled t) \<and>
     dataSizeOutBytesCounter m = bytes_of objs \<and>
     dataSizeInKBsCounter m = of_int (bytes_of (st_handled t)) / 1024 \<and>
     dataSizeOutKBsCounter m = of_int (bytes_of objs) / 1024 \<and>
     nextCounter m = length objs)"
  using guarded_flow.by_size_flow_packing[OF guarded_flow.intro[OF assms(1)] assms(2-4)]
  by (auto simp: Let_def counters_match_def sent_metrics_def newMetricCollector_def split: if_splits)

lemma accumulator_counters_match_witness:
  "\<exists>t :: (by_size, bytes, unit \<times> up_stage) stage_state.
     st_phase t = Finished \<and> dataSizeOutBytesCounter (metrics (st_comp t)) = 6 \<and>
     nextCounter (metrics (st_comp t)) = 2"
proof -
  obtain t where t: "stage_reach (flow_ops_by_size dummy_execute id)
      (flow_start_by_size sample_by_size () (sample_uploader 2)) t" "st_phase t = Finished"
    "st_accepted (snd (st_world t)) = [[1, 2, 0, 3, 4], [5]]" using sample_by_size_run by blast
  have "st_accepted (sample_uploader 2) = []" by (simp add: sample_uploader_def stage_start_def)
  with accumulator_counters_match[OF dummy.circuit_breaker_axioms sample_accumulators(1)
      sample_uploader_up t(1)] t(2,3)
  show ?thesis by (intro exI[of _ t]) (auto simp: Let_def)
qed

text \<open>
  The function \<open>shutdown\<close>, called in any state in which the goroutine of a running
  accumulator is at its \<open>select\<close>, returns; then the queue is empty and everything ever accepted has
  been pushed, grouped as the packing says, with the rest as one last object.
\<close>

lemma shutdown_pushes_everything:
  assumes "recovering_breaker execute pass cooldown K"
    and "NewAccumulatorBySize L sep cap = Ret acc" and "uploader_up u"
    and "stage_reach (flow_ops_by_size execute pass) (flow_start_by_size acc b u) t"
    and "st_parked t"
  shows "\<exists>acc' w'. shutdown_by_size (flow_exec execute) (flow_rest pass) (st_comp t) (st_world t) =
      Ret (acc', w') \<and> chan_buf (internalDataChan acc') = [] \<and> shuttingDown acc' \<and>
    st_accepted (snd w') = st_accepted u @
      map (join_bytes sep) (fst (flushed (pack L (int (length sep)) (st_accepted t))))"
  using flow_breaker.by_size_flow_shutdown
    [OF flow_breaker.intro[OF guarded_flow.intro[OF recovering_breaker.axioms(1)[OF assms(1)]] assms(1)]
      assms(2-5)] .

end
