(* ===== verification/Worker.thy ===== *)
theory Worker
  imports Compression Domain Go_Chan
begin

text \<open>
  The upload workers: pkg/worker/worker.go.  A worker receives work units from the channel of the
  flow, compresses the data, uploads it to every storage of the flow at the same time and tells the
  queue that belongs to each storage about the object.

  A destination is a storage together with its queue; its state \<open>'e\<close> is whatever is outside the
  program there.  The operations are parameters here, and given by the adapters in the theories
  Obj_Storage and Ext_Queue.
\<close>

record 'e destination =
  ds_Upload :: "'e \<Rightarrow> work_unit \<Rightarrow> 'e \<times> (error + upload_result)"
  ds_Enqueue :: "'e \<Rightarrow> message_context \<Rightarrow> 'e \<times> error option"

record wk_metrics =
  workInFlight :: int

record ('e, 'w) worker =
  wk_destinations :: "'e destination list"
  wk_incomingWorkChan :: "work_unit gochan"
  wk_flowName :: string
  wk_compressionConf :: compression_config
  wk_codecs :: "'w codecs"
  wk_doneChan :: "unit gochan option"

text \<open>\<open>NewWorker\<close>: the storages and the queues are paired by position.\<close>

definition NewWorker ::
  "string \<Rightarrow> ('e \<Rightarrow> work_unit \<Rightarrow> 'e \<times> (error + upload_result)) list \<Rightarrow>
   ('e \<Rightarrow> message_context \<Rightarrow> 'e \<times> error option) list \<Rightarrow> work_unit gochan \<Rightarrow> compression_config \<Rightarrow>
   'w codecs \<Rightarrow> ('e, 'w) worker go" where
  "NewWorker flowName storages extQueues incoming conf cd =
     (if length storages \<noteq> length extQueues then
        Panic (''number of storages must be equal to number of external queues at flow '' @ flowName)
      else Ret \<lparr>wk_destinations =
                  map (\<lambda>(s, q). \<lparr>ds_Upload = s, ds_Enqueue = q\<rparr>) (zip storages extQueues),
                wk_incomingWorkChan = incoming, wk_flowName = flowName, wk_compressionConf = conf,
                wk_codecs = cd, wk_doneChan = None\<rparr>)"

subsection \<open>One destination\<close>

definition messageFor :: "upload_result \<Rightarrow> string \<Rightarrow> int \<Rightarrow> message_context" where
  "messageFor r compressionType uploadedAt =
     \<lparr>mc_Bucket = ur_Bucket r, mc_Region = ur_Region r, mc_Path = ur_Path r, mc_URL = ur_URL r,
      mc_SizeInBytes = ur_SizeInBytes r, mc_CompressionType = compressionType,
      mc_SavedAt = uploadedAt\<rparr>"

text \<open>
  The goroutine of one destination: upload; on success, enqueue a message.  \<open>uploadedAt\<close> is what
  the time provider says after the upload.
\<close>

definition uploadAndNotify ::
  "'e destination \<Rightarrow> compression_config \<Rightarrow> int \<Rightarrow> work_unit \<Rightarrow> 'e \<Rightarrow> 'e \<times> error option" where
  "uploadAndNotify dst conf uploadedAt workU e =
     (case ds_Upload dst e workU of
        (e1, Inl err) \<Rightarrow> (e1, Some (Wrapf ''failed to upload object to storage: %w'' err))
      | (e1, Inr uploadResult) \<Rightarrow>
          (case ds_Enqueue dst e1 (messageFor uploadResult (cp_Type conf) uploadedAt) of
             (e2, Some err) \<Rightarrow> (e2, Some (Wrapf ''failed to enqueue data %w'' err))
           | (e2, None) \<Rightarrow> (e2, None)))"

subsection \<open>All destinations at once\<close>

text \<open>
  The goroutines run at the same time, each on its own destination, and put their errors into
  \<open>errorChan\<close> in the order in which they end: \<open>order\<close> is that order, a permutation of the
  positions.  \<open>errorChan\<close> has a slot for each of them; a full channel would block a goroutine.
\<close>

fun runGoroutines ::
  "'e destination list \<Rightarrow> compression_config \<Rightarrow> (nat \<Rightarrow> int) \<Rightarrow> work_unit \<Rightarrow> nat list \<Rightarrow>
   'e list \<times> error gochan \<Rightarrow> ('e list \<times> error gochan) go" where
  "runGoroutines dsts conf clock workU [] (es, errorChan) = Ret (es, errorChan)"
| "runGoroutines dsts conf clock workU (idx # order) (es, errorChan) =
     (case uploadAndNotify (dsts ! idx) conf (clock idx) workU (es ! idx) of
        (e', None) \<Rightarrow> runGoroutines dsts conf clock workU order (es[idx := e'], errorChan)
      | (e', Some newErr) \<Rightarrow>
          go_bind (chan_send errorChan newErr) (\<lambda>errorChan.
            runGoroutines dsts conf clock workU order (es[idx := e'], errorChan)))"

text \<open>\<open>for newErr := range errorChan { err = errors.Join(err, newErr) }\<close> on the closed channel.\<close>

definition joinErrors :: "error gochan \<Rightarrow> error option go" where
  "joinErrors errorChan =
     go_bind (drain (\<lambda>_ newErr err. Ret (errors_join err (Some newErr))) errorChan None)
       (\<lambda>(_, err). Ret err)"

definition sendDataAndNotify ::
  "'e destination list \<Rightarrow> compression_config \<Rightarrow> (nat \<Rightarrow> int) \<Rightarrow> work_unit \<Rightarrow> nat list \<Rightarrow> 'e list \<Rightarrow>
   ('e list \<times> error option) go" where
  "sendDataAndNotify dsts conf clock workU order es =
     go_bind (make_chan (int (length dsts))) (\<lambda>errorChan.
     go_bind (runGoroutines dsts conf clock workU order (es, errorChan)) (\<lambda>(es, errorChan).
     go_bind (chan_close errorChan) (\<lambda>errorChan.
     go_bind (joinErrors errorChan) (\<lambda>err. Ret (es, err)))))"

text \<open>
  \<open>work\<close>: the errors are only logged; the result here is what it logs, if anything.  The
  deferred decrement restores the gauge on every path.
\<close>

definition work ::
  "('e, 'w) worker \<Rightarrow> (nat \<Rightarrow> int) \<Rightarrow> nat list \<Rightarrow> work_unit \<Rightarrow> 'e list \<times> wk_metrics \<Rightarrow>
   (('e list \<times> wk_metrics) \<times> error option) go" where
  "work w clock order workU st =
     (let es = fst st; m = (snd st)\<lparr>workInFlight := workInFlight (snd st) + 1\<rparr> in
      go_bind (compress (wk_codecs w) (wk_compressionConf w) (wu_Data workU)) (\<lambda>compressed.
        case compressed of
          Inl err \<Rightarrow> Ret ((es, m\<lparr>workInFlight := workInFlight m - 1\<rparr>), Some err)
        | Inr compressedData \<Rightarrow>
            go_bind (sendDataAndNotify (wk_destinations w) (wk_compressionConf w) clock
                       (workU\<lparr>wu_Data := compressedData\<rparr>) order es) (\<lambda>(es, err).
              Ret ((es, m\<lparr>workInFlight := workInFlight m - 1\<rparr>), err))))"

subsection \<open>The worker's loop\<close>

text \<open>
  One turn of the \<open>select\<close> in \<open>Run\<close> when its context is not cancelled: a unit is worked on; a
  closed and empty channel gives nil, which is ignored (and the loop goes on).
\<close>

definition runTurn ::
  "('e, 'w) worker \<Rightarrow> (nat \<Rightarrow> int) \<Rightarrow> nat list \<Rightarrow> 'e list \<times> wk_metrics \<Rightarrow>
   (('e, 'w) worker \<times> 'e list \<times> wk_metrics) go" where
  "runTurn w clock order st =
     go_bind (chan_recv (wk_incomingWorkChan w)) (\<lambda>(ch, workU).
       case workU of
         None \<Rightarrow> Ret (w\<lparr>wk_incomingWorkChan := ch\<rparr>, st)
       | Some u \<Rightarrow> go_bind (work w clock order u st) (\<lambda>(st, logged).
           Ret (w\<lparr>wk_incomingWorkChan := ch\<rparr>, st)))"

text \<open>
  \<open>drainWorkChan\<close>, after the cancellation: until the channel, which the uploader closes, is empty.
\<close>

definition drainWorkChan ::
  "('e, 'w) worker \<Rightarrow> (nat \<Rightarrow> int) \<Rightarrow> nat list \<Rightarrow> 'e list \<times> wk_metrics \<Rightarrow>
   (('e, 'w) worker \<times> 'e list \<times> wk_metrics) go" where
  "drainWorkChan w clock order st =
     go_bind (drain (\<lambda>_ u st. go_bind (work w clock order u st) (\<lambda>(st, logged). Ret st))
                (wk_incomingWorkChan w) st)
       (\<lambda>(ch, st). Ret (w\<lparr>wk_incomingWorkChan := ch\<rparr>, st))"

definition startRun_worker :: "('e, 'w) worker \<Rightarrow> ('e, 'w) worker" where
  "startRun_worker w =
     w\<lparr>wk_doneChan := Some \<lparr>chan_cap = 0, chan_buf = [], chan_closed = False\<rparr>\<rparr>"

definition closeDone_worker :: "('e, 'w) worker \<Rightarrow> ('e, 'w) worker" where
  "closeDone_worker w =
     w\<lparr>wk_doneChan := map_option (\<lambda>ch. ch\<lparr>chan_closed := True\<rparr>) (wk_doneChan w)\<rparr>"

definition Done_worker :: "('e, 'w) worker \<Rightarrow> unit gochan option" where
  "Done_worker w = wk_doneChan w"

subsection \<open>What the goroutines do together\<close>

text \<open>The same, destination by destination.\<close>

definition dst_after ::
  "'e destination list \<Rightarrow> compression_config \<Rightarrow> (nat \<Rightarrow> int) \<Rightarrow> work_unit \<Rightarrow> 'e list \<Rightarrow> nat \<Rightarrow>
   'e \<times> error option" where
  "dst_after dsts conf clock workU es i =
     uploadAndNotify (dsts ! i) conf (clock i) workU (es ! i)"

definition dst_errors ::
  "'e destination list \<Rightarrow> compression_config \<Rightarrow> (nat \<Rightarrow> int) \<Rightarrow> work_unit \<Rightarrow> 'e list \<Rightarrow> nat list \<Rightarrow>
   error list" where
  "dst_errors dsts conf clock workU es order =
     List.map_filter (\<lambda>i. snd (dst_after dsts conf clock workU es i)) order"

lemma length_dst_errors: "length (dst_errors dsts conf clock workU es order) \<le> length order"
  by (induction order) (auto simp: dst_errors_def List.map_filter_simps split: option.split)

lemma runGoroutines_all:
  assumes "distinct order" and "set order \<subseteq> {..<length es}" and "\<not> chan_closed ch"
    and "length (chan_buf ch) + length order \<le> chan_cap ch"
    and "\<forall>i \<in> set order. es ! i = start ! i"
  shows "runGoroutines dsts conf clock workU order (es, ch) =
    Ret (map (\<lambda>i. if i \<in> set order then fst (dst_after dsts conf clock workU start i) else es ! i)
           [0..<length es],
         ch\<lparr>chan_buf := chan_buf ch @ dst_errors dsts conf clock workU start order\<rparr>)"
  using assms
proof (induction order arbitrary: es ch)
  case Nil
  then show ?case by (simp add: dst_errors_def List.map_filter_simps map_nth)
next
  case (Cons i order)
  obtain e' r where u: "uploadAndNotify (dsts ! i) conf (clock i) workU (start ! i) = (e', r)" by fastforce
  let ?ch = "case r of None \<Rightarrow> ch | Some err \<Rightarrow> ch\<lparr>chan_buf := chan_buf ch @ [err]\<rparr>"
  have step: "runGoroutines dsts conf clock workU (i # order) (es, ch) =
      runGoroutines dsts conf clock workU order (es[i := e'], ?ch)"
    using Cons.prems u by (cases r) (auto simp: chan_send_def)
  have "runGoroutines dsts conf clock workU order (es[i := e'], ?ch) =
      Ret (map (\<lambda>j. if j \<in> set order then fst (dst_after dsts conf clock workU start j)
               else es[i := e'] ! j) [0..<length (es[i := e'])],
           ?ch\<lparr>chan_buf := chan_buf ?ch @ dst_errors dsts conf clock workU start order\<rparr>)"
  proof (rule Cons.IH)
    show "\<forall>j \<in> set order. es[i := e'] ! j = start ! j"
      using Cons.prems(1,5) by (metis distinct.simps(2) list.set_intros(2) nth_list_update_neq)
  qed (use Cons.prems in \<open>auto split: option.split\<close>)
  moreover have "map (\<lambda>j. if j \<in> set order then fst (dst_after dsts conf clock workU start j)
               else es[i := e'] ! j) [0..<length (es[i := e'])] =
      map (\<lambda>j. if j \<in> set (i # order) then fst (dst_after dsts conf clock workU start j)
               else es ! j) [0..<length es]"
    using Cons.prems(1,2) u by (auto simp: dst_after_def)
  moreover have "?ch\<lparr>chan_buf := chan_buf ?ch @ dst_errors dsts conf clock workU start order\<rparr> =
      ch\<lparr>chan_buf := chan_buf ch @ dst_errors dsts conf clock workU start (i # order)\<rparr>"
    using u by (cases r) (simp_all add: dst_errors_def dst_after_def List.map_filter_simps)
  ultimately show ?case using step by simp
qed

fun joined :: "error list \<Rightarrow> error option" where
  "joined [] = None"
| "joined (e # es) = Some (foldl Joined e es)"

lemma foldl_errors_join:
  "foldl (\<lambda>err x. errors_join err (Some x)) (Some e) es = Some (foldl Joined e es)"
  by (induction es arbitrary: e) auto

lemma joinErrors_closed:
  assumes "chan_closed ch"
  shows "joinErrors ch = Ret (joined (chan_buf ch))"
proof -
  have "drain (\<lambda>_ x err. Ret (errors_join err (Some x))) ch s =
      Ret (ch\<lparr>chan_buf := []\<rparr>, foldl (\<lambda>err x. errors_join err (Some x)) s (chan_buf ch))" for s
    using assms
  proof (induction "chan_buf ch" arbitrary: ch s)
    case Nil
    then show ?case by (subst drain_closed_Nil) (auto intro: gochan.equality)
  next
    case (Cons x xs)
    from Cons.hyps(1)[of "ch\<lparr>chan_buf := xs\<rparr>"] Cons.prems
    show ?case
      by (subst drain_closed_Cons[OF Cons.hyps(2)[symmetric]]) (simp flip: Cons.hyps(2))
  qed
  then show ?thesis by (cases "chan_buf ch") (simp_all add: joinErrors_def foldl_errors_join)
qed

text \<open>The positions in any order: nothing blocks, and every destination gets its turn.\<close>

lemma sendDataAndNotify_all:
  assumes "distinct order" and "set order = {..<length dsts}" and "length es = length dsts"
  shows "sendDataAndNotify dsts conf clock workU order es =
    Ret (map (\<lambda>i. fst (dst_after dsts conf clock workU es i)) [0..<length dsts],
         joined (dst_errors dsts conf clock workU es order))"
proof -
  have "length order = length dsts"
    using assms(1,2) by (metis card_lessThan distinct_card)
  with assms have "runGoroutines dsts conf clock workU order
      (es, \<lparr>chan_cap = length dsts, chan_buf = [], chan_closed = False\<rparr>) =
    Ret (map (\<lambda>i. if i \<in> set order then fst (dst_after dsts conf clock workU es i) else es ! i)
           [0..<length es],
         \<lparr>chan_cap = length dsts, chan_buf = dst_errors dsts conf clock workU es order,
          chan_closed = False\<rparr>)"
    by (subst runGoroutines_all[where start = es]) simp_all
  moreover have "map (\<lambda>i. if i \<in> set order then fst (dst_after dsts conf clock workU es i) else es ! i)
      [0..<length es] = map (\<lambda>i. fst (dst_after dsts conf clock workU es i)) [0..<length dsts]"
    using assms by simp
  ultimately show ?thesis
    by (simp add: sendDataAndNotify_def make_chan_def chan_close_def joinErrors_closed)
qed

lemma joined_None_iff [simp]: "joined errs = None \<longleftrightarrow> errs = []"
  by (cases errs) auto

lemma dst_errors_Nil_iff:
  "dst_errors dsts conf clock workU es order = [] \<longleftrightarrow>
     (\<forall>i \<in> set order. snd (dst_after dsts conf clock workU es i) = None)"
  by (induction order) (auto simp: dst_errors_def List.map_filter_simps split: option.splits)

text \<open>The effect of one unit on the destinations; a unit that cannot be compressed has none.\<close>

definition work_effect ::
  "('e, 'w) worker \<Rightarrow> (nat \<Rightarrow> int) \<Rightarrow> 'e list \<Rightarrow> work_unit \<Rightarrow> 'e list" where
  "work_effect w clock es u =
     (case compress (wk_codecs w) (wk_compressionConf w) (wu_Data u) of
        Ret (Inr c) \<Rightarrow>
          map (\<lambda>i. fst (dst_after (wk_destinations w) (wk_compressionConf w) clock
                         (u\<lparr>wu_Data := c\<rparr>) es i)) [0..<length (wk_destinations w)]
      | _ \<Rightarrow> es)"

lemma length_work_effect [simp]:
  "length es = length (wk_destinations w) \<Longrightarrow>
   length (work_effect w clock es u) = length (wk_destinations w)"
  by (auto simp: work_effect_def split: go.split sum.split)

lemma work_spec:
  assumes "distinct order" and "set order = {..<length (wk_destinations w)}"
    and "length es = length (wk_destinations w)"
  shows "\<exists>logged. work w clock order u (es, m) = Ret ((work_effect w clock es u, m), logged)"
proof -
  obtain r where c: "compress (wk_codecs w) (wk_compressionConf w) (wu_Data u) = Ret r"
    using compress_returns by (fastforce simp: go_returns_iff)
  show ?thesis
  proof (cases r)
    case (Inl e)
    with c show ?thesis by (simp add: work_def work_effect_def Let_def)
  next
    case (Inr d)
    with c sendDataAndNotify_all[OF assms] show ?thesis by (simp add: work_def work_effect_def Let_def)
  qed
qed

lemma drain_work:
  assumes "distinct order" and "set order = {..<length (wk_destinations w)}"
    and "length es = length (wk_destinations w)" and "chan_closed ch"
  shows "drain (\<lambda>_ u st. go_bind (work w clock order u st) (\<lambda>(st, logged). Ret st)) ch (es, m) =
    Ret (ch\<lparr>chan_buf := []\<rparr>, foldl (work_effect w clock) es (chan_buf ch), m)"
  using assms(3,4)
proof (induction "chan_buf ch" arbitrary: ch es)
  case Nil
  then show ?case by (subst drain_closed_Nil) (auto intro: gochan.equality)
next
  case (Cons u us)
  obtain logged where "work w clock order u (es, m) = Ret ((work_effect w clock es u, m), logged)"
    using work_spec[OF assms(1,2) Cons.prems(1)] by blast
  with Cons.hyps(1)[of "ch\<lparr>chan_buf := us\<rparr>" "work_effect w clock es u"] Cons.prems
  show ?case
    by (subst drain_closed_Cons[OF Cons.hyps(2)[symmetric]]) (simp flip: Cons.hyps(2))
qed

subsection \<open>Properties\<close>

text \<open>
  In whatever order the uploads end, \<open>sendDataAndNotify\<close> returns; every
  destination has been served once, independently of the others' failures; the result is nil
  exactly when all of them succeeded, and otherwise joins the errors in the order they came in.
\<close>

lemma sendDataAndNotify_serves_all:
  assumes "distinct order" and "set order = {..<length dsts}" and "length es = length dsts"
  shows "\<exists>es' err. sendDataAndNotify dsts conf clock workU order es = Ret (es', err) \<and>
    length es' = length dsts \<and>
    (\<forall>i < length dsts. es' ! i = fst (uploadAndNotify (dsts ! i) conf (clock i) workU (es ! i))) \<and>
    (err = None \<longleftrightarrow>
      (\<forall>i < length dsts. snd (uploadAndNotify (dsts ! i) conf (clock i) workU (es ! i)) = None)) \<and>
    err = joined (List.map_filter
      (\<lambda>i. snd (uploadAndNotify (dsts ! i) conf (clock i) workU (es ! i))) order)"
proof (intro exI conjI)
  show "sendDataAndNotify dsts conf clock workU order es =
      Ret (map (\<lambda>i. fst (dst_after dsts conf clock workU es i)) [0..<length dsts],
           joined (dst_errors dsts conf clock workU es order))"
    by (rule sendDataAndNotify_all[OF assms])
  show "(joined (dst_errors dsts conf clock workU es order) = None) \<longleftrightarrow>
      (\<forall>i < length dsts. snd (uploadAndNotify (dsts ! i) conf (clock i) workU (es ! i)) = None)"
    using assms(2) by (simp add: dst_errors_Nil_iff dst_after_def Ball_def)
qed (simp_all add: dst_after_def dst_errors_def)

text \<open>Two destinations that record what they get, the second of which fails to upload.\<close>

definition recording_destination :: "bool \<Rightarrow> (bytes list \<times> message_context list) destination" where
  "recording_destination ok =
     \<lparr>ds_Upload = (\<lambda>(us, ms) u.
        if ok then ((us @ [wu_Data u], ms),
          Inr \<lparr>ur_Bucket = ''b'', ur_Region = ''r'', ur_Path = wu_Filename u, ur_URL = ''u'',
               ur_SizeInBytes = int (length (wu_Data u))\<rparr>)
        else ((us, ms), Inl (Error ''down''))),
      ds_Enqueue = (\<lambda>(us, ms) msg. ((us, ms @ [msg]), None))\<rparr>"

text \<open>
  A destination's queue is told about an object if and only if its upload
  succeeded, after it, and once, with the bucket, region, path, URL and size that the storage
  reported, the configured compression type and the time of the upload.
\<close>

lemma uploadAndNotify_message:
  "(\<forall>e1 err. ds_Upload dst e workU = (e1, Inl err) \<longrightarrow>
      uploadAndNotify dst conf t workU e =
        (e1, Some (Wrapf ''failed to upload object to storage: %w'' err))) \<and>
   (\<forall>e1 r. ds_Upload dst e workU = (e1, Inr r) \<longrightarrow>
      fst (uploadAndNotify dst conf t workU e) = fst (ds_Enqueue dst e1 (messageFor r (cp_Type conf) t)) \<and>
      snd (uploadAndNotify dst conf t workU e) =
        map_option (Wrapf ''failed to enqueue data %w'')
          (snd (ds_Enqueue dst e1 (messageFor r (cp_Type conf) t))))"
  by (auto simp: uploadAndNotify_def split: prod.split option.split)

text \<open>
  Once the uploader has closed the channel, a worker's \<open>drainWorkChan\<close> ends, with
  the channel empty, every unit that was in it worked on, in order, at every destination, and the
  in-flight gauge back where it was; errors in between do not stop it.
\<close>

lemma drainWorkChan_completes:
  assumes "distinct order" and "set order = {..<length (wk_destinations w)}"
    and "length es = length (wk_destinations w)" and "chan_closed (wk_incomingWorkChan w)"
  shows "drainWorkChan w clock order (es, m) =
    Ret (w\<lparr>wk_incomingWorkChan := (wk_incomingWorkChan w)\<lparr>chan_buf := []\<rparr>\<rparr>,
         foldl (work_effect w clock) es (chan_buf (wk_incomingWorkChan w)), m)"
  by (simp add: drainWorkChan_def drain_work[OF assms])

text \<open>
  \<open>NewWorker\<close> panics exactly when the numbers of storages and queues differ; otherwise
  the i-th storage is paired with the i-th queue.
\<close>

lemma NewWorker_pairs:
  "go_panics (NewWorker flowName storages queues ch conf cd) = (length storages \<noteq> length queues) \<and>
   (\<forall>w. NewWorker flowName storages queues ch conf cd = Ret w \<longrightarrow>
      map ds_Upload (wk_destinations w) = storages \<and> map ds_Enqueue (wk_destinations w) = queues)"
  by (auto simp: NewWorker_def comp_def case_prod_beta)

end
