(* ===== verification/Obj_Storage.thy ===== *)
theory Obj_Storage
  imports Domain Config
begin

text \<open>
  The object storages: pkg/adapters/objstorage with s3/s3.go, localstorage/localstorage.go,
  httpstorage/httpstorage.go, the metrics wrapper storage_with_metrics.go and the factory
  objstorage.go.  Parameters, collected in the record \<open>storage_env\<close>: the AWS SDK and the network
  behind \<open>http.Client\<close> (acting on an external state \<open>'e\<close>), and the YAML package for the specific
  configurations.  The file system is a model of what package os does with it.
\<close>

subsection \<open>Paths\<close>

fun split_slash :: "string \<Rightarrow> string \<Rightarrow> string list" where
  "split_slash acc [] = [rev acc]"
| "split_slash acc (c # cs) =
     (if c = CHR ''/'' then rev acc # split_slash [] cs else split_slash (c # acc) cs)"

fun join_slash :: "string list \<Rightarrow> string" where
  "join_slash [] = []"
| "join_slash [s] = s"
| "join_slash (s # t # ss) = s @ ''/'' @ join_slash (t # ss)"

text \<open>\<open>filepath.Clean\<close>: the components of the result, in reverse order.\<close>

fun clean_components :: "bool \<Rightarrow> string list \<Rightarrow> string list \<Rightarrow> string list" where
  "clean_components rooted out [] = out"
| "clean_components rooted out (c # cs) =
     (if c = [] \<or> c = ''.'' then clean_components rooted out cs
      else if c = ''..'' then
        (case out of
           o1 # os \<Rightarrow> if o1 = ''..'' then clean_components rooted (''..'' # out) cs
                     else clean_components rooted os cs
         | [] \<Rightarrow> if rooted then clean_components rooted [] cs
                 else clean_components rooted [''..''] cs)
      else clean_components rooted (c # out) cs)"

definition filepath_Clean :: "string \<Rightarrow> string" where
  "filepath_Clean p =
     (let rooted = strings_HasPrefix p ''/'';
          cs = rev (clean_components rooted [] (split_slash [] p)) in
      if p = [] then ''.''
      else if rooted then CHR ''/'' # join_slash cs
      else if cs = [] then ''.'' else join_slash cs)"

definition filepath_Join :: "string list \<Rightarrow> string" where
  "filepath_Join elems =
     (let es = filter (\<lambda>e. e \<noteq> []) elems in if es = [] then [] else filepath_Clean (join_slash es))"

subsection \<open>The file system\<close>

text \<open>
  \<open>fs_fault op p\<close> is a failure of the operation on that path for reasons outside the model
  (permissions, a full disk); a failing \<open>WriteFile\<close> may leave part of the data behind.
\<close>

record filesystem =
  fs_dir :: "string \<Rightarrow> bool"
  fs_file :: "string \<Rightarrow> bytes option"
  fs_fault :: "string \<Rightarrow> string \<Rightarrow> error option"
  fs_partial :: "string \<Rightarrow> bytes option"

definition errNotExist :: error where "errNotExist = Error ''file does not exist''"

definition os_IsNotExist :: "error \<Rightarrow> bool" where "os_IsNotExist e \<longleftrightarrow> e = errNotExist"

text \<open>\<open>os.Stat\<close>: whether it is a directory.\<close>

definition os_Stat :: "filesystem \<Rightarrow> string \<Rightarrow> error + bool" where
  "os_Stat fs p =
     (case fs_fault fs ''stat'' p of
        Some e \<Rightarrow> Inl e
      | None \<Rightarrow> if fs_dir fs p then Inr True
                else if fs_file fs p \<noteq> None then Inr False else Inl errNotExist)"

definition path_ancestors :: "string \<Rightarrow> string list" where
  "path_ancestors p = p # map (\<lambda>i. take i p) (filter (\<lambda>i. p ! i = CHR ''/'') [0..<length p])"

definition os_MkdirAll :: "filesystem \<Rightarrow> string \<Rightarrow> filesystem \<times> error option" where
  "os_MkdirAll fs p =
     (case fs_fault fs ''mkdir'' p of
        Some e \<Rightarrow> (fs, Some e)
      | None \<Rightarrow>
          if list_ex (\<lambda>q. fs_file fs q \<noteq> None) (path_ancestors p)
          then (fs, Some (Error ''not a directory''))
          else (fs\<lparr>fs_dir := (\<lambda>q. fs_dir fs q \<or> q \<in> set (path_ancestors p))\<rparr>, None))"

definition path_parent :: "string \<Rightarrow> string" where
  "path_parent p =
     (if CHR ''/'' \<in> set p then rev (tl (dropWhile (\<lambda>c. c \<noteq> CHR ''/'') (rev p))) else ''.'')"

definition os_WriteFile :: "filesystem \<Rightarrow> string \<Rightarrow> bytes \<Rightarrow> filesystem \<times> error option" where
  "os_WriteFile fs p d =
     (case fs_fault fs ''write'' p of
        Some e \<Rightarrow>
          (case fs_partial fs p of
             None \<Rightarrow> (fs, Some e)
           | Some part \<Rightarrow> (fs\<lparr>fs_file := (fs_file fs)(p \<mapsto> part)\<rparr>, Some e))
      | None \<Rightarrow>
          if fs_dir fs p then (fs, Some (Error ''is a directory''))
          else if path_parent p \<noteq> ''.'' \<and> path_parent p \<noteq> [] \<and> \<not> fs_dir fs (path_parent p)
            then (fs, Some errNotExist)
          else (fs\<lparr>fs_file := (fs_file fs)(p \<mapsto> d)\<rparr>, None))"

subsection \<open>Local storage\<close>

record local_storage =
  lc_path :: string

definition local_TYPE :: string where [simp]: "local_TYPE = ''localstorage''"

definition local_validateAndFormatPath :: "filesystem \<Rightarrow> string \<Rightarrow> error + string" where
  "local_validateAndFormatPath fs path =
     (case os_Stat fs path of
        Inl err \<Rightarrow>
          if os_IsNotExist err
          then Inl (Wrapf ''the directory for the path doesn't exist: %w'' err)
          else Inl (Wrapf ''error on the provided path: %w'' err)
      | Inr isDir \<Rightarrow>
          if \<not> isDir then Inl (Error ''provided path is not a directory'')
          else Inr (strings_TrimSuffix path ''/''))"

definition local_New :: "filesystem \<Rightarrow> string \<Rightarrow> error + local_storage" where
  "local_New fs confPath =
     (case local_validateAndFormatPath fs confPath of
        Inl err \<Rightarrow> Inl (Wrapf ''error creating localstorage: %w'' err)
      | Inr path \<Rightarrow> Inr \<lparr>lc_path = path\<rparr>)"

definition local_ParseConfig :: "(bytes \<Rightarrow> error + string) \<Rightarrow> bytes \<Rightarrow> error + string" where
  "local_ParseConfig unmarshal confData =
     (case unmarshal confData of
        Inl err \<Rightarrow> Inl (Wrapf ''error parsing localstorage config: %w'' err)
      | Inr conf \<Rightarrow> Inr conf)"

definition local_Upload ::
  "local_storage \<Rightarrow> work_unit \<Rightarrow> filesystem \<Rightarrow> filesystem \<times> (error + upload_result)" where
  "local_Upload storage workU fs =
     (let directoryPath = filepath_Join [lc_path storage, wu_Prefix workU];
          made = (case os_Stat fs directoryPath of
                    Inr _ \<Rightarrow> (fs, None)
                  | Inl err \<Rightarrow>
                      if \<not> os_IsNotExist err
                      then (fs, Some (Wrapf ''error getting directory info: %w'' err))
                      else (case os_MkdirAll fs directoryPath of
                              (fs, Some err) \<Rightarrow> (fs, Some (Wrapf ''error creating directory: %w'' err))
                            | (fs, None) \<Rightarrow> (fs, None))) in
      case made of
        (fs, Some err) \<Rightarrow> (fs, Inl err)
      | (fs, None) \<Rightarrow>
          (let fullFilePath = filepath_Join [lc_path storage, wu_Prefix workU, wu_Filename workU] in
           case os_WriteFile fs fullFilePath (wu_Data workU) of
             (fs, Some err) \<Rightarrow> (fs, Inl (Wrapf ''error writing data into file: %w'' err))
           | (fs, None) \<Rightarrow>
               (fs, Inr \<lparr>ur_Bucket = ''localstorage'', ur_Region = [], ur_Path = fullFilePath,
                         ur_URL = fullFilePath, ur_SizeInBytes = int (length (wu_Data workU))\<rparr>)))"

definition local_Type :: "local_storage \<Rightarrow> string" where [simp]: "local_Type x = ''localstorage''"
definition local_Name :: "local_storage \<Rightarrow> string" where [simp]: "local_Name x = ''localstorage''"

subsection \<open>HTTP storage\<close>

record http_storage =
  ht_url :: string

text \<open>
  \<open>hc_NewRequest\<close>: \<open>http.NewRequest\<close> rejects an unparsable URL; \<open>hc_Do\<close>: the answer's status code.
\<close>

record 'e http_client =
  hc_NewRequest :: "string \<Rightarrow> string \<Rightarrow> error option"
  hc_Do :: "'e \<Rightarrow> string \<Rightarrow> string \<Rightarrow> bytes \<Rightarrow> 'e \<times> (error + int)"

definition httpst_TYPE :: string where [simp]: "httpst_TYPE = ''httpstorage''"

definition validateAndFormatURL :: "string \<Rightarrow> error + string" where
  "validateAndFormatURL url =
     (if \<not> strings_HasPrefix url ''http'' \<and> \<not> strings_HasPrefix url ''https'' then
        Inl (Error ''the url should start with http or https'')
      else if 1 < strings_Count url ''%s'' then
        Inl (Error ''multiple %s detected on URL, only 1 is allowed'')
      else if strings_Contains url ''%s'' \<and> \<not> strings_Contains url ''/%s'' then
        Inl (Error ''the %s should be preceeded by a / on URL'')
      else Inr url)"

definition NewHTTPStorage :: "string \<Rightarrow> error + http_storage" where
  "NewHTTPStorage confURL =
     (case validateAndFormatURL confURL of
        Inl err \<Rightarrow> Inl (Wrapf ''error creating httpstorage: %w'' err)
      | Inr url \<Rightarrow> Inr \<lparr>ht_url = url\<rparr>)"

definition httpst_ParseConfig :: "(bytes \<Rightarrow> error + string) \<Rightarrow> bytes \<Rightarrow> error + string" where
  "httpst_ParseConfig unmarshal confData =
     (case unmarshal confData of
        Inl err \<Rightarrow> Inl (Wrapf ''error parsing httpstorage config: %w'' err)
      | Inr conf \<Rightarrow> Inr conf)"

definition assembleURL :: "string \<Rightarrow> string \<Rightarrow> string \<Rightarrow> string \<times> string" where
  "assembleURL url filenamePathPrefix filename =
     (if \<not> strings_Contains url ''%s'' then (url, [])
      else
        let url = strings_TrimPrefix url ''/'';
            filenamePathPrefix = strings_Trim filenamePathPrefix CHR ''/'';
            filename = strings_Trim filename CHR ''/'';
            path = filenamePathPrefix @ ''/'' @ filename;
            url = strings_Replace1 url ''%s'' path
        in (url, path))"

definition http_Upload ::
  "'e http_client \<Rightarrow> http_storage \<Rightarrow> work_unit \<Rightarrow> 'e \<Rightarrow> 'e \<times> (error + upload_result)" where
  "http_Upload client storage workU e =
     (let (url, path) = assembleURL (ht_url storage) (wu_Prefix workU) (wu_Filename workU) in
      case hc_NewRequest client ''POST'' url of
        Some err \<Rightarrow> (e, Inl (Wrapf ''error creating http request: %w'' err))
      | None \<Rightarrow>
          (case hc_Do client e ''POST'' url (wu_Data workU) of
             (e, Inl err) \<Rightarrow> (e, Inl (Wrapf ''error doing http request: %w'' err))
           | (e, Inr status) \<Rightarrow>
               if status < 200 \<or> 300 \<le> status then
                 (e, Inl (Error (''request failed with status '' @ strconv_Itoa status)))
               else
                 (e, Inr \<lparr>ur_Bucket = ''httpstorage'', ur_Region = [], ur_Path = path, ur_URL = url,
                          ur_SizeInBytes = int (length (wu_Data workU))\<rparr>)))"

definition httpst_Type :: "http_storage \<Rightarrow> string" where [simp]: "httpst_Type x = ''httpstorage''"
definition httpst_Name :: "http_storage \<Rightarrow> string" where [simp]: "httpst_Name x = ''httpstorage''"

subsection \<open>S3\<close>

definition s3_TYPE :: string where [simp]: "s3_TYPE = ''s3''"

record s3_config =
  s3c_TimeoutInMillis :: int
  s3c_Bucket :: string
  s3c_Region :: string
  s3c_Endpoint :: string
  s3c_AccessKey :: string
  s3c_SecretKey :: string
  s3c_Prefix :: string
  s3c_ForcePathStyle :: bool

record s3_bucket =
  s3_name :: string
  s3_region :: string
  s3_fixedPrefix :: string
  s3_timeoutInMillis :: int

text \<open>
  \<open>s3_LoadDefaultConfig region endpoint\<close> of the SDK; \<open>s3_UploadObject\<close> with the deadline of the
  context, the bucket, the key and the body gives the location, if there is one.
\<close>

record 'e s3_api =
  s3_LoadDefaultConfig :: "string \<Rightarrow> string \<Rightarrow> error option"
  s3_UploadObject :: "'e \<Rightarrow> int option \<Rightarrow> string \<Rightarrow> string \<Rightarrow> bytes \<Rightarrow> 'e \<times> (error + string option)"

definition s3_New :: "'e s3_api \<Rightarrow> s3_config \<Rightarrow> error + s3_bucket" where
  "s3_New api c =
     (case s3_LoadDefaultConfig api (s3c_Region c) (s3c_Endpoint c) of
        Some err \<Rightarrow> Inl (Wrapf ''couldn't load default AWS configuration: %w'' err)
      | None \<Rightarrow> Inr \<lparr>s3_name = s3c_Bucket c, s3_region = s3c_Region c,
                     s3_fixedPrefix = s3c_Prefix c, s3_timeoutInMillis = s3c_TimeoutInMillis c\<rparr>)"

definition s3_ParseConfig :: "(bytes \<Rightarrow> error + s3_config) \<Rightarrow> bytes \<Rightarrow> error + s3_config" where
  "s3_ParseConfig unmarshal confData =
     (case unmarshal confData of
        Inl err \<Rightarrow> Inl (Wrapf ''error parsing S3 config: %w'' err)
      | Inr conf \<Rightarrow> Inr conf)"

definition mergeParts :: "string \<Rightarrow> string \<Rightarrow> string \<Rightarrow> string" where
  "mergeParts fixedPrefix dynamicPrefix key =
     (let result = strings_Trim fixedPrefix CHR ''/'' @ ''/'' @ strings_Trim dynamicPrefix CHR ''/'';
          result = strings_Trim result CHR ''/'';
          result = ''/'' @ result @ ''/'' @ strings_Trim key CHR ''/''
      in strings_Trim result CHR ''/'')"

definition doUpload ::
  "'e s3_api \<Rightarrow> s3_bucket \<Rightarrow> string \<Rightarrow> bytes \<Rightarrow> 'e \<Rightarrow> 'e \<times> (error + string option)" where
  "doUpload api bucket key body e =
     s3_UploadObject api e
       (if s3_timeoutInMillis bucket \<noteq> 0
        then Some (sint (word_of_int (s3_timeoutInMillis bucket) * 1000000 :: 64 word)) else None)
       (s3_name bucket) key body"

definition s3_Upload ::
  "'e s3_api \<Rightarrow> s3_bucket \<Rightarrow> work_unit \<Rightarrow> 'e \<Rightarrow> 'e \<times> (error + upload_result)" where
  "s3_Upload api bucket workU e =
     (let key = mergeParts (s3_fixedPrefix bucket) (wu_Prefix workU) (wu_Filename workU) in
      case doUpload api bucket key (wu_Data workU) e of
        (e, Inl err) \<Rightarrow> (e, Inl (Wrapf ''error when uploading to S3: %w'' err))
      | (e, Inr location) \<Rightarrow>
          (e, Inr \<lparr>ur_Bucket = s3_name bucket, ur_Region = s3_region bucket, ur_Path = key,
                   ur_URL = (case location of None \<Rightarrow> [] | Some l \<Rightarrow> l),
                   ur_SizeInBytes = int (length (wu_Data workU))\<rparr>))"

definition s3_Type :: "s3_bucket \<Rightarrow> string" where [simp]: "s3_Type x = s3_TYPE"
definition s3_Name :: "s3_bucket \<Rightarrow> string" where [simp]: "s3_Name x = s3_name x"

subsection \<open>Any storage, with metrics\<close>

datatype obj_storage = S3Storage s3_bucket | LocalStorage local_storage | HTTPStorage http_storage

fun storage_Type :: "obj_storage \<Rightarrow> string" where
  "storage_Type (S3Storage b) = s3_Type b"
| "storage_Type (LocalStorage s) = local_Type s"
| "storage_Type (HTTPStorage s) = httpst_Type s"

fun storage_Name :: "obj_storage \<Rightarrow> string" where
  "storage_Name (S3Storage b) = s3_Name b"
| "storage_Name (LocalStorage s) = local_Name s"
| "storage_Name (HTTPStorage s) = httpst_Name s"

text \<open>The counters are kept per label triple: type, name, flow.\<close>

record upload_counters =
  latencyHistogram_count :: nat
  uploadCounter :: nat
  uploadSuccessCounter :: nat
  uploadErrorCounter :: nat

type_synonym labels = "string \<times> string \<times> string"

record 'e storage_world =
  sw_ext :: 'e
  sw_fs :: filesystem
  sw_counters :: "labels \<Rightarrow> upload_counters"

record 'e storage_env =
  se_s3 :: "'e s3_api"
  se_http :: "'e http_client"

record storage_with_metrics =
  swm_storage :: obj_storage
  swm_wrappedType :: string
  swm_wrappedName :: string
  swm_name :: string

text \<open>Asking a nil interface for its type dereferences a nil pointer.\<close>

definition NewStorageWithMetrics :: "obj_storage option \<Rightarrow> string \<Rightarrow> storage_with_metrics go" where
  "NewStorageWithMetrics storage name =
     (case storage of
        None \<Rightarrow> Panic ''nil pointer dereference''
      | Some s \<Rightarrow> Ret \<lparr>swm_storage = s, swm_wrappedType = storage_Type s,
                      swm_wrappedName = storage_Name s, swm_name = name\<rparr>)"

fun storage_Upload ::
  "'e storage_env \<Rightarrow> obj_storage \<Rightarrow> work_unit \<Rightarrow> 'e storage_world \<Rightarrow>
   'e storage_world \<times> (error + upload_result)" where
  "storage_Upload env (S3Storage b) u w =
     (let (e, r) = s3_Upload (se_s3 env) b u (sw_ext w) in (w\<lparr>sw_ext := e\<rparr>, r))"
| "storage_Upload env (LocalStorage s) u w =
     (let (fs, r) = local_Upload s u (sw_fs w) in (w\<lparr>sw_fs := fs\<rparr>, r))"
| "storage_Upload env (HTTPStorage s) u w =
     (let (e, r) = http_Upload (se_http env) s u (sw_ext w) in (w\<lparr>sw_ext := e\<rparr>, r))"

definition swm_labels :: "storage_with_metrics \<Rightarrow> labels" where
  "swm_labels s = (swm_wrappedType s, swm_wrappedName s, swm_name s)"

definition swm_Upload ::
  "'e storage_env \<Rightarrow> storage_with_metrics \<Rightarrow> work_unit \<Rightarrow> 'e storage_world \<Rightarrow>
   'e storage_world \<times> (error + upload_result)" where
  "swm_Upload env s workU w =
     (let (w, r) = storage_Upload env (swm_storage s) workU w;
          c = sw_counters w (swm_labels s);
          c = c\<lparr>latencyHistogram_count := latencyHistogram_count c + 1\<rparr>;
          c = c\<lparr>uploadCounter := uploadCounter c + 1\<rparr>;
          c = (case r of
                 Inl err \<Rightarrow> c\<lparr>uploadErrorCounter := uploadErrorCounter c + 1\<rparr>
               | Inr _ \<Rightarrow> c\<lparr>uploadSuccessCounter := uploadSuccessCounter c + 1\<rparr>)
      in (w\<lparr>sw_counters := (sw_counters w)(swm_labels s := c)\<rparr>, r))"

subsection \<open>The factory\<close>

text \<open>\<open>yaml.Marshal\<close>, and \<open>yaml.Unmarshal\<close> into the three specific configurations.\<close>

record 'y storage_parsers =
  sp_Marshal :: "'y \<Rightarrow> error + bytes"
  sp_s3 :: "bytes \<Rightarrow> error + s3_config"
  sp_local :: "bytes \<Rightarrow> error + string"
  sp_http :: "bytes \<Rightarrow> error + string"

definition objstorage_New ::
  "'y storage_parsers \<Rightarrow> 'e storage_env \<Rightarrow> filesystem \<Rightarrow> string \<Rightarrow> 'y object_storage_config \<Rightarrow>
   (error + storage_with_metrics) go" where
  "objstorage_New ps env fs flowName conf =
     (case sp_Marshal ps (os_Config conf) of
        Inl err \<Rightarrow> Ret (Inl (Wrapf ''error parsing object storage config: %w'' err))
      | Inr specificConf \<Rightarrow>
          (let made =
             (if os_Type conf = s3_TYPE then
                (case s3_ParseConfig (sp_s3 ps) specificConf of
                   Inl err \<Rightarrow> Inl (Wrapf ''error parsing s3-specific config: %w'' err)
                 | Inr c \<Rightarrow> (case s3_New (se_s3 env) c of
                       Inl err \<Rightarrow> Inl (Wrapf ''error creating S3 object storage: %w'' err)
                     | Inr b \<Rightarrow> Inr (Some (S3Storage b), None)))
              else if os_Type conf = local_TYPE then
                (case local_ParseConfig (sp_local ps) specificConf of
                   Inl err \<Rightarrow> Inl (Wrapf ''error parsing localstorage-specific config: %w'' err)
                 | Inr c \<Rightarrow> (case local_New fs c of
                       Inl err \<Rightarrow> Inl (Wrapf ''error creating localstorage object storage: %w'' err)
                     | Inr s \<Rightarrow> Inr (Some (LocalStorage s), None)))
              else if os_Type conf = httpst_TYPE then
                (case httpst_ParseConfig (sp_http ps) specificConf of
                   Inl err \<Rightarrow> Inl (Wrapf ''error parsing httpstorage-specific config: %w'' err)
                 | Inr c \<Rightarrow> (case NewHTTPStorage c of
                       Inl err \<Rightarrow> Inl (Wrapf ''error creating httpstorage object storage: %w'' err)
                     | Inr s \<Rightarrow> Inr (Some (HTTPStorage s), None)))
              else Inr (None, Some (Error (''invalid object storage type '' @ os_Type conf)))) in
           case made of
             Inl err \<Rightarrow> Ret (Inl err)
           | Inr (objStorage, err) \<Rightarrow>
               go_bind (NewStorageWithMetrics objStorage flowName) (\<lambda>s.
                 Ret (case err of Some e \<Rightarrow> Inl e | None \<Rightarrow> Inr s))))"

subsection \<open>Trimming and keys\<close>

text \<open>A string that neither starts nor ends with \<open>c\<close>.\<close>

definition no_border :: "char \<Rightarrow> string \<Rightarrow> bool" where
  "no_border c s \<longleftrightarrow> s = [] \<or> (hd s \<noteq> c \<and> last s \<noteq> c)"

lemma Trim_border: "no_border c (strings_Trim s c)"
  using Trim_no_border by (auto simp: no_border_def)

lemma Trim_id: "no_border c s \<Longrightarrow> strings_Trim s c = s"
proof (cases s rule: rev_cases)
  case (snoc t x)
  assume "no_border c s"
  with snoc have "hd s \<noteq> c" "x \<noteq> c" by (auto simp: no_border_def)
  moreover from this have "dropWhile (\<lambda>y. y = c) s = s" by (cases s) auto
  ultimately show ?thesis using snoc by (simp add: strings_Trim_def)
qed (simp add: strings_Trim_def)

lemma Trim_Cons [simp]: "strings_Trim (c # s) c = strings_Trim s c"
  by (simp add: strings_Trim_def)

lemma Trim_snoc [simp]: "strings_Trim (s @ [c]) c = strings_Trim s c"
proof (cases "dropWhile (\<lambda>x. x = c) s = []")
  case True
  then have all: "\<forall>x \<in> set s. x = c" by (simp add: dropWhile_eq_Nil_conv)
  have "dropWhile (\<lambda>x. x = c) (s @ [c]) = []" using all by (simp add: dropWhile_eq_Nil_conv)
  with True show ?thesis unfolding strings_Trim_def by metis
next
  case False
  then obtain x where "x \<in> set s" "x \<noteq> c" by (auto simp: dropWhile_eq_Nil_conv)
  then have "dropWhile (\<lambda>x. x = c) (s @ [c]) = dropWhile (\<lambda>x. x = c) s @ [c]"
    by (rule dropWhile_append1)
  then show ?thesis by (simp add: strings_Trim_def)
qed

lemma Trim_join:
  assumes "no_border c p" and "no_border c q"
  shows "strings_Trim (p @ c # q) c = (if p = [] then q else if q = [] then p else p @ c # q)"
proof -
  have "no_border c (p @ c # q)" if "p \<noteq> []" "q \<noteq> []"
    using assms that by (simp add: no_border_def)
  with assms show ?thesis by (auto intro: Trim_id)
qed

definition non_empty :: "string list \<Rightarrow> string list" where
  "non_empty ss = filter (\<lambda>s. s \<noteq> []) ss"

lemma mergeParts_join:
  "mergeParts f d k = join_slash (non_empty (map (\<lambda>s. strings_Trim s CHR ''/'') [f, d, k]))"
proof -
  define F D K where "F = strings_Trim f CHR ''/''" and "D = strings_Trim d CHR ''/''"
    and "K = strings_Trim k CHR ''/''"
  have nb: "no_border CHR ''/'' F" "no_border CHR ''/'' D" "no_border CHR ''/'' K"
    unfolding F_def D_def K_def by (rule Trim_border)+
  define FD where "FD = (if F = [] then D else if D = [] then F else F @ CHR ''/'' # D)"
  have fd: "strings_Trim (F @ CHR ''/'' # D) CHR ''/'' = FD"
    unfolding FD_def by (rule Trim_join) (rule nb)+
  then have nbfd: "no_border CHR ''/'' FD" by (metis Trim_border)
  have "mergeParts f d k = strings_Trim (FD @ CHR ''/'' # K) CHR ''/''"
    by (simp only: mergeParts_def Let_def append.simps fd Trim_Cons F_def[symmetric]
        D_def[symmetric] K_def[symmetric])
  also have "\<dots> = (if FD = [] then K else if K = [] then FD else FD @ CHR ''/'' # K)"
    by (rule Trim_join[OF nbfd nb(3)])
  also have "\<dots> = join_slash (non_empty [F, D, K])"
    unfolding FD_def non_empty_def by (cases "F = []"; cases "D = []"; cases "K = []") simp_all
  finally show ?thesis by (simp add: F_def D_def K_def)
qed

lemma mergeParts_inj:
  assumes "mergeParts f d k = mergeParts f d k'"
  shows "strings_Trim k CHR ''/'' = strings_Trim k' CHR ''/''"
  using assms by (auto simp: mergeParts_join non_empty_def split: if_splits)

subsection \<open>The placeholder of an HTTP storage\<close>

lemma Contains_append_right: "strings_Contains (a @ p @ b) p"
proof (induction a)
  case Nil
  then show ?case by (cases p; cases b) (auto simp: strings_HasPrefix_def)
qed simp

lemma Contains_split: "strings_Contains s p \<Longrightarrow> \<exists>a b. s = a @ p @ b"
proof (induction s)
  case Nil
  then show ?case by simp
next
  case (Cons c s)
  then show ?case
  proof (cases "strings_HasPrefix (c # s) p")
    case True
    then show ?thesis by (metis HasPrefix_iff append_Nil)
  next
    case False
    with Cons obtain a b where "s = a @ p @ b" by auto
    then have "c # s = (c # a) @ p @ b" by simp
    then show ?thesis by blast
  qed
qed

lemma Contains_first:
  "strings_Contains s ''%s'' \<Longrightarrow> \<exists>a b. s = a @ ''%s'' @ b \<and> \<not> strings_Contains a ''%s''"
proof (induction s)
  case (Cons c s)
  show ?case
  proof (cases "strings_HasPrefix (c # s) ''%s''")
    case True
    then obtain t where "c # s = ''%s'' @ t" by (auto simp: HasPrefix_iff)
    then show ?thesis by (intro exI[of _ "[]"] exI[of _ t]) simp
  next
    case False
    with Cons obtain a b where ab: "s = a @ ''%s'' @ b" "\<not> strings_Contains a ''%s''" by auto
    from False ab(1) have "\<not> strings_HasPrefix (c # a) ''%s''"
      by (cases a) (auto simp: strings_HasPrefix_def)
    with ab show ?thesis by (intro exI[of _ "c # a"] exI[of _ b]) simp
  qed
qed simp

lemma Replace1_first:
  "\<not> strings_Contains a ''%s'' \<Longrightarrow> strings_Replace1 (a @ ''%s'' @ b) ''%s'' new = a @ new @ b"
proof (induction a)
  case Nil
  then show ?case by (simp add: strings_HasPrefix_def)
next
  case (Cons c a)
  then have "\<not> strings_HasPrefix ((c # a) @ ''%s'' @ b) ''%s''"
    by (cases a) (auto simp: strings_HasPrefix_def)
  with Cons show ?case by simp
qed

lemma http_no_slash: "strings_HasPrefix url ''http'' \<Longrightarrow> strings_TrimPrefix url ''/'' = url"
  by (auto simp: HasPrefix_iff strings_TrimPrefix_def)

lemma validURL_http:
  "validateAndFormatURL url = Inr url' \<Longrightarrow> url' = url \<and> strings_HasPrefix url ''http''"
  by (auto simp: validateAndFormatURL_def HasPrefix_iff split: if_splits)

subsection \<open>The effect of an upload\<close>

lemma os_MkdirAll_files: "os_MkdirAll fs p = (fs', r) \<Longrightarrow> fs_file fs' = fs_file fs"
  by (auto simp: os_MkdirAll_def split: option.splits if_splits)

lemma os_WriteFile_cases:
  "os_WriteFile fs p d = (fs', r) \<Longrightarrow>
     (\<forall>q. q \<noteq> p \<longrightarrow> fs_file fs' q = fs_file fs q) \<and> (r = None \<longrightarrow> fs_file fs' p = Some d)"
  by (auto simp: os_WriteFile_def split: option.splits if_splits)

lemma local_Upload_effect:
  assumes "local_Upload st u fs = (fs', r)"
  shows "(\<forall>q. q \<noteq> filepath_Join [lc_path st, wu_Prefix u, wu_Filename u] \<longrightarrow>
      fs_file fs' q = fs_file fs q) \<and>
    (\<forall>res. r = Inr res \<longrightarrow>
      fs_file fs' (ur_Path res) = Some (wu_Data u) \<and>
      ur_Path res = filepath_Join [lc_path st, wu_Prefix u, wu_Filename u] \<and>
      ur_SizeInBytes res = int (length (wu_Data u)))"
  using assms
  by (auto simp: local_Upload_def Let_def split: sum.splits prod.splits option.splits if_splits
      dest!: os_WriteFile_cases os_MkdirAll_files)

lemma storage_Upload_counters: "sw_counters (fst (storage_Upload env s u w)) = sw_counters w"
  by (cases s) (auto split: prod.split)

subsection \<open>Properties\<close>

text \<open>
  The S3 key is the parts, trimmed of slashes, with one slash between the ones
  that are not empty; so it never starts or ends with a slash, and for one bucket and prefix two
  objects get the same key only when their file names agree up to outer slashes.
\<close>

theorem mergeParts_key:
  "mergeParts f d k = join_slash (non_empty (map (\<lambda>s. strings_Trim s CHR ''/'') [f, d, k])) \<and>
   no_border CHR ''/'' (mergeParts f d k) \<and>
   (mergeParts f d k \<noteq> mergeParts f d k' \<or>
      strings_Trim k CHR ''/'' = strings_Trim k' CHR ''/'')"
proof (intro conjI)
  show "no_border CHR ''/'' (mergeParts f d k)"
    by (simp only: mergeParts_def Let_def) (rule Trim_border)
  show "mergeParts f d k \<noteq> mergeParts f d k' \<or> strings_Trim k CHR ''/'' = strings_Trim k' CHR ''/''"
    using mergeParts_inj by blast
qed (rule mergeParts_join)

text \<open>
  C39 (safety): an upload to local storage writes one file only.  When it reports success, that file
  holds exactly the unit's data, and path and size are reported right; when it fails, no other
  file has changed either.
\<close>

theorem local_Upload_writes_one_file:
  assumes "local_Upload st u fs = (fs', r)"
  shows "(\<forall>q. q \<noteq> filepath_Join [lc_path st, wu_Prefix u, wu_Filename u] \<longrightarrow>
      fs_file fs' q = fs_file fs q) \<and>
    (\<forall>res. r = Inr res \<longrightarrow>
      fs_file fs' (ur_Path res) = Some (wu_Data u) \<and>
      ur_Path res = filepath_Join [lc_path st, wu_Prefix u, wu_Filename u] \<and>
      ur_SizeInBytes res = int (length (wu_Data u)))"
  by (rule local_Upload_effect[OF assms])

definition empty_fs :: filesystem where
  "empty_fs = \<lparr>fs_dir = (\<lambda>q. q = ''/'' \<or> q = ''/data''), fs_file = (\<lambda>_. None),
     fs_fault = (\<lambda>_ _. None), fs_partial = (\<lambda>_. None)\<rparr>"

definition sample_unit :: work_unit where
  "sample_unit = \<lparr>wu_Filename = ''f'', wu_Prefix = ''hour=3/u/'', wu_Data = [1, 2]\<rparr>"

lemma sample_paths:
  "filepath_Join [''/data'', ''hour=3/u/''] = ''/data/hour=3/u''"
  "filepath_Join [''/data'', ''hour=3/u/'', ''f''] = ''/data/hour=3/u/f''"
  "filepath_Join [[], ''hour=3/u/'', ''f''] = ''hour=3/u/f''"
  by (simp_all add: filepath_Join_def filepath_Clean_def strings_HasPrefix_def)

lemma sample_upload:
  "\<exists>fs'. local_Upload \<lparr>lc_path = ''/data''\<rparr> sample_unit empty_fs =
     (fs', Inr \<lparr>ur_Bucket = ''localstorage'', ur_Region = [], ur_Path = ''/data/hour=3/u/f'',
               ur_URL = ''/data/hour=3/u/f'', ur_SizeInBytes = 2\<rparr>)"
  by (simp add: local_Upload_def sample_unit_def sample_paths os_Stat_def empty_fs_def
      os_IsNotExist_def os_MkdirAll_def path_ancestors_def upt_rec os_WriteFile_def path_parent_def
      Let_def)

lemma local_Upload_writes_one_file_witness:
  "\<exists>fs' r. local_Upload \<lparr>lc_path = ''/data''\<rparr> sample_unit empty_fs = (fs', r) \<and>
     fs_file fs' ''/data/hour=3/u/f'' = Some [1, 2]"
proof -
  obtain fs' where u: "local_Upload \<lparr>lc_path = ''/data''\<rparr> sample_unit empty_fs =
     (fs', Inr \<lparr>ur_Bucket = ''localstorage'', ur_Region = [], ur_Path = ''/data/hour=3/u/f'',
               ur_URL = ''/data/hour=3/u/f'', ur_SizeInBytes = 2\<rparr>)"
    using sample_upload by blast
  from local_Upload_writes_one_file[OF u, THEN conjunct2, rule_format, OF refl, THEN conjunct1]
  have "fs_file fs' ''/data/hour=3/u/f'' = Some (wu_Data sample_unit)"
    by (simp only: upload_result.simps)
  with u show ?thesis by (auto simp: sample_unit_def)
qed

text \<open>
  Configured with the root directory, local storage drops the only slash and from
  then on writes below the working directory of the process instead.
\<close>

theorem local_root_becomes_relative:
  assumes "fs_dir fs ''/''" and "fs_fault fs ''stat'' ''/'' = None"
  shows "local_New fs ''/'' = Inr \<lparr>lc_path = []\<rparr> \<and>
    filepath_Join [lc_path \<lparr>lc_path = []\<rparr>, ''hour=3/u/'', ''f''] = ''hour=3/u/f''"
  using assms sample_paths(3)
  by (simp add: local_New_def local_validateAndFormatPath_def os_Stat_def strings_TrimSuffix_def
      strings_HasSuffix_def strings_HasPrefix_def)

text \<open>
  A URL that the HTTP storage accepts and that has a placeholder is split around
  its first one, and every object is posted to the URL with path prefix and file name in its
  place; a URL without a placeholder is used as it is for every object, with an empty path.
\<close>

theorem assembleURL_fills_placeholder:
  assumes "validateAndFormatURL url = Inr url'"
  shows "(strings_Contains url' ''%s'' \<longrightarrow>
      (\<exists>a b. url = a @ ''%s'' @ b \<and> \<not> strings_Contains a ''%s'' \<and>
         (\<forall>p f. assembleURL url' p f =
            (a @ strings_Trim p CHR ''/'' @ ''/'' @ strings_Trim f CHR ''/'' @ b,
             strings_Trim p CHR ''/'' @ ''/'' @ strings_Trim f CHR ''/'')))) \<and>
    (\<not> strings_Contains url' ''%s'' \<longrightarrow> (\<forall>p f. assembleURL url' p f = (url, [])))"
proof -
  have url: "url' = url" "strings_HasPrefix url ''http''" using validURL_http[OF assms] by simp_all
  show ?thesis
  proof (cases "strings_Contains url ''%s''")
    case True
    from Contains_first[OF this] obtain a b where
      ab: "url = a @ ''%s'' @ b" "\<not> strings_Contains a ''%s''" by blast
    have "assembleURL url p f = (strings_Replace1 url ''%s''
        (strings_Trim p CHR ''/'' @ ''/'' @ strings_Trim f CHR ''/''),
        strings_Trim p CHR ''/'' @ ''/'' @ strings_Trim f CHR ''/'')" for p f
      using True http_no_slash[OF url(2)] by (simp add: assembleURL_def Let_def)
    moreover have "strings_Replace1 url ''%s'' new = a @ new @ b" for new
      using Replace1_first[OF ab(2)] ab(1) by simp
    ultimately show ?thesis using True ab url(1) by auto
  next
    case False
    then show ?thesis by (simp add: url(1) assembleURL_def)
  qed
qed

text \<open>
  An upload over HTTP succeeds exactly when the request can be built, the call returns,
  and the status is 2xx; on success the data was posted to the reported URL, with its size.
\<close>

theorem http_Upload_success_iff:
  "(\<exists>e' res. http_Upload client st u e = (e', Inr res)) \<longleftrightarrow>
     (\<exists>url path e' status. assembleURL (ht_url st) (wu_Prefix u) (wu_Filename u) = (url, path) \<and>
        hc_NewRequest client ''POST'' url = None \<and>
        hc_Do client e ''POST'' url (wu_Data u) = (e', Inr status) \<and> 200 \<le> status \<and> status < 300 \<and>
        http_Upload client st u e =
          (e', Inr \<lparr>ur_Bucket = ''httpstorage'', ur_Region = [], ur_Path = path, ur_URL = url,
                    ur_SizeInBytes = int (length (wu_Data u))\<rparr>))"
  by (auto simp: http_Upload_def split: prod.splits option.splits sum.splits)

text \<open>
  The metrics wrapper does not change what an upload does or returns, counts every
  call as one upload and as one success or one error, and touches no other storage's counters.
\<close>

theorem swm_Upload_transparent:
  assumes "swm_Upload env s u w = (w', r)"
  shows "storage_Upload env (swm_storage s) u w = (w'\<lparr>sw_counters := sw_counters w\<rparr>, r) \<and>
    (let c = sw_counters w (swm_labels s); c' = sw_counters w' (swm_labels s) in
     uploadCounter c' = uploadCounter c + 1 \<and>
     latencyHistogram_count c' = latencyHistogram_count c + 1 \<and>
     uploadSuccessCounter c' = uploadSuccessCounter c + (case r of Inr _ \<Rightarrow> 1 | Inl _ \<Rightarrow> 0) \<and>
     uploadErrorCounter c' = uploadErrorCounter c + (case r of Inl _ \<Rightarrow> 1 | Inr _ \<Rightarrow> 0)) \<and>
    (\<forall>l. l \<noteq> swm_labels s \<longrightarrow> sw_counters w' l = sw_counters w l)"
proof -
  obtain v q where v: "storage_Upload env (swm_storage s) u w = (v, q)" by fastforce
  then have "sw_counters v = sw_counters w" using storage_Upload_counters[of env "swm_storage s" u w] by simp
  with assms v show ?thesis by (cases q) (auto simp: swm_Upload_def Let_def)
qed

text \<open>
  The factory returns a storage or an error for the three known types and for
  configurations that cannot be read; for any other type it panics, dereferencing the nil storage,
  instead of returning the error it has prepared.
\<close>

lemma objstorage_New_unknown_type_panics:
  "go_panics (objstorage_New ps env fs flowName conf) \<longleftrightarrow>
     os_Type conf \<notin> {''s3'', ''localstorage'', ''httpstorage''} \<and>
     (\<exists>b. sp_Marshal ps (os_Config conf) = Inr b)"
  by (auto simp: objstorage_New_def Let_def NewStorageWithMetrics_def split: sum.splits)

end
