(* ===== verification/App.thy ===== *)
theory App
  imports Http_Api Accumulator_Flow Worker Obj_Storage
begin

text \<open>
  How the program is put together: pkg/app/app.go, with pkg/accumulator/factory.go,
  pkg/circuitbreaker/o11y.go, pkg/domain/flow/flow.go, pkg/logger/logger.go and cmd/main.go.  From
  a configuration, \<open>createFlows\<close> makes for every flow its storages, queues, channel of work units,
  uploader, breakers, accumulator and workers; \<open>Start\<close> adds the API and runs all of it as the
  actors of a run group.
\<close>

subsection \<open>Logger and main\<close>

datatype log_level = LevelDebug | LevelInfo | LevelWarn | LevelError

definition generateLevel :: "string \<Rightarrow> log_level" where
  "generateLevel level =
     (let l = strings_ToLower level in
      if l = ''debug'' then LevelDebug
      else if l = ''info'' then LevelInfo
      else if l = ''warn'' then LevelWarn
      else if l = ''error'' then LevelError
      else LevelInfo)"

text \<open>
  A logger is its handler: one of package slog, for JSON or for text, with the lowest level that is
  written, or the dummy handler, which nothing is written by and which stays itself whatever
  attributes or groups are added.
\<close>

datatype log_handler = JSONHandler log_level | TextHandler log_level | DummyHandler

definition logger_New :: "log_config \<Rightarrow> log_handler" where
  "logger_New conf =
     (let level = generateLevel (lg_Level conf) in
      if lg_Format conf = ''json'' then JSONHandler level else TextHandler level)"

definition NewDummy :: log_handler where "NewDummy = DummyHandler"

definition dummy_Enabled :: "log_level \<Rightarrow> bool" where "dummy_Enabled level = False"

definition dummy_Handle :: "'r \<Rightarrow> error option" where "dummy_Handle r = None"

definition dummy_WithAttrs :: "log_handler \<Rightarrow> (string \<times> string) list \<Rightarrow> log_handler" where
  "dummy_WithAttrs h attrs = h"

definition dummy_WithGroup :: "log_handler \<Rightarrow> string \<Rightarrow> log_handler" where
  "dummy_WithGroup h name = h"

definition main_version :: string where "main_version = ''0.0.1''"

text \<open>\<open>initializeConfig\<close>; \<open>readFile\<close> is \<open>os.ReadFile\<close> of the path.\<close>

definition initializeConfig ::
  "(string \<Rightarrow> error + bytes) \<Rightarrow> (bytes \<Rightarrow> error + 'y config) \<Rightarrow> string \<Rightarrow> 'y config go" where
  "initializeConfig readFile unmarshal configPath =
     (case readFile configPath of
        Inl err \<Rightarrow> Panic ''error reading config file: %w''
      | Inr confData \<Rightarrow>
          (case Config_New unmarshal confData of
             Inl err \<Rightarrow> Panic ''error initializing/parsing config: %w''
           | Inr c \<Rightarrow> Ret (c\<lparr>co_Version := main_version\<rparr>)))"

subsection \<open>Circuit breakers\<close>

text \<open>The gauge and the counter of pkg/circuitbreaker/o11y.go, by flow and name.\<close>

record cb_metrics =
  openCBGauge :: "string \<times> string \<Rightarrow> int"
  openCBTotal :: "string \<times> string \<Rightarrow> nat"

record cb_observability =
  cbo_name :: string
  cbo_flow :: string

definition NewCBObservability :: "string \<Rightarrow> string \<Rightarrow> cb_observability" where
  "NewCBObservability name flow = \<lparr>cbo_name = name, cbo_flow = flow\<rparr>"

definition SetCBClosed :: "cb_observability \<Rightarrow> cb_metrics \<Rightarrow> cb_metrics" where
  "SetCBClosed o11y m = m\<lparr>openCBGauge := (openCBGauge m)((cbo_flow o11y, cbo_name o11y) := 0)\<rparr>"

definition SetCBOpen :: "cb_observability \<Rightarrow> cb_metrics \<Rightarrow> cb_metrics" where
  "SetCBOpen o11y m =
     (let m = m\<lparr>openCBGauge := (openCBGauge m)((cbo_flow o11y, cbo_name o11y) := 1)\<rparr> in
      m\<lparr>openCBTotal := (openCBTotal m)((cbo_flow o11y, cbo_name o11y) :=
           openCBTotal m (cbo_flow o11y, cbo_name o11y) + 1)\<rparr>)"

text \<open>
  The settings the code hands to gobreaker; the callbacks \<open>ReadyToTrip\<close>, which trips on the first
  failure, and \<open>OnStateChange\<close> are the same for both kinds of breaker.
\<close>

datatype cb_state = StateClosed | StateHalfOpen | StateOpen

record cb_settings =
  cbs_Name :: string
  cbs_MaxRequests :: nat
  cbs_Timeout :: int
  cbs_o11y :: cb_observability

definition cb_ReadyToTrip :: "nat \<Rightarrow> bool" where "cb_ReadyToTrip consecutiveFailures = True"

definition cb_OnStateChange :: "cb_settings \<Rightarrow> cb_state \<Rightarrow> cb_metrics \<Rightarrow> cb_metrics" where
  "cb_OnStateChange st to m =
     (if to = StateOpen then SetCBOpen (cbs_o11y st) m else SetCBClosed (cbs_o11y st) m)"

datatype breaker = DummyBreaker | GoBreaker cb_settings

definition createTwoStepCircuitBreaker :: "string \<Rightarrow> circuit_breaker_config \<Rightarrow> breaker" where
  "createTwoStepCircuitBreaker flowName cbConf =
     (if cb_Disable cbConf then DummyBreaker
      else
        let name = flowName @ ''_ingestion_cb'';
            cbO11y = NewCBObservability name flowName in
        GoBreaker \<lparr>cbs_Name = name, cbs_MaxRequests = 1,
                   cbs_Timeout = OpenIntervalAsDuration cbConf, cbs_o11y = cbO11y\<rparr>)"

definition createCircuitBreaker :: "string \<Rightarrow> circuit_breaker_config \<Rightarrow> breaker" where
  "createCircuitBreaker flowName cbConf =
     (if cb_Disable cbConf then DummyBreaker
      else
        let name = flowName @ ''_accumulator_cb'';
            cbO11y = NewCBObservability name flowName in
        GoBreaker \<lparr>cbs_Name = name, cbs_MaxRequests = 1,
                   cbs_Timeout = OpenIntervalAsDuration cbConf, cbs_o11y = cbO11y\<rparr>)"

subsection \<open>The accumulator of a flow\<close>

datatype accumulator = BySize by_size | ByTimeAndSize by_time

definition accumulator_From :: "accumulator_config \<Rightarrow> int \<Rightarrow> int \<Rightarrow> accumulator go" where
  "accumulator_From conf limit forceFlush =
     (if HasForceFlushPeriod conf then
        go_map ByTimeAndSize (NewAccumulatorByTimeAndSize limit (string_bytes (ac_Separator conf))
                                (ac_QueueCapacity conf) forceFlush)
      else
        go_map BySize (NewAccumulatorBySize limit (string_bytes (ac_Separator conf))
                         (ac_QueueCapacity conf)))"

text \<open>\<open>time.Duration(ForceFlushAfterSeconds) * time.Second\<close> is an int64 multiplication.\<close>

definition forceFlushDuration :: "int \<Rightarrow> int" where
  "forceFlushDuration seconds = sint (word_of_int seconds * 1000000000 :: 64 word)"

definition createAccumulator :: "string \<Rightarrow> accumulator_config \<Rightarrow> (accumulator \<times> breaker) go" where
  "createAccumulator flowName c =
     (let cb = createCircuitBreaker flowName (ac_CircuitBreaker c) in
      case acc_SizeAsBytes c of
        Inl err \<Rightarrow> Panic ''error parsing accumulator size: %w''
      | Inr sizeAsBytes \<Rightarrow>
          go_bind (accumulator_From c sizeAsBytes (forceFlushDuration (ac_ForceFlushAfterSeconds c)))
            (\<lambda>acc. Ret (acc, cb)))"

subsection \<open>Flows\<close>

text \<open>
  What the flows are made from: the parsers of the specific configurations, the outside world of the
  adapters, the compression packages.
\<close>

record ('y, 'e, 'q, 'w) app_env =
  ae_storage_parsers :: "'y storage_parsers"
  ae_queue_parsers :: "'y queue_parsers"
  ae_storage :: "'e storage_env"
  ae_queue :: "'q queue_env"
  ae_fs :: filesystem
  ae_codecs :: "'w codecs"

definition createObjStorages ::
  "('y, 'e, 'q, 'w) app_env \<Rightarrow> string \<Rightarrow> 'y object_storage_config list \<Rightarrow>
   storage_with_metrics list go" where
  "createObjStorages env flowName c =
     go_foreach (\<lambda>storageConf objStorages.
       go_bind (objstorage_New (ae_storage_parsers env) (ae_storage env) (ae_fs env) flowName storageConf)
         (\<lambda>r. case r of
            Inl err \<Rightarrow> Panic ''error creating object storage''
          | Inr objStorage \<Rightarrow> Ret (objStorages @ [objStorage]))) c []"

definition createExternalQueues ::
  "('y, 'e, 'q, 'w) app_env \<Rightarrow> string \<Rightarrow> 'y external_queue_config list \<Rightarrow>
   queue_with_metrics list go" where
  "createExternalQueues env flowName queuesConf =
     go_foreach (\<lambda>queueConf externalQueues.
       go_bind (extqueue_New (ae_queue_parsers env) (ae_queue env) flowName queueConf)
         (\<lambda>r. case r of
            Inl err \<Rightarrow> Panic ''error creating external queue''
          | Inr externalQueue \<Rightarrow> Ret (externalQueues @ [externalQueue]))) queuesConf []"

text \<open>The state of a destination of a worker: the storage's and the queue's worlds.\<close>

type_synonym ('e, 'q) dst_state = "'e storage_world \<times> 'q queue_world"

definition storage_upload ::
  "'e storage_env \<Rightarrow> storage_with_metrics \<Rightarrow> ('e, 'q) dst_state \<Rightarrow> work_unit \<Rightarrow>
   ('e, 'q) dst_state \<times> (error + upload_result)" where
  "storage_upload env s e u = (let (sw, r) = swm_Upload env s u (fst e) in ((sw, snd e), r))"

definition queue_notify ::
  "'q queue_env \<Rightarrow> queue_with_metrics \<Rightarrow> ('e, 'q) dst_state \<Rightarrow> message_context \<Rightarrow>
   ('e, 'q) dst_state \<times> error option" where
  "queue_notify env q e msg = (let (qw, r) = qwm_Enqueue env q msg (snd e) in ((fst e, qw), r))"

record ('e, 'q, 'w) flow =
  fw_Name :: string
  fw_ObjStorages :: "storage_with_metrics list"
  fw_ExternalQueues :: "queue_with_metrics list"
  fw_Uploader :: uploader
  fw_world :: "(file_pather \<times> fp_env) up_world"
  fw_Accumulator :: "(accumulator \<times> breaker) option"
  fw_UploadWorkers :: "(('e, 'q) dst_state, 'w) worker list"
  fw_Token :: string
  fw_DecompressionAlgorithms :: "string list"
  fw_DecompressionMaxConcurrency :: int
  fw_DecompressionInitialBufferSizeBytes :: int
  fw_CircuitBreaker :: breaker

text \<open>The entry point is the accumulator when there is one, otherwise the uploader.\<close>

datatype entrypoint = EntryAccumulator accumulator | EntryUploader uploader

definition fw_Entrypoint :: "('e, 'q, 'w) flow \<Rightarrow> entrypoint" where
  "fw_Entrypoint f =
     (case fw_Accumulator f of
        Some (acc, cb) \<Rightarrow> EntryAccumulator acc
      | None \<Rightarrow> EntryUploader (fw_Uploader f))"

definition createWorkers ::
  "('y, 'e, 'q, 'w) app_env \<Rightarrow> 'y flow_config \<Rightarrow> storage_with_metrics list \<Rightarrow>
   queue_with_metrics list \<Rightarrow> work_unit gochan \<Rightarrow> (('e, 'q) dst_state, 'w) worker list go" where
  "createWorkers env flowConf objStorages externalQueues workersIngestionQueue =
     go_foreach (\<lambda>i workers.
       go_bind (NewWorker (fl_Name flowConf) (map (storage_upload (ae_storage env)) objStorages)
                  (map (queue_notify (ae_queue env)) externalQueues) workersIngestionQueue
                  (fl_Compression flowConf) (ae_codecs env))
         (\<lambda>wk. Ret (workers @ [wk]))) [0..<nat (fl_MaxConcurrentUploads flowConf)] []"

text \<open>The body of the loop of \<open>createFlows\<close>; \<open>e\<close> is the source of UUIDs, random numbers and time.\<close>

definition createFlow ::
  "('y, 'e, 'q, 'w) app_env \<Rightarrow> 'y flow_config \<Rightarrow> fp_env \<Rightarrow> (('e, 'q, 'w) flow \<times> fp_env) go" where
  "createFlow env flowConf e =
     go_bind (createExternalQueues env (fl_Name flowConf) (fl_ExternalQueues flowConf)) (\<lambda>externalQueues.
     go_bind (createObjStorages env (fl_Name flowConf) (fl_ObjectStorages flowConf)) (\<lambda>objStorages.
     go_bind (make_chan (fl_MaxConcurrentUploads flowConf)) (\<lambda>workersIngestionQueue.
     go_bind (NewFilePather (fl_PathPrefixCount flowConf) (cp_Type (fl_Compression flowConf)) e)
       (\<lambda>(pather, e).
     go_bind (NewUploader (fl_MaxConcurrentUploads flowConf) (fl_QueueMaxSize flowConf)) (\<lambda>uploader.
       case InitialBufferSizeAsBytes (ig_Decompression (fl_Ingestion flowConf)) of
         Inl err \<Rightarrow> Panic ''error parsing initial buffer size: %w''
       | Inr initialDecompressionBufferSize \<Rightarrow>
           (case acc_SizeAsBytes (fl_Accumulator flowConf) of
              Inl err \<Rightarrow> Panic ''error parsing accumulator size: %w''
            | Inr accSizeAsBytes \<Rightarrow>
                go_bind
                  (if 0 < accSizeAsBytes
                   then go_map Some (createAccumulator (fl_Name flowConf) (fl_Accumulator flowConf))
                   else Ret None) (\<lambda>accumulator.
                go_bind (createWorkers env flowConf objStorages externalQueues workersIngestionQueue)
                  (\<lambda>workers.
                  let decomp = ig_Decompression (fl_Ingestion flowConf) in
                  Ret (\<lparr>fw_Name = fl_Name flowConf, fw_ObjStorages = objStorages,
                        fw_ExternalQueues = externalQueues, fw_Uploader = uploader,
                        fw_world = \<lparr>up_next = workersIngestionQueue,
                          up_filePathProvider = (pather, e), up_received = []\<rparr>,
                        fw_Accumulator = accumulator, fw_UploadWorkers = workers,
                        fw_Token = ig_Token (fl_Ingestion flowConf),
                        fw_DecompressionAlgorithms = dc_ActiveDecompressions decomp,
                        fw_DecompressionMaxConcurrency = dc_MaxConcurrency decomp,
                        fw_DecompressionInitialBufferSizeBytes = initialDecompressionBufferSize,
                        fw_CircuitBreaker = createTwoStepCircuitBreaker (fl_Name flowConf)
                          (ig_CircuitBreaker (fl_Ingestion flowConf))\<rparr>, e)))))))))"

definition createFlows ::
  "('y, 'e, 'q, 'w) app_env \<Rightarrow> 'y flow_config list \<Rightarrow> fp_env \<Rightarrow>
   (('e, 'q, 'w) flow list \<times> fp_env) go" where
  "createFlows env confs e =
     go_foreach (\<lambda>conf (flows, e).
       go_bind (createFlow env conf e) (\<lambda>(f, e). Ret (flows @ [f], e))) confs ([], e)"

subsection \<open>The run group\<close>

text \<open>
  The actors of \<open>g run.Group\<close> in the order in which they are added.  The package oklog/run starts
  all of them, waits for the first to return, and then calls the interrupt functions in this order,
  each of which waits until its actor is done.
\<close>

datatype actor =
  SignalActor
| ApiActor
| AccumulatorActor string
| UploaderActor string
| WorkerActor string nat

definition addFlowActorToRunGroup :: "('e, 'q, 'w) flow \<Rightarrow> actor list \<Rightarrow> actor list" where
  "addFlowActorToRunGroup f g =
     g @ (if fw_Accumulator f \<noteq> None then [AccumulatorActor (fw_Name f)] else []) @
     [UploaderActor (fw_Name f)] @
     map (WorkerActor (fw_Name f)) [0..<length (fw_UploadWorkers f)]"

definition flow_ingest :: "('e, 'q, 'w) flow \<Rightarrow> ingest_flow" where
  "flow_ingest f =
     \<lparr>if_Name = fw_Name f, if_Token = fw_Token f,
      if_DecompressionAlgorithms = fw_DecompressionAlgorithms f,
      if_DecompressionMaxConcurrency = fw_DecompressionMaxConcurrency f,
      if_DecompressionInitialBufferSizeBytes = fw_DecompressionInitialBufferSizeBytes f\<rparr>"

text \<open>\<open>Start\<close> up to \<open>g.Run()\<close>: the flows, the API, and the actors.\<close>

definition app_Start ::
  "('y, 'e, 'q, 'w) app_env \<Rightarrow> 'y config \<Rightarrow> fp_env \<Rightarrow>
   (('e, 'q, 'w) flow list \<times> 'y api \<times> actor list) go" where
  "app_Start env conf e =
     go_bind (createFlows env (co_Flows conf) e) (\<lambda>(flows, e).
     go_bind (NewAPI conf (co_Version conf) (map flow_ingest flows)) (\<lambda>a.
       Ret (flows, a, fold addFlowActorToRunGroup flows [SignalActor, ApiActor])))"

end
