(* ===== verification/Worker_Pool.thy ===== *)
theory Worker_Pool
  imports Worker Uploader "HOL-Library.Multiset"
begin

text \<open>
  The workers of one flow, all running: pkg/worker/worker.go as pkg/app/app.go starts it.  They are
  made alike and share the channel \<open>next\<close>, the storages and queues, and one cancellation.  A state
  says for every worker where its goroutine is, in the \<open>select\<close> of \<open>Run\<close>, in \<open>drainWorkChan\<close>, or
  returned, and, while it works on a unit, which goroutines of \<open>sendDataAndNotify\<close> still run and
  what each of them does next.  Every call to a storage or a queue is a step of its own, so the calls
  of different workers and of different goroutines interleave in every way.
\<close>

datatype task = ToUpload | ToNotify message_context

record job =
  jb_unit :: work_unit
  jb_running :: "(nat \<times> task) list"
  jb_errors :: "error list"

datatype loop_phase = InSelect | InDrain | Ended

record thread =
  th_phase :: loop_phase
  th_job :: "job option"

text \<open>
  \<open>po_taken\<close> (the units received, in order), \<open>po_calls\<close> (the calls made at the destinations, in
  order) and \<open>po_stored\<close> (for every upload that succeeded, the destination and the message about it)
  are histories that only the theorems read.
\<close>

record 'e pool =
  po_next :: "work_unit gochan"
  po_threads :: "thread list"
  po_es :: "'e list"
  po_cancelled :: bool
  po_metrics :: wk_metrics
  po_logged :: "error list"
  po_taken :: "work_unit list"
  po_calls :: "(nat \<times> work_unit \<times> task) list"
  po_stored :: "(nat \<times> message_context) list"

definition pool_start :: "nat \<Rightarrow> 'e list \<Rightarrow> wk_metrics \<Rightarrow> work_unit gochan \<Rightarrow> 'e pool" where
  "pool_start n es m ch =
     \<lparr>po_next = ch, po_threads = replicate n \<lparr>th_phase = InSelect, th_job = None\<rparr>, po_es = es,
      po_cancelled = False, po_metrics = m, po_logged = [], po_taken = [], po_calls = [], po_stored = []\<rparr>"

text \<open>
  The beginning of \<open>work\<close>: the compression, and one goroutine for every destination; without
  destinations there is nothing to wait for.  A compression error is logged and the unit dropped.
\<close>

definition start_job :: "('e, 'w) worker \<Rightarrow> work_unit \<Rightarrow> error + job" where
  "start_job wk u =
     (case compress (wk_codecs wk) (wk_compressionConf wk) (wu_Data u) of
        Ret (Inl err) \<Rightarrow> Inl err
      | Ret (Inr c) \<Rightarrow>
          Inr \<lparr>jb_unit = u\<lparr>wu_Data := c\<rparr>,
               jb_running = map (\<lambda>i. (i, ToUpload)) [0..<length (wk_destinations wk)],
               jb_errors = []\<rparr>
      | _ \<Rightarrow> Inl (Error ''unreachable''))"

definition begin_work :: "('e, 'w) worker \<Rightarrow> nat \<Rightarrow> work_unit gochan \<Rightarrow> work_unit \<Rightarrow> 'e pool \<Rightarrow> 'e pool" where
  "begin_work wk i ch u p =
     (let p = p\<lparr>po_next := ch, po_taken := po_taken p @ [u]\<rparr> in
      case start_job wk u of
        Inl err \<Rightarrow> p\<lparr>po_logged := po_logged p @ [err]\<rparr>
      | Inr j \<Rightarrow>
          p\<lparr>po_threads := (po_threads p)[i := (po_threads p ! i)\<lparr>th_job := Some j\<rparr>],
            po_metrics := (po_metrics p)\<lparr>workInFlight := workInFlight (po_metrics p) + 1\<rparr>\<rparr>)"

text \<open>The next call of the goroutine of one destination, at time \<open>now\<close>.\<close>

definition goroutine_call ::
  "'e destination \<Rightarrow> string \<Rightarrow> int \<Rightarrow> work_unit \<Rightarrow> task \<Rightarrow> 'e \<Rightarrow> 'e \<times> task option \<times> error option" where
  "goroutine_call dst compressionType now u t e =
     (case t of
        ToUpload \<Rightarrow>
          (case ds_Upload dst e u of
             (e', Inl err) \<Rightarrow> (e', None, Some (Wrapf ''failed to upload object to storage: %w'' err))
           | (e', Inr r) \<Rightarrow> (e', Some (ToNotify (messageFor r compressionType now)), None))
      | ToNotify msg \<Rightarrow>
          (case ds_Enqueue dst e msg of
             (e', r) \<Rightarrow> (e', None, map_option (Wrapf ''failed to enqueue data %w'') r)))"

definition opt_list :: "'a option \<Rightarrow> 'a list" where
  "opt_list x = (case x of None \<Rightarrow> [] | Some y \<Rightarrow> [y])"

text \<open>The message a goroutine has still to send after its call, if there is one.\<close>

definition message_of :: "task option \<Rightarrow> message_context list" where
  "message_of t = (case t of Some (ToNotify msg) \<Rightarrow> [msg] | _ \<Rightarrow> [])"

definition advance_job :: "nat \<Rightarrow> nat \<Rightarrow> task option \<Rightarrow> error option \<Rightarrow> job \<Rightarrow> job" where
  "advance_job pos k t err j =
     j\<lparr>jb_running := take pos (jb_running j) @ map (Pair k) (opt_list t) @ drop (Suc pos) (jb_running j),
       jb_errors := jb_errors j @ opt_list err\<rparr>"

inductive pool_step :: "('e, 'w) worker \<Rightarrow> 'e pool \<Rightarrow> 'e pool \<Rightarrow> bool" for wk where
  take_unit:
    "i < length (po_threads p) \<Longrightarrow> th_phase (po_threads p ! i) \<noteq> Ended \<Longrightarrow>
     th_job (po_threads p ! i) = None \<Longrightarrow> chan_recv (po_next p) = Ret (ch, Some u) \<Longrightarrow>
     pool_step wk p (begin_work wk i ch u p)"
| spin:
    "i < length (po_threads p) \<Longrightarrow> th_phase (po_threads p ! i) = InSelect \<Longrightarrow>
     th_job (po_threads p ! i) = None \<Longrightarrow> chan_recv (po_next p) = Ret (ch, None) \<Longrightarrow>
     pool_step wk p (p\<lparr>po_next := ch\<rparr>)"
| call:
    "i < length (po_threads p) \<Longrightarrow> th_job (po_threads p ! i) = Some j \<Longrightarrow>
     pos < length (jb_running j) \<Longrightarrow> jb_running j ! pos = (k, t) \<Longrightarrow>
     goroutine_call (wk_destinations wk ! k) (cp_Type (wk_compressionConf wk)) now (jb_unit j) t
       (po_es p ! k) = (e', t', err) \<Longrightarrow>
     pool_step wk p
       (p\<lparr>po_es := (po_es p)[k := e'],
          po_threads := (po_threads p)[i := (po_threads p ! i)\<lparr>th_job := Some (advance_job pos k t' err j)\<rparr>],
          po_calls := po_calls p @ [(k, jb_unit j, t)],
          po_stored := po_stored p @ map (Pair k) (message_of t')\<rparr>)"
| job_done:
    "i < length (po_threads p) \<Longrightarrow> th_job (po_threads p ! i) = Some j \<Longrightarrow> jb_running j = [] \<Longrightarrow>
     pool_step wk p
       (p\<lparr>po_threads := (po_threads p)[i := (po_threads p ! i)\<lparr>th_job := None\<rparr>],
          po_metrics := (po_metrics p)\<lparr>workInFlight := workInFlight (po_metrics p) - 1\<rparr>,
          po_logged := po_logged p @ opt_list (joined (jb_errors j))\<rparr>)"
| cancel: "pool_step wk p (p\<lparr>po_cancelled := True\<rparr>)"
| notice:
    "i < length (po_threads p) \<Longrightarrow> po_cancelled p \<Longrightarrow> th_phase (po_threads p ! i) = InSelect \<Longrightarrow>
     th_job (po_threads p ! i) = None \<Longrightarrow>
     pool_step wk p (p\<lparr>po_threads := (po_threads p)[i := (po_threads p ! i)\<lparr>th_phase := InDrain\<rparr>]\<rparr>)"
| ended:
    "i < length (po_threads p) \<Longrightarrow> th_phase (po_threads p ! i) = InDrain \<Longrightarrow>
     th_job (po_threads p ! i) = None \<Longrightarrow> chan_recv (po_next p) = Ret (ch, None) \<Longrightarrow>
     pool_step wk p (p\<lparr>po_threads := (po_threads p)[i := (po_threads p ! i)\<lparr>th_phase := Ended\<rparr>]\<rparr>)"

inductive pool_reach :: "('e, 'w) worker \<Rightarrow> 'e pool \<Rightarrow> 'e pool \<Rightarrow> bool" for wk p where
  here: "pool_reach wk p p"
| there: "pool_reach wk p q \<Longrightarrow> pool_step wk q r \<Longrightarrow> pool_reach wk p r"

lemma pool_reach_trans: "pool_reach wk q r \<Longrightarrow> pool_reach wk p q \<Longrightarrow> pool_reach wk p r"
  by (induction rule: pool_reach.induct) (auto intro: pool_reach.there)

lemma pool_reach_step: "pool_step wk p q \<Longrightarrow> pool_reach wk p q"
  by (blast intro: pool_reach.intros)

subsection \<open>What a step can change\<close>

lemma sum_list_replace:
  fixes f :: "'a \<Rightarrow> 'b :: comm_monoid_add"
  shows "i < length xs \<Longrightarrow> (\<Sum>x\<leftarrow>xs[i := y]. f x) + f (xs ! i) = (\<Sum>x\<leftarrow>xs. f x) + f y"
  by (induction xs arbitrary: i) (auto simp: ac_simps split: nat.split)

lemma begin_work_simps [simp]:
  "po_next (begin_work wk i ch u p) = ch"
  "po_taken (begin_work wk i ch u p) = po_taken p @ [u]"
  "po_es (begin_work wk i ch u p) = po_es p"
  "po_calls (begin_work wk i ch u p) = po_calls p"
  "po_cancelled (begin_work wk i ch u p) = po_cancelled p"
  "length (po_threads (begin_work wk i ch u p)) = length (po_threads p)"
  by (simp_all add: begin_work_def Let_def split: sum.split)

lemma pool_step_taken:
  assumes "pool_step wk p q"
  shows "(po_next q = po_next p \<and> po_taken q = po_taken p) \<or>
    (\<exists>u. chan_recv (po_next p) = Ret (po_next q, Some u) \<and> po_taken q = po_taken p @ [u])"
  using assms by cases (auto simp: go_ret_iff)

subsection \<open>The invariant\<close>

text \<open>
  \<open>started\<close>: the units as the destinations get them, compressed, less those that could not be
  compressed.  \<open>pending k\<close>: the uploads to the k-th destination that a worker has still to start.
\<close>

definition started :: "('e, 'w) worker \<Rightarrow> work_unit list \<Rightarrow> work_unit list" where
  "started wk us =
     List.map_filter (\<lambda>u. case start_job wk u of Inl _ \<Rightarrow> None | Inr j \<Rightarrow> Some (jb_unit j)) us"

definition pending :: "nat \<Rightarrow> thread \<Rightarrow> work_unit multiset" where
  "pending k th =
     (case th_job th of None \<Rightarrow> {#}
      | Some j \<Rightarrow> replicate_mset (count (mset (jb_running j)) (k, ToUpload)) (jb_unit j))"

definition upload_calls :: "nat \<Rightarrow> 'e pool \<Rightarrow> work_unit list" where
  "upload_calls k p = map (\<lambda>(_, u, _). u) (filter (\<lambda>(k', _, t). k' = k \<and> t = ToUpload) (po_calls p))"

definition busy :: "thread \<Rightarrow> int" where
  "busy th = (if th_job th = None then 0 else 1)"

definition threads_ok :: "nat \<Rightarrow> work_unit gochan \<Rightarrow> thread list \<Rightarrow> bool" where
  "threads_ok D ch ths \<longleftrightarrow>
     (\<forall>th \<in> set ths. (th_phase th = Ended \<longrightarrow>
        th_job th = None \<and> chan_closed ch \<and> chan_buf ch = []) \<and>
      (\<forall>j. th_job th = Some j \<longrightarrow> (\<forall>(k, t) \<in> set (jb_running j). k < D)))"

definition pool_inv :: "('e, 'w) worker \<Rightarrow> int \<Rightarrow> 'e pool \<Rightarrow> bool" where
  "pool_inv wk base p \<longleftrightarrow>
     length (po_es p) = length (wk_destinations wk) \<and>
     threads_ok (length (wk_destinations wk)) (po_next p) (po_threads p) \<and>
     (\<forall>k < length (wk_destinations wk).
        mset (upload_calls k p) + (\<Sum>th\<leftarrow>po_threads p. pending k th) =
        mset (started wk (po_taken p))) \<and>
     workInFlight (po_metrics p) = base + (\<Sum>th\<leftarrow>po_threads p. busy th)"

lemma started_simps [simp]:
  "started wk [] = []"
  "started wk (us @ vs) = started wk us @ started wk vs"
  by (simp_all add: started_def map_filter_def)

lemma started_one:
  "start_job wk u = Inl e \<Longrightarrow> started wk [u] = []"
  "start_job wk u = Inr j \<Longrightarrow> started wk [u] = [jb_unit j]"
  by (simp_all add: started_def map_filter_def)

lemma start_job_running:
  "start_job wk u = Inr j \<Longrightarrow> jb_running j = map (\<lambda>i. (i, ToUpload)) [0..<length (wk_destinations wk)]"
  by (auto simp: start_job_def split: go.splits sum.splits)

lemma count_upload_tasks:
  "count (mset (map (\<lambda>i. (i, ToUpload)) [0..<n])) (k, ToUpload) = (if k < n then 1 else 0)"
  by (induction n) auto

lemma pending_simps [simp]:
  "th_job th = None \<Longrightarrow> pending k th = {#}"
  "pending k (th\<lparr>th_phase := x\<rparr>) = pending k th"
  "busy (th\<lparr>th_phase := x\<rparr>) = busy th"
  by (simp_all add: pending_def busy_def)

lemma pending_start:
  "start_job wk u = Inr j \<Longrightarrow> k < length (wk_destinations wk) \<Longrightarrow>
   pending k (th\<lparr>th_job := Some j\<rparr>) = {#jb_unit j#}"
  by (simp add: pending_def start_job_running count_upload_tasks del: mset_map)

lemma upload_calls_snoc:
  "upload_calls k (p\<lparr>po_calls := po_calls p @ [(k', u, t)]\<rparr>) =
     upload_calls k p @ (if k' = k \<and> t = ToUpload then [u] else [])"
  by (simp add: upload_calls_def)

lemma upload_calls_frame [simp]:
  "upload_calls k (p\<lparr>po_next := a\<rparr>) = upload_calls k p"
  "upload_calls k (p\<lparr>po_threads := b\<rparr>) = upload_calls k p"
  "upload_calls k (p\<lparr>po_es := c\<rparr>) = upload_calls k p"
  "upload_calls k (p\<lparr>po_cancelled := d\<rparr>) = upload_calls k p"
  "upload_calls k (p\<lparr>po_metrics := e\<rparr>) = upload_calls k p"
  "upload_calls k (p\<lparr>po_logged := f\<rparr>) = upload_calls k p"
  "upload_calls k (p\<lparr>po_taken := g\<rparr>) = upload_calls k p"
  "upload_calls k (p\<lparr>po_stored := h\<rparr>) = upload_calls k p"
  by (simp_all add: upload_calls_def)

lemma goroutine_call_next:
  "goroutine_call dst ct now u t e = (e', t', err) \<Longrightarrow> t' \<noteq> Some ToUpload \<and> (t \<noteq> ToUpload \<longrightarrow> t' = None)"
  by (auto simp: goroutine_call_def split: task.splits prod.splits sum.splits)

lemma mset_replace_pos:
  "pos < length xs \<Longrightarrow> mset (take pos xs @ ys @ drop (Suc pos) xs) + {#xs ! pos#} = mset xs + mset ys"
proof -
  assume "pos < length xs"
  then have "mset xs = mset (take pos xs @ xs ! pos # drop (Suc pos) xs)"
    using id_take_nth_drop[of pos xs] by simp
  then show ?thesis by simp
qed

lemma advance_pending:
  assumes "pos < length (jb_running j)" and "jb_running j ! pos = (k', t)" and "t' \<noteq> Some ToUpload"
    and "th_job th = Some j"
  shows "pending k (th\<lparr>th_job := Some (advance_job pos k' t' err j)\<rparr>) +
      (if k' = k \<and> t = ToUpload then {#jb_unit j#} else {#}) = pending k th"
proof -
  let ?r = "jb_running j" and ?r' = "jb_running (advance_job pos k' t' err j)"
  have "mset ?r' + {#(k', t)#} = mset ?r + mset (map (Pair k') (opt_list t'))"
    using mset_replace_pos[OF assms(1), of "map (Pair k') (opt_list t')"] assms(2)
    by (simp add: advance_job_def)
  then have "count (mset ?r' + {#(k', t)#}) (k, ToUpload) =
      count (mset ?r + mset (map (Pair k') (opt_list t'))) (k, ToUpload)" by simp
  moreover have "count (mset (map (Pair k') (opt_list t'))) (k, ToUpload) = 0"
    using assms(3) by (cases t') (auto simp: opt_list_def)
  ultimately have "count (mset ?r) (k, ToUpload) =
      count (mset ?r') (k, ToUpload) + (if k' = k \<and> t = ToUpload then 1 else 0)"
    by auto
  moreover have "jb_unit (advance_job pos k' t' err j) = jb_unit j" by (simp add: advance_job_def)
  ultimately show ?thesis using assms(4) by (auto simp: pending_def)
qed

lemma sum_list_replicate_zero:
  fixes f :: "'a \<Rightarrow> 'b :: comm_monoid_add"
  shows "f x = 0 \<Longrightarrow> (\<Sum>y\<leftarrow>replicate n x. f y) = 0"
  by (induction n) simp_all

lemma pool_inv_start: "length es = length (wk_destinations wk) \<Longrightarrow>
    pool_inv wk (workInFlight m) (pool_start n es m ch)"
  by (auto simp: pool_inv_def pool_start_def upload_calls_def threads_ok_def busy_def
      sum_list_replicate_zero simp del: map_replicate)

text \<open>Replacing one thread: what the two sums of the invariant become.\<close>

lemma threads_update:
  assumes "i < length ths"
  shows "(\<Sum>th\<leftarrow>ths[i := t]. pending k th) + pending k (ths ! i) =
      (\<Sum>th\<leftarrow>ths. pending k th) + pending k t"
    and "(\<Sum>th\<leftarrow>ths[i := t]. busy th) + busy (ths ! i) = (\<Sum>th\<leftarrow>ths. busy th) + busy t"
  using assms by (rule sum_list_replace)+

lemma ball_update: "i < length xs \<Longrightarrow> \<forall>x \<in> set xs. P x \<Longrightarrow> P y \<Longrightarrow> \<forall>x \<in> set (xs[i := y]). P x"
  by (auto dest!: subsetD[OF set_update_subset_insert])

lemma threads_ok_update:
  "threads_ok D ch ths \<Longrightarrow> i < length ths \<Longrightarrow>
   (th_phase t = Ended \<longrightarrow> th_job t = None \<and> chan_closed ch \<and> chan_buf ch = []) \<Longrightarrow>
   (\<forall>j. th_job t = Some j \<longrightarrow> (\<forall>(k, t) \<in> set (jb_running j). k < D)) \<Longrightarrow>
   threads_ok D ch (ths[i := t])"
  unfolding threads_ok_def by (rule ball_update) auto

lemma pool_inv_take:
  assumes inv: "pool_inv wk base p" and i: "i < length (po_threads p)"
    and ph: "th_phase (po_threads p ! i) \<noteq> Ended" and idle: "th_job (po_threads p ! i) = None"
    and r: "chan_recv (po_next p) = Ret (ch, Some u)"
  shows "pool_inv wk base (begin_work wk i ch u p)"
proof -
  let ?D = "length (wk_destinations wk)"
  from inv r have ok: "threads_ok ?D ch (po_threads p)"
    by (auto simp: pool_inv_def threads_ok_def go_ret_iff)
  show ?thesis
  proof (cases "start_job wk u")
    case (Inl e)
    with inv ok show ?thesis
      by (simp add: pool_inv_def begin_work_def Let_def started_one)
  next
    case (Inr j)
    let ?t = "(po_threads p ! i)\<lparr>th_job := Some j\<rparr>"
    have "threads_ok ?D ch ((po_threads p)[i := ?t])"
      by (rule threads_ok_update[OF ok i]) (use ph in \<open>auto simp: start_job_running[OF Inr]\<close>)
    moreover have "mset (upload_calls k p) + (\<Sum>th\<leftarrow>(po_threads p)[i := ?t]. pending k th) =
        mset (started wk (po_taken p)) + {#jb_unit j#}" if "k < ?D" for k
      using inv that threads_update(1)[OF i, where t = ?t and k = k] idle pending_start[OF Inr that]
      by (simp add: pool_inv_def add.assoc flip: add.assoc)
    moreover have "busy ?t = 1" "busy (po_threads p ! i) = 0" using idle by (simp_all add: busy_def)
    ultimately show ?thesis
      using inv Inr threads_update(2)[OF i, where t = ?t]
      by (simp add: pool_inv_def begin_work_def Let_def started_one)
  qed
qed

lemma mset_cancel_middle:
  fixes a b c d x :: "'a multiset"
  assumes "d + x = c" and "a + c = b + d"
  shows "a + x = b"
proof -
  have "d + (a + x) = d + b" using assms by (simp add: ac_simps)
  then show ?thesis by (rule add_left_imp_eq)
qed

lemma pool_inv_call:
  assumes inv: "pool_inv wk base p" and i: "i < length (po_threads p)"
    and job: "th_job (po_threads p ! i) = Some j"
    and pos: "pos < length (jb_running j)" "jb_running j ! pos = (k, t)"
    and c: "goroutine_call (wk_destinations wk ! k) ct now (jb_unit j) t (po_es p ! k) = (e', t', err)"
  shows "pool_inv wk base
    (p\<lparr>po_es := (po_es p)[k := e'],
       po_threads := (po_threads p)[i := (po_threads p ! i)\<lparr>th_job := Some (advance_job pos k t' err j)\<rparr>],
       po_calls := po_calls p @ [(k, jb_unit j, t)],
       po_stored := po_stored p @ ss\<rparr>)"
proof -
  let ?D = "length (wk_destinations wk)" and ?j = "advance_job pos k t' err j"
  let ?t = "(po_threads p ! i)\<lparr>th_job := Some ?j\<rparr>"
  have ok: "threads_ok ?D (po_next p) (po_threads p)" using inv by (simp add: pool_inv_def)
  have th: "po_threads p ! i \<in> set (po_threads p)" using i by simp
  have old: "\<forall>(k, t) \<in> set (jb_running j). k < ?D" "th_phase (po_threads p ! i) \<noteq> Ended"
    using ok th job unfolding threads_ok_def by fastforce+
  with pos have "k < ?D" by (metis case_prodD nth_mem)
  with old(1) have "\<forall>(k, t) \<in> set (jb_running ?j). k < ?D"
    by (auto simp: advance_job_def dest: in_set_takeD in_set_dropD)
  then have new: "threads_ok ?D (po_next p) ((po_threads p)[i := ?t])"
    by (intro threads_ok_update[OF ok i]) (use old(2) in auto)
  have "mset (upload_calls k' p) + (if k = k' \<and> t = ToUpload then {#jb_unit j#} else {#}) +
      (\<Sum>th\<leftarrow>(po_threads p)[i := ?t]. pending k' th) = mset (started wk (po_taken p))"
    if "k' < ?D" for k'
  proof -
    let ?x = "if k = k' \<and> t = ToUpload then {#jb_unit j#} else {#}"
    have "pending k' ?t + ?x = pending k' (po_threads p ! i)"
      using advance_pending[OF pos _ job] goroutine_call_next[OF c] by blast
    from this threads_update(1)[OF i, where t = ?t and k = k']
    have "(\<Sum>th\<leftarrow>(po_threads p)[i := ?t]. pending k' th) + ?x = (\<Sum>th\<leftarrow>po_threads p. pending k' th)"
      by (rule mset_cancel_middle)
    with inv that show ?thesis by (simp add: pool_inv_def add.assoc add.commute)
  qed
  then have "\<forall>k' < ?D. mset (upload_calls k' (p\<lparr>po_calls := po_calls p @ [(k, jb_unit j, t)]\<rparr>)) +
      (\<Sum>th\<leftarrow>(po_threads p)[i := ?t]. pending k' th) = mset (started wk (po_taken p))"
    by (intro allI impI) (simp only: upload_calls_snoc mset_append if_distrib[of mset] mset.simps)
  moreover have "busy ?t = busy (po_threads p ! i)" using job by (simp add: busy_def)
  ultimately show ?thesis
    using inv new threads_update(2)[OF i, where t = ?t]
    by (simp add: pool_inv_def upload_calls_def)
qed

lemma pool_inv_thread:
  assumes inv: "pool_inv wk base p" and i: "i < length (po_threads p)"
    and new: "\<forall>k < length (wk_destinations wk). pending k t = pending k (po_threads p ! i)"
      "th_job t = None"
      "th_phase t = Ended \<longrightarrow> chan_closed (po_next p) \<and> chan_buf (po_next p) = []"
    and m: "workInFlight m = workInFlight (po_metrics p) + busy t - busy (po_threads p ! i)"
  shows "pool_inv wk base (p\<lparr>po_threads := (po_threads p)[i := t], po_metrics := m, po_logged := l\<rparr>)"
proof -
  let ?D = "length (wk_destinations wk)"
  have ok: "threads_ok ?D (po_next p) (po_threads p)" using inv by (simp add: pool_inv_def)
  have "threads_ok ?D (po_next p) ((po_threads p)[i := t])"
    by (rule threads_ok_update[OF ok i]) (use new in auto)
  moreover have "(\<Sum>th\<leftarrow>(po_threads p)[i := t]. pending k th) = (\<Sum>th\<leftarrow>po_threads p. pending k th)"
    if "k < ?D" for k
    using threads_update(1)[OF i, where t = t and k = k] new(1) that by simp
  ultimately show ?thesis
    using inv m threads_update(2)[OF i, where t = t] by (simp add: pool_inv_def)
qed

lemma pool_inv_step:
  assumes "pool_step wk p q" and "pool_inv wk base p"
  shows "pool_inv wk base q"
  using assms(1)
proof cases
  case (take_unit i ch u)
  with pool_inv_take[OF assms(2)] show ?thesis by blast
next
  case (spin i ch)
  with assms(2) show ?thesis by (auto simp: go_ret_iff)
next
  case (call i j pos k t now e' t' err)
  with pool_inv_call[OF assms(2)] show ?thesis by blast
next
  case (job_done i j)
  with pool_inv_thread[OF assms(2), of i "(po_threads p ! i)\<lparr>th_job := None\<rparr>"
      "(po_metrics p)\<lparr>workInFlight := workInFlight (po_metrics p) - 1\<rparr>"]
  show ?thesis
    using assms(2)
    by (fastforce simp: pending_def busy_def pool_inv_def threads_ok_def)
next
  case cancel
  with assms(2) show ?thesis by (simp add: pool_inv_def)
next
  case (notice i)
  with pool_inv_thread[OF assms(2), of i "(po_threads p ! i)\<lparr>th_phase := InDrain\<rparr>" "po_metrics p"
      "po_logged p"]
  show ?thesis by simp
next
  case (ended i ch)
  with pool_inv_thread[OF assms(2), of i "(po_threads p ! i)\<lparr>th_phase := Ended\<rparr>" "po_metrics p"
      "po_logged p"]
  show ?thesis by (simp add: go_ret_iff)
qed

lemma pool_inv_reach: "pool_reach wk p q \<Longrightarrow> pool_inv wk base p \<Longrightarrow> pool_inv wk base q"
  by (induction rule: pool_reach.induct) (auto intro: pool_inv_step)

subsection \<open>Messages about what was stored, and nothing else\<close>

text \<open>
  \<open>notify_calls k\<close>: the messages enqueued at the k-th destination, in order; \<open>stored_at k\<close>: the
  messages about its successful uploads; \<open>unsent k\<close>: those a worker has still to enqueue.
\<close>

definition notice_to :: "nat \<Rightarrow> nat \<times> task \<Rightarrow> message_context list" where
  "notice_to k x = (if fst x = k then message_of (Some (snd x)) else [])"

definition unsent :: "nat \<Rightarrow> thread \<Rightarrow> message_context multiset" where
  "unsent k th =
     (case th_job th of None \<Rightarrow> {#} | Some j \<Rightarrow> (\<Sum>x\<leftarrow>jb_running j. mset (notice_to k x)))"

definition notify_calls :: "nat \<Rightarrow> 'e pool \<Rightarrow> message_context list" where
  "notify_calls k p = concat (map (\<lambda>(k', _, t). notice_to k (k', t)) (po_calls p))"

definition stored_at :: "nat \<Rightarrow> 'e pool \<Rightarrow> message_context list" where
  "stored_at k p = map snd (filter (\<lambda>x. fst x = k) (po_stored p))"

definition announced :: "'e pool \<Rightarrow> bool" where
  "announced p \<longleftrightarrow> (\<forall>k. mset (notify_calls k p) + (\<Sum>th\<leftarrow>po_threads p. unsent k th) = mset (stored_at k p))"

lemma message_of_simps [simp]:
  "message_of None = []" "message_of (Some ToUpload) = []" "message_of (Some (ToNotify msg)) = [msg]"
  by (simp_all add: message_of_def)

lemma notice_to_simps [simp]:
  "notice_to k (k', ToUpload) = []"
  "notice_to k (k', ToNotify msg) = (if k' = k then [msg] else [])"
  by (simp_all add: notice_to_def)

lemma unsent_simps [simp]:
  "th_job th = None \<Longrightarrow> unsent k th = {#}"
  "unsent k (th\<lparr>th_phase := x\<rparr>) = unsent k th"
  "th_job th = Some j \<Longrightarrow> jb_running j = [] \<Longrightarrow> unsent k th = {#}"
  by (simp_all add: unsent_def)

lemma unsent_start: "start_job wk u = Inr j \<Longrightarrow> unsent k (th\<lparr>th_job := Some j\<rparr>) = {#}"
  by (simp add: unsent_def start_job_running comp_def)

lemma sum_list_replace_pos:
  fixes f :: "'a \<Rightarrow> 'b :: comm_monoid_add"
  assumes "pos < length xs"
  shows "(\<Sum>x\<leftarrow>take pos xs @ ys @ drop (Suc pos) xs. f x) + f (xs ! pos) = (\<Sum>x\<leftarrow>xs. f x) + (\<Sum>y\<leftarrow>ys. f y)"
proof -
  have "(\<Sum>x\<leftarrow>xs. f x) = (\<Sum>x\<leftarrow>take pos xs @ xs ! pos # drop (Suc pos) xs. f x)"
    using id_take_nth_drop[OF assms] by simp
  then show ?thesis by (simp add: ac_simps)
qed

lemma unsent_call:
  assumes "th_job th = Some j" and "pos < length (jb_running j)" and "jb_running j ! pos = (k', t)"
    and "goroutine_call dst ct now u t e = (e', t', err)"
  shows "unsent k (th\<lparr>th_job := Some (advance_job pos k' t' err j)\<rparr>) + mset (notice_to k (k', t)) =
    unsent k th + (if k' = k then mset (message_of t') else {#})"
proof -
  have "(\<Sum>x\<leftarrow>map (Pair k') (opt_list t'). mset (notice_to k x)) = (if k' = k then mset (message_of t') else {#})"
    by (cases t') (simp_all add: opt_list_def notice_to_def)
  with sum_list_replace_pos[OF assms(2), of "\<lambda>x. mset (notice_to k x)" "map (Pair k') (opt_list t')"] assms
  show ?thesis by (simp add: unsent_def advance_job_def)
qed

lemma announced_thread:
  assumes "announced p" and "i < length (po_threads p)" and "\<And>k. unsent k t = unsent k (po_threads p ! i)"
    and "po_threads q = (po_threads p)[i := t]" and "po_calls q = po_calls p" and "po_stored q = po_stored p"
  shows "announced q"
  unfolding announced_def
proof
  fix k
  have "(\<Sum>th\<leftarrow>po_threads q. unsent k th) = (\<Sum>th\<leftarrow>po_threads p. unsent k th)"
    using sum_list_replace[OF assms(2), of "unsent k" t] assms(3,4) by simp
  with assms(1,5,6) show "mset (notify_calls k q) + (\<Sum>th\<leftarrow>po_threads q. unsent k th) = mset (stored_at k q)"
    by (simp add: announced_def notify_calls_def stored_at_def)
qed

lemma filter_pairs: "map snd (filter (\<lambda>x. fst x = k) (map (Pair k') ms)) = (if k' = k then ms else [])"
  by (induction ms) auto

lemma mset_exchange:
  fixes n s s' u w x :: "'a multiset"
  assumes "s' + u = s + x" and "x + n = u + w"
  shows "n + s' = s + w"
proof -
  have "(n + s') + u = n + (s' + u)" by (simp only: add.assoc)
  also have "\<dots> = s + (x + n)" unfolding assms(1) by (simp only: ac_simps)
  also have "\<dots> = (s + w) + u" unfolding assms(2) by (simp only: ac_simps)
  finally show ?thesis by (rule add_right_imp_eq)
qed

lemma announced_call:
  assumes "announced p" and i: "i < length (po_threads p)" and job: "th_job (po_threads p ! i) = Some j"
    and pos: "pos < length (jb_running j)" "jb_running j ! pos = (k', t)"
    and c: "goroutine_call dst ct now u t e = (e', t', err)"
  shows "announced
    (p\<lparr>po_es := es, po_threads := (po_threads p)[i := (po_threads p ! i)\<lparr>th_job := Some (advance_job pos k' t' err j)\<rparr>],
       po_calls := po_calls p @ [(k', v, t)], po_stored := po_stored p @ map (Pair k') (message_of t')\<rparr>)"
    (is "announced ?q")
  unfolding announced_def
proof
  fix k
  let ?t = "(po_threads p ! i)\<lparr>th_job := Some (advance_job pos k' t' err j)\<rparr>"
  let ?new = "if k' = k then mset (message_of t') else {#}" and ?old = "unsent k (po_threads p ! i)"
  let ?sum = "\<Sum>th\<leftarrow>po_threads p. unsent k th" and ?sum' = "\<Sum>th\<leftarrow>po_threads ?q. unsent k th"
  have s: "?sum' + ?old = ?sum + unsent k ?t"
    using sum_list_replace[OF i, of "unsent k" ?t] by simp
  then have "mset (notice_to k (k', t)) + ?sum' = ?sum + ?new"
    by (rule mset_exchange[OF _ unsent_call[OF job pos c]])
  moreover have "mset (notify_calls k ?q) = mset (notify_calls k p) + mset (notice_to k (k', t))"
    by (simp add: notify_calls_def)
  moreover have "stored_at k ?q = stored_at k p @ (if k' = k then message_of t' else [])"
    by (simp add: stored_at_def filter_pairs del: filter_map)
  then have "mset (stored_at k ?q) = mset (stored_at k p) + ?new" by simp
  moreover have "mset (notify_calls k p) + ?sum = mset (stored_at k p)"
    using assms(1) by (simp add: announced_def)
  ultimately show "mset (notify_calls k ?q) + ?sum' = mset (stored_at k ?q)"
    by (simp only: add.assoc) (simp only: flip: add.assoc)
qed

lemma announced_step:
  assumes "pool_step wk p q" and "announced p"
  shows "announced q"
  using assms(1)
proof cases
  case (take_unit i ch u)
  show ?thesis
  proof (cases "start_job wk u")
    case (Inl e)
    with take_unit assms(2) show ?thesis
      by (simp add: begin_work_def Let_def announced_def notify_calls_def stored_at_def)
  next
    case (Inr j)
    then show ?thesis
      using take_unit
      by (intro announced_thread[OF assms(2) take_unit(2), of "(po_threads p ! i)\<lparr>th_job := Some j\<rparr>"])
         (simp_all add: unsent_start begin_work_def Let_def)
  qed
next
  case (call i j pos k t now e' t' err)
  show ?thesis unfolding call(1) by (rule announced_call[OF assms(2) call(2-6)])
next
  case (job_done i j)
  then show ?thesis
    by (intro announced_thread[OF assms(2) job_done(2), of "(po_threads p ! i)\<lparr>th_job := None\<rparr>"]) simp_all
next
  case (notice i)
  then show ?thesis
    by (intro announced_thread[OF assms(2) notice(2), of "(po_threads p ! i)\<lparr>th_phase := InDrain\<rparr>"]) simp_all
next
  case (ended i ch)
  then show ?thesis
    by (intro announced_thread[OF assms(2) ended(2), of "(po_threads p ! i)\<lparr>th_phase := Ended\<rparr>"]) simp_all
qed (use assms(2) in \<open>simp_all add: announced_def notify_calls_def stored_at_def\<close>)

lemma announced_start: "announced (pool_start n es m ch)"
  by (simp add: announced_def pool_start_def notify_calls_def stored_at_def sum_list_replicate_zero
      del: map_replicate)

subsection \<open>Every run of the workers ends\<close>

definition task_work :: "task \<Rightarrow> nat" where
  "task_work t = (case t of ToUpload \<Rightarrow> 2 | ToNotify _ \<Rightarrow> 1)"

definition job_work :: "job option \<Rightarrow> nat" where
  "job_work jo = (case jo of None \<Rightarrow> 0 | Some j \<Rightarrow> 1 + (\<Sum>x\<leftarrow>jb_running j. task_work (snd x)))"

definition phase_work :: "loop_phase \<Rightarrow> nat" where
  "phase_work ph = (case ph of InSelect \<Rightarrow> 2 | InDrain \<Rightarrow> 1 | Ended \<Rightarrow> 0)"

definition thread_work :: "thread \<Rightarrow> nat" where
  "thread_work th = phase_work (th_phase th) + job_work (th_job th)"

definition pool_work :: "('e, 'w) worker \<Rightarrow> 'e pool \<Rightarrow> nat" where
  "pool_work wk p = length (chan_buf (po_next p)) * (2 * length (wk_destinations wk) + 2) +
     (\<Sum>th\<leftarrow>po_threads p. thread_work th)"

lemma work_simps [simp]:
  "task_work ToUpload = 2" "task_work (ToNotify m) = 1"
  "job_work None = 0"
  "phase_work InSelect = 2" "phase_work InDrain = 1" "phase_work Ended = 0"
  by (simp_all add: task_work_def job_work_def phase_work_def)

lemma thread_replaced:
  assumes "i < length ths" and "thread_work t < thread_work (ths ! i) + n"
  shows "(\<Sum>th\<leftarrow>ths[i := t]. thread_work th) < (\<Sum>th\<leftarrow>ths. thread_work th) + n"
  using sum_list_replace[OF assms(1), of thread_work t] assms(2) by linarith

lemma start_job_work:
  "start_job wk u = Inr j \<Longrightarrow> job_work (Some j) = 1 + 2 * length (wk_destinations wk)"
  by (simp add: job_work_def start_job_running comp_def sum_list_triv)

lemma advance_job_work:
  assumes "pos < length (jb_running j)" and "jb_running j ! pos = (k, t)"
    and "goroutine_call dst ct now u t e = (e', t', err)"
  shows "job_work (Some (advance_job pos k t' err j)) < job_work (Some j)"
proof -
  let ?f = "\<lambda>x. task_work (snd x)" and ?r = "jb_running j"
  have "(\<Sum>x\<leftarrow>?r. ?f x) = (\<Sum>x\<leftarrow>take pos ?r @ (k, t) # drop (Suc pos) ?r. ?f x)"
    using id_take_nth_drop[OF assms(1)] assms(2) by simp
  moreover have "(\<Sum>x\<leftarrow>opt_list t'. task_work x) < task_work t"
    using assms(3) by (auto simp: goroutine_call_def opt_list_def split: task.splits prod.splits sum.splits)
  ultimately show ?thesis by (simp add: job_work_def advance_job_def comp_def)
qed

text \<open>Replacing a thread by one with less to do brings the pool forward.\<close>

lemma pool_work_thread:
  assumes "i < length (po_threads p)" and "thread_work t < thread_work (po_threads p ! i)"
    and "po_next q = po_next p" and "po_threads q = (po_threads p)[i := t]"
  shows "pool_work wk q < pool_work wk p"
  using thread_replaced[OF assms(1), of t 0] assms(2-4) by (simp add: pool_work_def)

lemma pool_work_take:
  assumes "i < length (po_threads p)" and "th_job (po_threads p ! i) = None"
    and "chan_recv (po_next p) = Ret (ch, Some u)"
  shows "pool_work wk (begin_work wk i ch u p) < pool_work wk p"
proof -
  let ?n = "2 * length (wk_destinations wk) + 2"
  have buf: "length (chan_buf (po_next p)) = Suc (length (chan_buf ch))"
    using assms(3) by (auto simp: go_ret_iff)
  show ?thesis
  proof (cases "start_job wk u")
    case (Inl e)
    with buf show ?thesis by (simp add: begin_work_def Let_def pool_work_def)
  next
    case (Inr j)
    have "thread_work ((po_threads p ! i)\<lparr>th_job := Some j\<rparr>) < thread_work (po_threads p ! i) + ?n"
      using assms(2) by (simp add: thread_work_def start_job_work[OF Inr])
    from thread_replaced[OF assms(1) this] Inr buf show ?thesis
      by (simp add: begin_work_def Let_def pool_work_def)
  qed
qed

text \<open>
  A step that changes anything brings the workers closer to their end; \<open>spin\<close>, the \<open>select\<close> on a
  closed channel before the cancellation is noticed, changes nothing.
\<close>

lemma pool_step_work:
  assumes "pool_step wk p q"
  shows "q = p \<or> q = p\<lparr>po_cancelled := True\<rparr> \<or> pool_work wk q < pool_work wk p"
  using assms
proof cases
  case (take_unit i ch u)
  with pool_work_take show ?thesis by blast
next
  case (spin i ch)
  then show ?thesis by (auto simp: go_ret_iff)
next
  case (call i j pos k t now e' t' err)
  then have "pool_work wk q < pool_work wk p"
    by (intro pool_work_thread[OF call(2)])
       (auto simp: thread_work_def advance_job_work[OF call(4,5,6)])
  then show ?thesis by blast
next
  case (job_done i j)
  then have "pool_work wk q < pool_work wk p"
    by (intro pool_work_thread[OF job_done(2)]) (auto simp: thread_work_def job_work_def)
  then show ?thesis by blast
next
  case (notice i)
  then have "pool_work wk q < pool_work wk p"
    by (intro pool_work_thread[OF notice(2)]) (auto simp: thread_work_def)
  then show ?thesis by blast
next
  case (ended i ch)
  then have "pool_work wk q < pool_work wk p"
    by (intro pool_work_thread[OF ended(2)]) (auto simp: thread_work_def)
  then show ?thesis by blast
qed simp

definition all_ended :: "'e pool \<Rightarrow> bool" where
  "all_ended p \<longleftrightarrow> (\<forall>th \<in> set (po_threads p). th_phase th = Ended)"

text \<open>No deadlock: once \<open>next\<close> is closed and the workers cancelled, one of them can go on.\<close>

lemma pool_not_stuck:
  assumes "chan_closed (po_next p)" and "po_cancelled p" and "\<not> all_ended p"
  shows "\<exists>q. pool_step wk p q \<and> pool_work wk q < pool_work wk p"
proof -
  obtain i where i: "i < length (po_threads p)" "th_phase (po_threads p ! i) \<noteq> Ended"
    using assms(3) by (auto simp: all_ended_def in_set_conv_nth)
  let ?th = "po_threads p ! i"
  show ?thesis
  proof (cases "th_job ?th")
    case (Some j)
    show ?thesis
    proof (cases "jb_running j")
      case Nil
      from pool_step.job_done[OF i(1) Some Nil] show ?thesis
        by (intro exI conjI, assumption)
           (auto intro!: pool_work_thread[OF i(1)] simp: thread_work_def job_work_def Some)
    next
      case (Cons x xs)
      obtain k t where kt: "jb_running j ! 0 = (k, t)" by (cases "jb_running j ! 0")
      have pos: "0 < length (jb_running j)" using Cons by simp
      obtain e' t' err where
        c: "goroutine_call (wk_destinations wk ! k) (cp_Type (wk_compressionConf wk)) 0 (jb_unit j) t
          (po_es p ! k) = (e', t', err)" by (metis prod_cases3)
      from pool_step.call[OF i(1) Some pos kt c] show ?thesis
        by (intro exI conjI, assumption)
           (auto intro!: pool_work_thread[OF i(1)] simp: thread_work_def Some
             advance_job_work[OF pos kt c])
    qed
  next
    case None
    show ?thesis
    proof (cases "chan_buf (po_next p)")
      case Nil
      with assms(1) have r: "chan_recv (po_next p) = Ret (po_next p, None)" by (simp add: chan_recv_def)
      show ?thesis
      proof (cases "th_phase ?th")
        case InSelect
        from pool_step.notice[OF i(1) assms(2) InSelect None] show ?thesis
          by (intro exI conjI, assumption)
             (auto intro!: pool_work_thread[OF i(1)] simp: thread_work_def InSelect)
      next
        case InDrain
        from pool_step.ended[OF i(1) InDrain None r] show ?thesis
          by (intro exI conjI, assumption)
             (auto intro!: pool_work_thread[OF i(1)] simp: thread_work_def InDrain)
      qed (use i(2) in simp)
    next
      case (Cons u us)
      then have r: "chan_recv (po_next p) = Ret ((po_next p)\<lparr>chan_buf := us\<rparr>, Some u)"
        by (simp add: chan_recv_def)
      from pool_step.take_unit[OF i None r] pool_work_take[OF i(1) None r] show ?thesis by blast
    qed
  qed
qed

lemma pool_step_closed:
  assumes "pool_step wk p q"
  shows "chan_closed (po_next q) = chan_closed (po_next p) \<and> (po_cancelled p \<longrightarrow> po_cancelled q)"
  using assms by cases (auto simp: go_ret_iff)

text \<open>So from every such state the workers can all return, and every run that keeps moving does.\<close>

lemma pool_finishes:
  "chan_closed (po_next p) \<Longrightarrow> po_cancelled p \<Longrightarrow> \<exists>q. pool_reach wk p q \<and> all_ended q"
proof (induction "pool_work wk p" arbitrary: p rule: less_induct)
  case less
  show ?case
  proof (cases "all_ended p")
    case True
    then show ?thesis by (blast intro: pool_reach.here)
  next
    case False
    from pool_not_stuck[OF less.prems this] obtain q where
      q: "pool_step wk p q" "pool_work wk q < pool_work wk p" by blast
    from less.hyps[OF q(2)] pool_step_closed[OF q(1)] less.prems obtain r where
      "pool_reach wk q r" "all_ended r" by blast
    with q(1) show ?thesis by (blast intro: pool_reach_trans pool_reach_step)
  qed
qed

subsection \<open>The function \<open>work\<close> as a run of one worker\<close>

text \<open>One destination: the upload, and the notification when there is one.\<close>

lemma pool_destination:
  assumes i: "i < length (po_threads p)" and job: "th_job (po_threads p ! i) = Some j"
    and rs: "jb_running j = xs @ (k, ToUpload) # ys"
    and up: "uploadAndNotify (wk_destinations wk ! k) (wk_compressionConf wk) now (jb_unit j) (po_es p ! k) = (e', r)"
    and k: "k < length (po_es p)"
  shows "\<exists>cs ss. pool_reach wk p
    (p\<lparr>po_es := (po_es p)[k := e'],
       po_threads := (po_threads p)[i := (po_threads p ! i)\<lparr>th_job :=
         Some (j\<lparr>jb_running := xs @ ys, jb_errors := jb_errors j @ opt_list r\<rparr>)\<rparr>],
       po_calls := po_calls p @ cs, po_stored := po_stored p @ ss\<rparr>)"
proof -
  let ?dst = "wk_destinations wk ! k" and ?ct = "cp_Type (wk_compressionConf wk)" and ?pos = "length xs"
  have pos: "?pos < length (jb_running j)" "jb_running j ! ?pos = (k, ToUpload)" using rs by simp_all
  obtain e1 ur where u: "ds_Upload ?dst (po_es p ! k) (jb_unit j) = (e1, ur)" by fastforce
  show ?thesis
  proof (cases ur)
    case (Inl err)
    with u up have e: "e' = e1" "r = Some (Wrapf ''failed to upload object to storage: %w'' err)"
      by (simp_all add: uploadAndNotify_def)
    have "goroutine_call ?dst ?ct now (jb_unit j) ToUpload (po_es p ! k) = (e', None, r)"
      using u Inl e by (simp add: goroutine_call_def)
    from pool_reach_step[OF pool_step.call[OF i job pos this]] show ?thesis
      by (intro exI[of _ "[(k, jb_unit j, ToUpload)]"] exI[of _ "[]"])
         (simp add: advance_job_def rs opt_list_def message_of_def)
  next
    case (Inr res)
    let ?m = "messageFor res ?ct now"
    obtain e2 q where n: "ds_Enqueue ?dst e1 ?m = (e2, q)" by fastforce
    from u n Inr up have e: "e' = e2" "r = map_option (Wrapf ''failed to enqueue data %w'') q"
      by (auto simp: uploadAndNotify_def split: option.splits)
    have c1: "goroutine_call ?dst ?ct now (jb_unit j) ToUpload (po_es p ! k) = (e1, Some (ToNotify ?m), None)"
      using u Inr by (simp add: goroutine_call_def)
    let ?j1 = "advance_job ?pos k (Some (ToNotify ?m)) None j"
    let ?p1 = "p\<lparr>po_es := (po_es p)[k := e1],
        po_threads := (po_threads p)[i := (po_threads p ! i)\<lparr>th_job := Some ?j1\<rparr>],
        po_calls := po_calls p @ [(k, jb_unit j, ToUpload)], po_stored := po_stored p @ [(k, ?m)]\<rparr>"
    have r1: "pool_reach wk p ?p1"
      using pool_reach_step[OF pool_step.call[OF i job pos c1]] by (simp add: message_of_def)
    have j1: "jb_running ?j1 = xs @ (k, ToNotify ?m) # ys" "jb_unit ?j1 = jb_unit j"
      "jb_errors ?j1 = jb_errors j"
      by (simp_all add: advance_job_def rs opt_list_def)
    have c2: "goroutine_call ?dst ?ct now (jb_unit ?j1) (ToNotify ?m) (po_es ?p1 ! k) = (e', None, r)"
      using n e k by (simp add: goroutine_call_def)
    have "pool_step wk ?p1
        (?p1\<lparr>po_es := (po_es ?p1)[k := e'],
          po_threads := (po_threads ?p1)[i := (po_threads ?p1 ! i)\<lparr>th_job := Some (advance_job ?pos k None r ?j1)\<rparr>],
          po_calls := po_calls ?p1 @ [(k, jb_unit ?j1, ToNotify ?m)],
          po_stored := po_stored ?p1 @ map (Pair k) (message_of None)\<rparr>)"
      by (rule pool_step.call[OF _ _ _ _ c2]) (use i j1 in simp_all)
    from pool_reach.there[OF r1 this] i j1 show ?thesis
      by (intro exI[of _ "[(k, jb_unit j, ToUpload), (k, jb_unit j, ToNotify ?m)]"] exI[of _ "[(k, ?m)]"])
         (simp add: advance_job_def rs opt_list_def message_of_def)
  qed
qed

text \<open>All destinations, in any order in which the goroutines may end.\<close>

lemma pool_goroutines:
  assumes "distinct order" and "mset (jb_running j) = mset (map (\<lambda>k. (k, ToUpload)) order)"
    and "i < length (po_threads p)" and "th_job (po_threads p ! i) = Some j"
    and "set order \<subseteq> {..<length (po_es p)}" and "chan_buf ch = jb_errors j"
    and "runGoroutines (wk_destinations wk) (wk_compressionConf wk) clock (jb_unit j) order
      (po_es p, ch) = Ret (es', ch')"
  shows "\<exists>j' cs ss. pool_reach wk p
      (p\<lparr>po_es := es', po_threads := (po_threads p)[i := (po_threads p ! i)\<lparr>th_job := Some j'\<rparr>],
         po_calls := po_calls p @ cs, po_stored := po_stored p @ ss\<rparr>) \<and> jb_running j' = [] \<and> jb_errors j' = chan_buf ch'"
  using assms
proof (induction order arbitrary: p j ch)
  case Nil
  then have "(po_threads p ! i)\<lparr>th_job := Some j\<rparr> = po_threads p ! i" by (cases "po_threads p ! i") simp
  then have "(po_threads p)[i := (po_threads p ! i)\<lparr>th_job := Some j\<rparr>] = po_threads p"
    by (simp only: list_update_id)
  moreover from Nil.prems(7) have "es' = po_es p" "ch' = ch" by simp_all
  ultimately show ?case
    using Nil.prems by (intro exI[of _ j] exI[of _ "[]"] exI[of _ "[]"]) (simp add: pool_reach.here)
next
  case (Cons k order)
  from Cons.prems(2) have "(k, ToUpload) \<in> set (jb_running j)"
    by (metis image_eqI list.set_intros(1) list.set_map set_mset_mset)
  then obtain xs ys where rs: "jb_running j = xs @ (k, ToUpload) # ys" by (meson split_list)
  obtain e' r where up: "uploadAndNotify (wk_destinations wk ! k) (wk_compressionConf wk) (clock k)
      (jb_unit j) (po_es p ! k) = (e', r)" by fastforce
  let ?j = "j\<lparr>jb_running := xs @ ys, jb_errors := jb_errors j @ opt_list r\<rparr>"
  let ?ch = "ch\<lparr>chan_buf := chan_buf ch @ opt_list r\<rparr>"
  have k: "k < length (po_es p)" using Cons.prems(5) by simp
  obtain cs ss where p1: "pool_reach wk p
      (p\<lparr>po_es := (po_es p)[k := e'],
         po_threads := (po_threads p)[i := (po_threads p ! i)\<lparr>th_job := Some ?j\<rparr>],
         po_calls := po_calls p @ cs, po_stored := po_stored p @ ss\<rparr>)" (is "pool_reach wk p ?p")
    using pool_destination[OF Cons.prems(3,4) rs up k] by blast
  have run: "runGoroutines (wk_destinations wk) (wk_compressionConf wk) clock (jb_unit ?j) order
      (po_es ?p, ?ch) = Ret (es', ch')"
    using Cons.prems(7) up by (cases r) (auto simp: opt_list_def go_ret_iff)
  have "\<exists>j' cs' ss'. pool_reach wk ?p
      (?p\<lparr>po_es := es', po_threads := (po_threads ?p)[i := (po_threads ?p ! i)\<lparr>th_job := Some j'\<rparr>],
         po_calls := po_calls ?p @ cs', po_stored := po_stored ?p @ ss'\<rparr>) \<and> jb_running j' = [] \<and> jb_errors j' = chan_buf ch'"
    by (rule Cons.IH[OF _ _ _ _ _ _ run]) (use Cons.prems rs in auto)
  then obtain j' cs' ss' where "pool_reach wk ?p
      (?p\<lparr>po_es := es', po_threads := (po_threads ?p)[i := (po_threads ?p ! i)\<lparr>th_job := Some j'\<rparr>],
         po_calls := po_calls ?p @ cs', po_stored := po_stored ?p @ ss'\<rparr>)" and j': "jb_running j' = []" "jb_errors j' = chan_buf ch'"
    by blast
  from pool_reach_trans[OF this(1) p1] Cons.prems(3) have "pool_reach wk p
      (p\<lparr>po_es := es', po_threads := (po_threads p)[i := (po_threads p ! i)\<lparr>th_job := Some j'\<rparr>],
         po_calls := po_calls p @ cs @ cs', po_stored := po_stored p @ ss @ ss'\<rparr>)" by simp
  with j' show ?case by blast
qed

subsection \<open>Properties\<close>

text \<open>
  C18 (refinement): the function \<open>work\<close>, with any order in which its goroutines may end, is a run of
  the pool in which only this worker moves: the same effect on every destination, the same gauge,
  the same error logged, and the worker is back at its channel.
\<close>

theorem work_is_a_run_of_the_pool:
  assumes "i < length (po_threads p)" and "th_phase (po_threads p ! i) \<noteq> Ended"
    and "th_job (po_threads p ! i) = None" and "chan_recv (po_next p) = Ret (ch, Some u)"
    and "length (po_es p) = length (wk_destinations wk)"
    and "distinct order" and "set order = {..<length (wk_destinations wk)}"
    and "work wk clock order u (po_es p, po_metrics p) = Ret ((es', m'), logged)"
  shows "\<exists>q. pool_reach wk p q \<and> po_es q = es' \<and> po_metrics q = m' \<and> po_next q = ch \<and>
    po_threads q = po_threads p \<and> po_taken q = po_taken p @ [u] \<and>
    po_logged q = po_logged p @ opt_list logged"
proof -
  note first = pool_reach_step[OF pool_step.take_unit[OF assms(1-4), of wk]]
  obtain res where c: "compress (wk_codecs wk) (wk_compressionConf wk) (wu_Data u) = Ret res"
    using compress_returns by (fastforce simp: go_returns_iff)
  show ?thesis
  proof (cases res)
    case (Inl err)
    with c have "start_job wk u = Inl err" by (simp add: start_job_def)
    with first c Inl assms(8) show ?thesis
      by (intro exI[of _ "begin_work wk i ch u p"])
         (auto simp: work_def begin_work_def Let_def opt_list_def)
  next
    case (Inr d)
    define j where "j = \<lparr>jb_unit = u\<lparr>wu_Data := d\<rparr>,
      jb_running = map (\<lambda>i. (i, ToUpload)) [0..<length (wk_destinations wk)], jb_errors = []\<rparr>"
    have sj: "start_job wk u = Inr j" using c Inr by (simp add: start_job_def j_def)
    let ?p = "begin_work wk i ch u p" and ?ch0 = "\<lparr>chan_cap = length (wk_destinations wk), chan_buf = [],
      chan_closed = False\<rparr> :: error gochan"
    have p: "po_es ?p = po_es p" "po_threads ?p ! i = (po_threads p ! i)\<lparr>th_job := Some j\<rparr>"
      using assms(1) sj by (simp_all add: begin_work_def Let_def)
    from assms(8) c Inr obtain ch' err where
      run: "runGoroutines (wk_destinations wk) (wk_compressionConf wk) clock (jb_unit j) order
        (po_es ?p, ?ch0) = Ret (es', ch')"
      and je: "joinErrors (ch'\<lparr>chan_closed := True\<rparr>) = Ret err" and m': "m' = po_metrics p"
      and l: "logged = err"
      by (auto simp: work_def sendDataAndNotify_def make_chan_def go_ret_iff j_def Let_def p(1))
    have err: "err = joined (chan_buf ch')" using je joinErrors_closed[of "ch'\<lparr>chan_closed := True\<rparr>"] by simp
    have ms: "mset (jb_running j) = mset (map (\<lambda>k. (k, ToUpload)) order)"
    proof -
      have "mset order = mset [0..<length (wk_destinations wk)]"
        using assms(6,7) by (metis atLeast_upt distinct_upt set_eq_iff_mset_eq_distinct)
      then show ?thesis by (simp add: j_def flip: image_mset_mset_set mset_upt)
    qed
    have "\<exists>j' cs ss. pool_reach wk ?p
        (?p\<lparr>po_es := es', po_threads := (po_threads ?p)[i := (po_threads ?p ! i)\<lparr>th_job := Some j'\<rparr>],
           po_calls := po_calls ?p @ cs, po_stored := po_stored ?p @ ss\<rparr>) \<and> jb_running j' = [] \<and> jb_errors j' = chan_buf ch'"
      by (rule pool_goroutines[OF assms(6) ms _ _ _ _ run]) (use assms p in \<open>simp_all add: j_def\<close>)
    then obtain j' cs ss where r: "pool_reach wk ?p
        (?p\<lparr>po_es := es', po_threads := (po_threads ?p)[i := (po_threads ?p ! i)\<lparr>th_job := Some j'\<rparr>],
           po_calls := po_calls ?p @ cs, po_stored := po_stored ?p @ ss\<rparr>)" (is "pool_reach wk ?p ?q")
      and j': "jb_running j' = []" "jb_errors j' = chan_buf ch'" by blast
    define q where "q = ?q\<lparr>po_threads := (po_threads ?q)[i := (po_threads ?q ! i)\<lparr>th_job := None\<rparr>],
        po_metrics := (po_metrics ?q)\<lparr>workInFlight := workInFlight (po_metrics ?q) - 1\<rparr>,
        po_logged := po_logged ?q @ opt_list (joined (jb_errors j'))\<rparr>"
    have "pool_step wk ?q q"
      unfolding q_def by (rule pool_step.job_done) (use assms(1) j' in simp_all)
    then have "pool_reach wk p q" by (rule pool_reach_trans[OF pool_reach.there[OF r] first])
    moreover have "(po_threads p ! i)\<lparr>th_job := None\<rparr> = po_threads p ! i"
      using assms(3) by (cases "po_threads p ! i") simp
    then have "(po_threads p)[i := (po_threads p ! i)\<lparr>th_job := None\<rparr>] = po_threads p"
      by (simp only: list_update_id)
    then have "po_threads q = po_threads p"
      using assms(1) sj by (simp add: q_def begin_work_def Let_def)
    moreover have "po_es q = es'" "po_metrics q = m'" "po_next q = ch" "po_taken q = po_taken p @ [u]"
      "po_logged q = po_logged p @ opt_list logged"
      using sj j' err l m' by (simp_all add: q_def begin_work_def Let_def)
    ultimately show ?thesis by blast
  qed
qed

text \<open>A worker with a storage that works and one that is down, and a pool of two such workers.\<close>

definition sample_pair :: "(bytes list \<times> message_context list, string) worker" where
  "sample_pair =
     \<lparr>wk_destinations = [recording_destination True, recording_destination False],
      wk_incomingWorkChan = \<lparr>chan_cap = 2, chan_buf = [], chan_closed = False\<rparr>, wk_flowName = ''a'',
      wk_compressionConf = \<lparr>cp_Level = [], cp_Type = [], cp_PreallocSlicePercentage = 2\<rparr>,
      wk_codecs = framed_codecs, wk_doneChan = None\<rparr>"

definition sample_pool :: "bool \<Rightarrow> work_unit list \<Rightarrow> (bytes list \<times> message_context list) pool" where
  "sample_pool is_closed us = pool_start 2 [([], []), ([], [])] \<lparr>workInFlight = 0\<rparr>
     \<lparr>chan_cap = 2, chan_buf = us, chan_closed = is_closed\<rparr>"

lemma work_is_a_run_of_the_pool_witness:
  "\<exists>q. pool_reach sample_pair
       (sample_pool False [\<lparr>wu_Filename = ''f'', wu_Prefix = ''p'', wu_Data = [1, 2]\<rparr>]) q \<and>
     map fst (po_es q) = [[[1, 2]], []] \<and> length (po_logged q) = 1"
proof -
  let ?u = "\<lparr>wu_Filename = ''f'', wu_Prefix = ''p'', wu_Data = [1, 2]\<rparr> :: work_unit"
  let ?p = "sample_pool False [?u]"
  obtain es' m' logged where
    w: "work sample_pair (\<lambda>_. 7) [1, 0] ?u (po_es ?p, po_metrics ?p) = Ret ((es', m'), logged)"
    and e: "map fst es' = [[[1, 2]], []]" "logged \<noteq> None"
    by (simp add: work_def compress_none sendDataAndNotify_def make_chan_def chan_send_def chan_close_def
        joinErrors_closed uploadAndNotify_def recording_destination_def pool_start_def sample_pair_def
        sample_pool_def)
  have o: "distinct [1, 0 :: nat]" "set [1, 0] = {..<length (wk_destinations sample_pair)}"
    by (auto simp: sample_pair_def)
  have "\<exists>q. pool_reach sample_pair ?p q \<and> po_es q = es' \<and> po_metrics q = m' \<and>
      po_next q = \<lparr>chan_cap = 2, chan_buf = [], chan_closed = False\<rparr> \<and> po_threads q = po_threads ?p \<and>
      po_taken q = po_taken ?p @ [?u] \<and> po_logged q = po_logged ?p @ opt_list logged"
    by (rule work_is_a_run_of_the_pool[where i = 0, OF _ _ _ _ _ o w])
       (simp_all add: pool_start_def chan_recv_def sample_pair_def sample_pool_def)
  then obtain q where q: "pool_reach sample_pair ?p q" "po_es q = es'"
    "po_logged q = po_logged ?p @ opt_list logged" by blast
  have "length (po_logged q) = 1"
    using q(3) e(2) by (auto simp: pool_start_def sample_pool_def opt_list_def)
  moreover have "map fst (po_es q) = [[[1, 2]], []]" using q(2) e(1) by simp
  ultimately show ?thesis using q(1) by (intro exI[of _ q] conjI)
qed

text \<open>
  C19 (termination): once \<open>next\<close> is closed and the workers are cancelled, they return whatever the
  scheduler does: no run in which every step changes something goes on for ever, and as long as one of
  them has not returned such a step is possible.  (What changes nothing is the \<open>select\<close> on the closed
  channel, which a worker may repeat until it notices the cancellation.)
\<close>

theorem workers_return:
  assumes "chan_closed (po_next p)" and "po_cancelled p"
  shows "(\<not> all_ended p \<longrightarrow> (\<exists>q. pool_step wk p q \<and> q \<noteq> p)) \<and>
    \<not> (\<exists>run. run 0 = p \<and> (\<forall>n. pool_step wk (run n) (run (Suc n)) \<and> run (Suc n) \<noteq> run n))"
proof
  show "\<not> all_ended p \<longrightarrow> (\<exists>q. pool_step wk p q \<and> q \<noteq> p)"
    using pool_not_stuck[OF assms] by (metis less_irrefl)
  show "\<not> (\<exists>run. run 0 = p \<and> (\<forall>n. pool_step wk (run n) (run (Suc n)) \<and> run (Suc n) \<noteq> run n))"
  proof
    assume "\<exists>run. run 0 = p \<and> (\<forall>n. pool_step wk (run n) (run (Suc n)) \<and> run (Suc n) \<noteq> run n)"
    then obtain run where run: "run 0 = p" "\<And>n. pool_step wk (run n) (run (Suc n))"
      "\<And>n. run (Suc n) \<noteq> run n" by blast
    have cancelled: "po_cancelled (run n)" for n
    proof (induction n)
      case (Suc n)
      with pool_step_closed[OF run(2)[of n]] show ?case by simp
    qed (simp add: run(1) assms(2))
    have less: "pool_work wk (run (Suc n)) < pool_work wk (run n)" for n
      using pool_step_work[OF run(2)[of n]] run(3)[of n] cancelled[of n] by auto
    from less show False by (rule no_infinite_descent)
  qed
qed

lemma workers_return_witness:
  "\<exists>q. pool_step sample_pair ((sample_pool True [])\<lparr>po_cancelled := True\<rparr>) q \<and>
     q \<noteq> (sample_pool True [])\<lparr>po_cancelled := True\<rparr>"
proof -
  let ?p = "(sample_pool True [])\<lparr>po_cancelled := True\<rparr>"
  have "\<not> all_ended ?p" by (simp add: all_ended_def pool_start_def sample_pool_def)
  then show ?thesis
    using workers_return[of ?p sample_pair] by (auto simp: pool_start_def sample_pool_def)
qed

end
