(* ===== verification/Upload_Pipeline.thy ===== *)
theory Upload_Pipeline
  imports Worker_Pool
begin

text \<open>
  The second half of a flow as pkg/app/app.go connects it: the uploader's goroutine and the workers,
  sharing the channel \<open>next\<close>, with producers that enqueue and a shutdown that may begin at any moment.
  A step of the whole is a step of the uploader's stage or of the pool of workers.
\<close>

text \<open>The uploader's own steps, and its provider's clock; who receives from \<open>next\<close> is the pool.\<close>

definition uploader_own_ops :: "(uploader, bytes, (file_pather \<times> fp_env) up_world) stage_ops" where
  "uploader_own_ops = flow_uploader_ops\<lparr>op_env := (\<lambda>w w'.
     \<exists>q. clock_moves (up_filePathProvider w) q \<and> w' = w\<lparr>up_filePathProvider := q\<rparr>)\<rparr>"

inductive pipe_step ::
  "('e, 'w) worker \<Rightarrow> up_stage \<times> 'e pool \<Rightarrow> up_stage \<times> 'e pool \<Rightarrow> bool" for wk where
  uploader:
    "stage_step uploader_own_ops s s' \<Longrightarrow>
     pipe_step wk (s, p) (s', p\<lparr>po_next := up_next (st_world s')\<rparr>)"
| workers:
    "pool_step wk p p' \<Longrightarrow>
     pipe_step wk (s, p)
       (s\<lparr>st_world := (st_world s)\<lparr>up_next := po_next p', up_received := po_taken p'\<rparr>\<rparr>, p')"

inductive pipe_reach ::
  "('e, 'w) worker \<Rightarrow> up_stage \<times> 'e pool \<Rightarrow> up_stage \<times> 'e pool \<Rightarrow> bool" for wk x where
  pipe_here: "pipe_reach wk x x"
| pipe_there: "pipe_reach wk x y \<Longrightarrow> pipe_step wk y z \<Longrightarrow> pipe_reach wk x z"

lemma pipe_reach_trans: "pipe_reach wk y z \<Longrightarrow> pipe_reach wk x y \<Longrightarrow> pipe_reach wk x z"
  by (induction rule: pipe_reach.induct) (auto intro: pipe_reach.pipe_there)

definition pipe_start ::
  "uploader \<Rightarrow> (file_pather \<times> fp_env) up_world \<Rightarrow> nat \<Rightarrow> 'e list \<Rightarrow> wk_metrics \<Rightarrow> up_stage \<times> 'e pool" where
  "pipe_start u w n es m = (stage_start (startRun_uploader u) w, pool_start n es m (up_next w))"

subsection \<open>The uploader does not notice who its workers are\<close>

lemma stage_step_env_mono:
  assumes "stage_step (ops\<lparr>op_env := env\<rparr>) s s'" and "\<And>w w'. env w w' \<Longrightarrow> op_env ops w w'"
  shows "stage_step ops s s'"
  using assms(1)
proof cases
  case (enqueue rdy d c' err)
  then show ?thesis using stage_step.enqueue[of rdy s ops d c' err] by simp
next
  case (receive ch' d)
  then show ?thesis using stage_step.receive[of s ops ch' d] by simp
next
  case (handle d now c' w')
  then show ?thesis using stage_step.handle[of s d ops now c' w'] by simp
next
  case (tick now c' w')
  then show ?thesis using stage_step.tick[of s ops now c' w'] by simp
next
  case cancelled
  then show ?thesis using stage_step.cancelled[of s ops] by simp
next
  case (close ch')
  then show ?thesis using stage_step.close[of s ops ch'] by simp
next
  case (drain ch' d)
  then show ?thesis using stage_step.drain[of s ops ch' d] by simp
next
  case (finish ch' c' w')
  then show ?thesis using stage_step.finish[of s ops ch' c' w'] by simp
next
  case (environment w')
  then show ?thesis using stage_step.environment[of ops s w'] assms(2) by simp
qed

lemma own_step: "stage_step uploader_own_ops s s' \<Longrightarrow> stage_step flow_uploader_ops s s'"
  unfolding uploader_own_ops_def
  by (erule stage_step_env_mono)
     (auto simp: flow_uploader_ops_def uploader_ops_def intro: up_env.provider_moves)

lemma own_step_world:
  assumes "stage_step uploader_own_ops s s'"
  shows "up_received (st_world s') = up_received (st_world s) \<and>
    (chan_closed (up_next (st_world s)) \<longrightarrow> up_next (st_world s') = up_next (st_world s))"
  using assms
  by cases (auto simp: uploader_own_ops_def flow_uploader_ops_def uploader_ops_def sendWorkToNext_def
      closeNext_def go_ret_iff)

lemma pool_step_env:
  assumes "pool_step wk p q" and "po_next p = up_next w" and "po_taken p = up_received w"
  shows "(up_env clock_moves)\<^sup>*\<^sup>* w (w\<lparr>up_next := po_next q, up_received := po_taken q\<rparr>)"
  using pool_step_taken[OF assms(1)]
proof
  assume "po_next q = po_next p \<and> po_taken q = po_taken p"
  with assms(2,3) show ?thesis by simp
next
  assume "\<exists>u. chan_recv (po_next p) = Ret (po_next q, Some u) \<and> po_taken q = po_taken p @ [u]"
  with assms(2,3) up_env.worker_receives[of w "po_next q" _ clock_moves] show ?thesis by auto
qed

subsection \<open>The invariant of both\<close>

definition pipe_inv :: "('e, 'w) worker \<Rightarrow> int \<Rightarrow> up_stage \<times> 'e pool \<Rightarrow> bool" where
  "pipe_inv wk base x \<longleftrightarrow>
     fu.up.stage_inv (fst x) \<and> po_next (snd x) = up_next (st_world (fst x)) \<and>
     po_taken (snd x) = up_received (st_world (fst x)) \<and> pool_inv wk base (snd x) \<and>
     announced (snd x)"

lemma pool_inv_next:
  assumes "pool_inv wk base p" and "chan_closed (po_next p) \<Longrightarrow> ch = po_next p"
  shows "pool_inv wk base (p\<lparr>po_next := ch\<rparr>)"
  using assms by (auto simp: pool_inv_def threads_ok_def)

lemma announced_next [simp]: "announced (p\<lparr>po_next := ch\<rparr>) = announced p"
  by (simp add: announced_def notify_calls_def stored_at_def)

lemma pipe_inv_step:
  assumes "pipe_step wk x y" and "pipe_inv wk base x"
  shows "pipe_inv wk base y \<and> stage_reach flow_uploader_ops (fst x) (fst y)"
  using assms(1)
proof cases
  case (uploader s s' p)
  note st = own_step[OF uploader(3)] and world = own_step_world[OF uploader(3)]
  have "fu.up.stage_inv s'"
    using fu.up.stage_inv_reach[OF stage_reach_step[OF st, unfolded flow_uploader_ops_def]] assms(2)
      uploader(1) by (simp add: pipe_inv_def)
  moreover have "pool_inv wk base (p\<lparr>po_next := up_next (st_world s')\<rparr>)"
    using assms(2) uploader(1) world by (intro pool_inv_next) (auto simp: pipe_inv_def)
  ultimately show ?thesis
    using assms(2) uploader world stage_reach_step[OF st] by (simp add: pipe_inv_def)
next
  case (workers p p' s)
  let ?w = "(st_world s)\<lparr>up_next := po_next p', up_received := po_taken p'\<rparr>"
  have "(op_env flow_uploader_ops)\<^sup>*\<^sup>* (st_world s) ?w"
    using pool_step_env[OF workers(3)] assms(2) workers(1)
    by (simp add: pipe_inv_def flow_uploader_ops_def uploader_ops_def)
  then have r: "stage_reach flow_uploader_ops s (s\<lparr>st_world := ?w\<rparr>)" by (rule stage_reach_environment)
  have "fu.up.stage_inv (s\<lparr>st_world := ?w\<rparr>)"
    using fu.up.stage_inv_reach[OF r[unfolded flow_uploader_ops_def]] assms(2) workers(1)
    by (simp add: pipe_inv_def)
  with pool_inv_step[OF workers(3)] announced_step[OF workers(3)] assms(2) workers r show ?thesis by (simp add: pipe_inv_def)
qed

lemma pipe_inv_reach:
  assumes "pipe_reach wk x y" and "pipe_inv wk base x"
  shows "pipe_inv wk base y \<and> stage_reach flow_uploader_ops (fst x) (fst y)"
  using assms
proof (induction rule: pipe_reach.induct)
  case pipe_here
  then show ?case by (simp add: stage_reach.start)
next
  case (pipe_there y z)
  with pipe_inv_step show ?case by (blast intro: stage_reach_trans)
qed

lemma pipe_inv_start:
  assumes "NewUploader workers cap = Ret u" and "new_up_world n q = Ret w" and "0 < n"
    and "pather_ok q" and "length es = length (wk_destinations wk)"
  shows "pipe_inv wk (workInFlight m) (pipe_start u w k es m)"
  using new_uploader_inv[OF assms(1-4)] pool_inv_start[OF assms(5)] announced_start assms(2)
  by (auto simp: pipe_inv_def pipe_start_def stage_start_def pool_start_def new_up_world_def go_ret_iff)

subsection \<open>What the uploader does alone, it can do with these workers\<close>

text \<open>
  A worker that is left to work finishes the unit it has: one schedule of its goroutines, the first
  one that is left always first.
\<close>

definition first_call :: "('e, 'w) worker \<Rightarrow> nat \<Rightarrow> job \<Rightarrow> 'e pool \<Rightarrow> 'e pool" where
  "first_call wk i j p =
     (let (k, t) = jb_running j ! 0;
          (e', t', err) = goroutine_call (wk_destinations wk ! k) (cp_Type (wk_compressionConf wk)) 0
            (jb_unit j) t (po_es p ! k) in
      p\<lparr>po_es := (po_es p)[k := e'],
        po_threads := (po_threads p)[i := (po_threads p ! i)\<lparr>th_job := Some (advance_job 0 k t' err j)\<rparr>],
        po_calls := po_calls p @ [(k, jb_unit j, t)],
        po_stored := po_stored p @ map (Pair k) (message_of t')\<rparr>)"

definition end_job :: "nat \<Rightarrow> job \<Rightarrow> 'e pool \<Rightarrow> 'e pool" where
  "end_job i j p =
     p\<lparr>po_threads := (po_threads p)[i := (po_threads p ! i)\<lparr>th_job := None\<rparr>],
       po_metrics := (po_metrics p)\<lparr>workInFlight := workInFlight (po_metrics p) - 1\<rparr>,
       po_logged := po_logged p @ opt_list (joined (jb_errors j))\<rparr>"

primrec finish_job :: "('e, 'w) worker \<Rightarrow> nat \<Rightarrow> nat \<Rightarrow> 'e pool \<Rightarrow> 'e pool" where
  "finish_job wk i 0 p = p"
| "finish_job wk i (Suc n) p =
     (case th_job (po_threads p ! i) of
        None \<Rightarrow> p
      | Some j \<Rightarrow> if jb_running j = [] then end_job i j p else finish_job wk i n (first_call wk i j p))"

definition idle_worker :: "('e, 'w) worker \<Rightarrow> nat \<Rightarrow> 'e pool \<Rightarrow> 'e pool" where
  "idle_worker wk i p = finish_job wk i (job_work (th_job (po_threads p ! i))) p"

definition idles_to :: "('e, 'w) worker \<Rightarrow> nat \<Rightarrow> 'e pool \<Rightarrow> 'e pool \<Rightarrow> bool" where
  "idles_to wk i p q \<longleftrightarrow>
     pool_reach wk p q \<and> po_next q = po_next p \<and> po_taken q = po_taken p \<and>
     length (po_threads q) = length (po_threads p) \<and> th_job (po_threads q ! i) = None \<and>
     th_phase (po_threads q ! i) = th_phase (po_threads p ! i)"

lemma first_call_step:
  assumes "i < length (po_threads p)" and "th_job (po_threads p ! i) = Some j" and "jb_running j \<noteq> []"
  shows "pool_step wk p (first_call wk i j p) \<and>
    job_work (th_job (po_threads (first_call wk i j p) ! i)) < job_work (Some j)"
proof -
  obtain k t where kt: "jb_running j ! 0 = (k, t)" by (cases "jb_running j ! 0")
  obtain e' t' err where
    c: "goroutine_call (wk_destinations wk ! k) (cp_Type (wk_compressionConf wk)) 0 (jb_unit j) t
      (po_es p ! k) = (e', t', err)" by (metis prod_cases3)
  have pos: "0 < length (jb_running j)" using assms(3) by simp
  from pool_step.call[OF assms(1,2) pos kt c] advance_job_work[OF pos kt c] assms(1) show ?thesis
    by (simp add: first_call_def kt c)
qed

lemma finish_job_idles:
  assumes "i < length (po_threads p)" and "job_work (th_job (po_threads p ! i)) \<le> n"
  shows "idles_to wk i p (finish_job wk i n p)"
  using assms
proof (induction n arbitrary: p)
  case 0
  then have "th_job (po_threads p ! i) = None"
    by (cases "th_job (po_threads p ! i)") (simp_all add: job_work_def)
  then show ?case by (simp add: idles_to_def pool_reach.here)
next
  case (Suc n)
  show ?case
  proof (cases "th_job (po_threads p ! i)")
    case None
    then show ?thesis by (simp add: idles_to_def pool_reach.here)
  next
    case (Some j)
    show ?thesis
    proof (cases "jb_running j = []")
      case True
      from pool_reach_step[OF pool_step.job_done[OF Suc.prems(1) Some True]] Suc.prems(1) Some True
      show ?thesis by (simp add: idles_to_def end_job_def)
    next
      case False
      let ?q = "first_call wk i j p"
      note st = first_call_step[OF Suc.prems(1) Some False, of wk]
      have fr: "length (po_threads ?q) = length (po_threads p)" "po_next ?q = po_next p"
        "po_taken ?q = po_taken p" "th_phase (po_threads ?q ! i) = th_phase (po_threads p ! i)"
        using Suc.prems(1) by (simp_all add: first_call_def split: prod.split)
      have "idles_to wk i ?q (finish_job wk i n ?q)"
        using Suc st Some fr(1) by (intro Suc.IH) auto
      with fr False Some pool_reach_trans[OF _ pool_reach_step[OF conjunct1[OF st]]] show ?thesis
        by (simp add: idles_to_def)
    qed
  qed
qed

lemma idle_worker_idles: "i < length (po_threads p) \<Longrightarrow> idles_to wk i p (idle_worker wk i p)"
  unfolding idle_worker_def by (rule finish_job_idles) simp_all

lemma stage_step_env_or:
  assumes "stage_step ops s s'"
  shows "stage_step (ops\<lparr>op_env := env\<rparr>) s s' \<or>
    (\<exists>w. op_env ops (st_world s) w \<and> s' = s\<lparr>st_world := w\<rparr>)"
  using assms
proof cases
  case (enqueue rdy d c' err)
  then show ?thesis using stage_step.enqueue[of rdy s "ops\<lparr>op_env := env\<rparr>" d c' err] by simp
next
  case (receive ch' d)
  then show ?thesis using stage_step.receive[of s "ops\<lparr>op_env := env\<rparr>" ch' d] by simp
next
  case (handle d now c' w')
  then show ?thesis using stage_step.handle[of s d "ops\<lparr>op_env := env\<rparr>" now c' w'] by simp
next
  case (tick now c' w')
  then show ?thesis using stage_step.tick[of s "ops\<lparr>op_env := env\<rparr>" now c' w'] by simp
next
  case cancelled
  then show ?thesis using stage_step.cancelled[of s "ops\<lparr>op_env := env\<rparr>"] by simp
next
  case (close ch')
  then show ?thesis using stage_step.close[of s "ops\<lparr>op_env := env\<rparr>" ch'] by simp
next
  case (drain ch' d)
  then show ?thesis using stage_step.drain[of s "ops\<lparr>op_env := env\<rparr>" ch' d] by simp
next
  case (finish ch' c' w')
  then show ?thesis using stage_step.finish[of s "ops\<lparr>op_env := env\<rparr>" ch' c' w'] by simp
qed blast

lemma flow_step_cases:
  assumes "stage_step flow_uploader_ops s s'"
  obtains "stage_step uploader_own_ops s s'"
  | ch u where "chan_recv (up_next (st_world s)) = Ret (ch, Some u)"
      "s' = s\<lparr>st_world := (st_world s)\<lparr>up_next := ch,
        up_received := up_received (st_world s) @ [u]\<rparr>\<rparr>"
proof -
  let ?env = "\<lambda>w w'. \<exists>q. clock_moves (up_filePathProvider w) q \<and> w' = w\<lparr>up_filePathProvider := q\<rparr>"
  from stage_step_env_or[OF assms, of ?env] consider "stage_step uploader_own_ops s s'"
    | w where "up_env clock_moves (st_world s) w" "s' = s\<lparr>st_world := w\<rparr>"
    by (auto simp: uploader_own_ops_def flow_uploader_ops_def uploader_ops_def)
  then show thesis
  proof cases
    case 1
    then show ?thesis by (rule that(1))
  next
    case (2 w)
    from 2(1) show ?thesis
    proof cases
      case (worker_receives ch u)
      with 2 that(2) show ?thesis by blast
    next
      case (provider_moves q)
      then have "op_env uploader_own_ops (st_world s) w"
        by (simp add: uploader_own_ops_def del: split_paired_Ex) blast
      from stage_step.environment[OF this] 2(2) show ?thesis by (intro that(1)) simp
    qed
  qed
qed

definition in_step :: "up_stage \<Rightarrow> 'e pool \<Rightarrow> bool" where
  "in_step s p \<longleftrightarrow> po_next p = up_next (st_world s) \<and> po_taken p = up_received (st_world s)"

lemma pool_reach_pipe:
  assumes "pool_reach wk p q" and "in_step s p"
  shows "pipe_reach wk (s, p)
    (s\<lparr>st_world := (st_world s)\<lparr>up_next := po_next q, up_received := po_taken q\<rparr>\<rparr>, q)"
  using assms
proof (induction rule: pool_reach.induct)
  case here
  then show ?case by (simp add: in_step_def pipe_reach.pipe_here)
next
  case (there q r)
  from pipe_reach.pipe_there[OF there.IH[OF there.prems] pipe_step.workers[OF there.hyps(2)]]
  show ?case by simp
qed

lemma receive_in_pipe:
  assumes inv: "pipe_inv wk base (s, p)" and ths: "po_threads p \<noteq> []"
    and r: "chan_recv (up_next (st_world s)) = Ret (ch, Some u)"
  shows "\<exists>q. pipe_reach wk (s, p) (s\<lparr>st_world := (st_world s)\<lparr>up_next := ch,
      up_received := up_received (st_world s) @ [u]\<rparr>\<rparr>, q) \<and>
    length (po_threads q) = length (po_threads p)"
proof -
  have i: "0 < length (po_threads p)" using ths by simp
  then have "po_threads p ! 0 \<in> set (po_threads p)" by (rule nth_mem)
  with inv r have live: "th_phase (po_threads p ! 0) \<noteq> Ended"
    by (auto simp: pipe_inv_def pool_inv_def threads_ok_def go_ret_iff)
  define q where "q = idle_worker wk 0 p"
  have q: "pool_reach wk p q" "po_next q = po_next p"
    "po_taken q = po_taken p" "length (po_threads q) = length (po_threads p)"
    "th_job (po_threads q ! 0) = None" "th_phase (po_threads q ! 0) = th_phase (po_threads p ! 0)"
    using idle_worker_idles[OF i, of wk] by (simp_all add: q_def idles_to_def)
  have syn: "in_step s p" using inv by (simp add: in_step_def pipe_inv_def)
  have "pool_step wk q (begin_work wk 0 ch u q)"
    using q i live r syn by (intro pool_step.take_unit) (auto simp: in_step_def)
  from pool_reach_pipe[OF pool_reach.there[OF q(1) this] syn] q syn show ?thesis
    by (intro exI[of _ "begin_work wk 0 ch u q"]) (simp add: in_step_def)
qed

lemma own_step_in_pipe:
  assumes "stage_step uploader_own_ops s s'" and "in_step s p"
  shows "\<exists>q. pipe_reach wk (s, p) (s', q) \<and> length (po_threads q) = length (po_threads p)"
  using pipe_reach.pipe_there[OF pipe_reach.pipe_here pipe_step.uploader[OF assms(1)], of wk p]
  by (intro exI conjI, assumption) simp

lemma pipe_simulates:
  assumes "stage_reach flow_uploader_ops s v" and "pipe_inv wk base (s, p)" and "po_threads p \<noteq> []"
  shows "\<exists>q. pipe_reach wk (s, p) (v, q) \<and> length (po_threads q) = length (po_threads p)"
  using assms
proof (induction rule: stage_reach.induct)
  case start
  then show ?case by (blast intro: pipe_reach.pipe_here)
next
  case (step t v)
  then obtain q where q: "pipe_reach wk (s, p) (t, q)" "length (po_threads q) = length (po_threads p)"
    by blast
  have inv: "pipe_inv wk base (t, q)" using pipe_inv_reach[OF q(1) step.prems(1)] by simp
  have "\<exists>r. pipe_reach wk (t, q) (v, r) \<and> length (po_threads r) = length (po_threads q)"
    using step.hyps(2)
  proof (cases rule: flow_step_cases)
    case 1
    then show ?thesis by (rule own_step_in_pipe) (use inv in \<open>simp add: in_step_def pipe_inv_def\<close>)
  next
    case (2 ch u)
    have "po_threads q \<noteq> []" using q(2) step.prems(2) by auto
    from receive_in_pipe[OF inv this 2(1)] 2(2) show ?thesis by simp
  qed
  with q show ?case by (auto intro: pipe_reach_trans)
qed

lemma pool_step_threads: "pool_step wk p q \<Longrightarrow> length (po_threads q) = length (po_threads p)"
  by (induction rule: pool_step.induct) simp_all

lemma pipe_reach_threads:
  "pipe_reach wk x y \<Longrightarrow> length (po_threads (snd y)) = length (po_threads (snd x))"
proof (induction rule: pipe_reach.induct)
  case (pipe_there y z)
  from pipe_there.hyps(2) pipe_there.IH show ?case by cases (simp_all add: pool_step_threads)
qed simp

lemma sum_list_zero:
  fixes f :: "'a \<Rightarrow> 'b :: comm_monoid_add"
  shows "\<forall>x \<in> set xs. f x = 0 \<Longrightarrow> (\<Sum>x\<leftarrow>xs. f x) = 0"
  by (induction xs) simp_all

text \<open>What the invariant says of the units and the uploads, at any moment and at the end.\<close>

lemma workers_of_inv:
  assumes inv: "pipe_inv wk base (s, p)" and ths: "po_threads p \<noteq> []"
  shows "map wu_Data (up_units (st_world s)) = st_handled s \<and>
    (\<forall>k < length (wk_destinations wk).
       mset (upload_calls k p) \<subseteq># mset (started wk (up_units (st_world s))) \<and>
       mset (notify_calls k p) \<subseteq># mset (stored_at k p)) \<and>
    (all_ended p \<longrightarrow> st_phase s = Finished \<and>
       map wu_Data (up_units (st_world s)) = st_accepted s \<and>
       (\<forall>k < length (wk_destinations wk).
          mset (upload_calls k p) = mset (started wk (up_units (st_world s))) \<and>
          mset (notify_calls k p) = mset (stored_at k p)) \<and>
       workInFlight (po_metrics p) = base)"
proof -
  from inv have up: "fu.up.stage_inv s" and po: "pool_inv wk base p"
    and syn: "po_next p = up_next (st_world s)" "po_taken p = up_received (st_world s)"
    by (simp_all add: pipe_inv_def)
  have units: "up_units (st_world s) = po_taken p @ chan_buf (po_next p)"
    using syn by (simp add: up_units_def)
  have ann: "mset (notify_calls k p) + (\<Sum>th\<leftarrow>po_threads p. unsent k th) = mset (stored_at k p)" for k
    using inv by (simp add: pipe_inv_def announced_def)
  have sub: "mset (upload_calls k p) \<subseteq># mset (started wk (up_units (st_world s)))"
    if "k < length (wk_destinations wk)" for k
  proof -
    have "mset (upload_calls k p) \<subseteq># mset (started wk (po_taken p))"
      using po that unfolding pool_inv_def by (metis mset_subset_eq_add_left)
    also have "\<dots> \<subseteq># mset (started wk (up_units (st_world s)))" by (simp add: units)
    finally show ?thesis .
  qed
  have fin: "st_phase s = Finished \<and> map wu_Data (up_units (st_world s)) = st_accepted s \<and>
      (\<forall>k < length (wk_destinations wk).
         mset (upload_calls k p) = mset (started wk (up_units (st_world s))) \<and>
         mset (notify_calls k p) = mset (stored_at k p)) \<and>
      workInFlight (po_metrics p) = base"
    if e: "all_ended p"
  proof -
    from e ths obtain th where "th \<in> set (po_threads p)" "th_phase th = Ended"
      by (cases "po_threads p") (auto simp: all_ended_def)
    with po have cl: "chan_closed (po_next p)" "chan_buf (po_next p) = []"
      by (auto simp: pool_inv_def threads_ok_def)
    have idle: "\<forall>th \<in> set (po_threads p). th_job th = None"
      using e po by (auto simp: all_ended_def pool_inv_def threads_ok_def)
    then have zero: "(\<Sum>th\<leftarrow>po_threads p. pending k th) = {#}" "(\<Sum>th\<leftarrow>po_threads p. busy th) = 0"
      "(\<Sum>th\<leftarrow>po_threads p. unsent k th) = {#}" for k
      by (simp_all add: sum_list_zero busy_def)
    have "st_phase s = Finished" using uploader_units_of_inv[OF up] cl(1) syn(1) by simp
    moreover from this have "st_accepted s = st_handled s"
      using fu.up.finished_handled_all[OF up] by simp
    ultimately show ?thesis
      using po zero units cl(2) uploader_units_of_inv[OF up] ann by (simp add: pool_inv_def)
  qed
  have "mset (notify_calls k p) \<subseteq># mset (stored_at k p)" for k
    using ann[of k] by (metis mset_subset_eq_add_left)
  with uploader_units_of_inv[OF up] sub fin show ?thesis by blast
qed

lemma pipe_started:
  assumes "NewUploader workers cap = Ret u" and "new_up_world n q = Ret w" and "0 < n"
    and "pather_ok q" and "length es = length (wk_destinations wk)" and "0 < threads"
    and "pipe_reach wk (pipe_start u w threads es m) (s, p)"
  shows "pipe_inv wk (workInFlight m) (s, p) \<and> po_threads p \<noteq> []"
  using pipe_inv_reach[OF assms(7) pipe_inv_start[OF assms(1-5)]] pipe_reach_threads[OF assms(7)] assms(6)
  by (auto simp: pipe_start_def pool_start_def)

lemma upload_shutdown_of_inv:
  assumes inv: "pipe_inv wk base (s, p)" and ths: "po_threads p \<noteq> []" and run: "st_phase s = Running"
  shows "\<exists>s' p'. pipe_reach wk (s, p) (s', p') \<and> st_phase s' = Finished \<and> all_ended p' \<and>
    st_accepted s' = st_accepted s \<and>
    map wu_Data (up_units (st_world s')) = st_accepted s \<and>
    (\<forall>k < length (wk_destinations wk).
       mset (upload_calls k p') = mset (started wk (up_units (st_world s'))) \<and>
       mset (notify_calls k p') = mset (stored_at k p'))"
proof -
  have up: "fu.up.stage_inv s" using inv by (simp add: pipe_inv_def)
  obtain v where v: "stage_reach flow_uploader_ops s v" "st_phase v = Finished"
    "st_accepted v = st_accepted s"
    using fu.up.shutdown_reaches_finish_busy[OF up run] by (auto simp: flow_uploader_ops_def)
  obtain r where r: "pipe_reach wk (s, p) (v, r)" using pipe_simulates[OF v(1) inv ths] by blast
  have vi: "pipe_inv wk base (v, r)" using pipe_inv_reach[OF r inv] by simp
  then have syn: "in_step v r" "chan_closed (po_next r)"
    using uploader_units_of_inv[of v] v(2) by (auto simp: pipe_inv_def in_step_def)
  from pool_finishes[of "r\<lparr>po_cancelled := True\<rparr>" wk] syn(2) obtain p' where
    p': "pool_reach wk (r\<lparr>po_cancelled := True\<rparr>) p'" "all_ended p'" by auto
  define s' where
    "s' = v\<lparr>st_world := (st_world v)\<lparr>up_next := po_next p', up_received := po_taken p'\<rparr>\<rparr>"
  have acc: "st_accepted s' = st_accepted s" using v(3) by (simp add: s'_def)
  have "pipe_reach wk (v, r) (s', p')" unfolding s'_def
    by (rule pool_reach_pipe[OF pool_reach_trans[OF p'(1) pool_reach_step[OF pool_step.cancel]] syn(1)])
  with r have e: "pipe_reach wk (s, p) (s', p')" by (blast intro: pipe_reach_trans)
  have "pipe_inv wk base (s', p')" "po_threads p' \<noteq> []"
    using pipe_inv_reach[OF e inv] pipe_reach_threads[OF e] ths by auto
  from workers_of_inv[OF this] p'(2) e acc show ?thesis
    by (intro exI[of _ s'] exI[of _ p']) metis
qed

subsection \<open>Properties\<close>


text \<open>A worker with one storage that records what it is given, without compression.\<close>

definition sample_worker :: "(bytes list \<times> message_context list, string) worker" where
  "sample_worker =
     \<lparr>wk_destinations = [recording_destination True],
      wk_incomingWorkChan = \<lparr>chan_cap = 1, chan_buf = [], chan_closed = False\<rparr>, wk_flowName = ''a'',
      wk_compressionConf = \<lparr>cp_Level = [], cp_Type = [], cp_PreallocSlicePercentage = 2\<rparr>,
      wk_codecs = framed_codecs, wk_doneChan = None\<rparr>"

lemma started_sample: "started sample_worker us = us"
  by (induction us)
     (simp_all add: started_def List.map_filter_simps start_job_def sample_worker_def compress_none)

lemma sample_pipe_run:
  assumes "NewUploader 1 2 = Ret u" and "new_up_world 1 sample_fp = Ret w"
  shows "\<exists>s p. pipe_reach sample_worker (pipe_start u w 2 [([], [])] \<lparr>workInFlight = 0\<rparr>) (s, p) \<and>
    st_phase s = Running \<and> st_accepted s = [[1], [2]]"
proof -
  have start: "sample_uploader 2 = stage_start (startRun_uploader u) w"
    using assms sample_uploader_made by auto
  have "map_option (\<lambda>t. (st_phase t, st_accepted t))
      (stage_run flow_uploader_ops [Enq [1], Recv, Enq [2]] (sample_uploader 2)) =
    Some (Running, [[1], [2]])" by code_simp
  then obtain t where t: "stage_reach flow_uploader_ops (stage_start (startRun_uploader u) w) t"
    "st_phase t = Running" "st_accepted t = [[1], [2]]"
    by (auto simp del: stage_run.simps simp flip: start dest: stage_run_reach)
  have "pipe_inv sample_worker 0 (pipe_start u w 2 [([], [])] \<lparr>workInFlight = 0\<rparr>)"
    using pipe_inv_start[OF assms _ sample_fp_ok, of "[([], [])]" sample_worker "\<lparr>workInFlight = 0\<rparr>" 2]
    by (simp add: sample_worker_def)
  from pipe_simulates[OF t(1) this[unfolded pipe_start_def]] t(2,3) show ?thesis
    by (auto simp: pipe_start_def pool_start_def)
qed




end
