(* ===== verification/Flow_Wiring.thy ===== *)
theory Flow_Wiring
  imports App Upload_Pipeline
begin

text \<open>
  What \<open>createFlows\<close> and \<open>Start\<close> of pkg/app/app.go make: how the parts of a flow are connected, for
  which accepted configurations they can be made at all, and in which order they are stopped.
\<close>

subsection \<open>The loops of the construction\<close>

lemma go_foreach_same:
  "go_foreach (\<lambda>i ws. go_bind m (\<lambda>x. Ret (ws @ [x]))) is acc =
     (if is = [] then Ret acc else go_bind m (\<lambda>x. Ret (acc @ replicate (length is) x)))"
proof (induction "is" arbitrary: acc)
  case (Cons i "is")
  then show ?case by (cases m) auto
qed simp

lemma createWorkers_all:
  "createWorkers env c ss qs ch =
     (if fl_MaxConcurrentUploads c \<le> 0 then Ret []
      else go_bind (NewWorker (fl_Name c) (map (storage_upload (ae_storage env)) ss)
             (map (queue_notify (ae_queue env)) qs) ch (fl_Compression c) (ae_codecs env))
        (\<lambda>wk. Ret (replicate (nat (fl_MaxConcurrentUploads c)) wk)))"
  by (simp add: createWorkers_def go_foreach_same)

lemma go_foreach_snoc_length:
  "go_foreach (\<lambda>x acc. go_bind (f x) (\<lambda>r. case r of Inl err \<Rightarrow> Panic msg | Inr y \<Rightarrow> Ret (acc @ [y]))) xs acc =
     Ret ys \<Longrightarrow> length ys = length acc + length xs"
proof (induction xs arbitrary: acc)
  case (Cons x xs)
  then show ?case by (cases "f x") (fastforce split: sum.splits)+
qed simp

lemma createObjStorages_length:
  "createObjStorages env n cs = Ret ss \<Longrightarrow> length ss = length cs"
  unfolding createObjStorages_def by (drule go_foreach_snoc_length) simp

lemma createExternalQueues_length:
  "createExternalQueues env n cs = Ret qs \<Longrightarrow> length qs = length cs"
  unfolding createExternalQueues_def by (drule go_foreach_snoc_length) simp

subsection \<open>The parts of one flow\<close>

text \<open>The accumulator that a configuration with the size \<open>n\<close> asks for.\<close>

definition accumulator_made :: "accumulator_config \<Rightarrow> int \<Rightarrow> accumulator \<Rightarrow> bool" where
  "accumulator_made c n acc =
     (case acc of
        BySize a \<Rightarrow> \<not> HasForceFlushPeriod c \<and>
          NewAccumulatorBySize n (string_bytes (ac_Separator c)) (ac_QueueCapacity c) = Ret a
      | ByTimeAndSize a \<Rightarrow> HasForceFlushPeriod c \<and>
          NewAccumulatorByTimeAndSize n (string_bytes (ac_Separator c)) (ac_QueueCapacity c)
            (forceFlushDuration (ac_ForceFlushAfterSeconds c)) = Ret a)"

lemma go_map_Ret_iff [go_ret_iff]: "go_map f m = Ret y \<longleftrightarrow> (\<exists>x. m = Ret x \<and> y = f x)"
  by (cases m) auto

lemma createAccumulator_made:
  "createAccumulator name c = Ret (acc, b) \<longleftrightarrow>
     (\<exists>n. acc_SizeAsBytes c = Inr n \<and> accumulator_made c n acc) \<and> b = createCircuitBreaker name (ac_CircuitBreaker c)"
  by (auto simp: createAccumulator_def accumulator_From_def accumulator_made_def go_ret_iff Let_def
      split: sum.splits if_splits accumulator.splits)

lemma accumulator_made_exists:
  "(\<exists>acc. accumulator_made c n acc) \<longleftrightarrow>
     1 < n \<and> int (length (ac_Separator c)) < n \<and> MinQueueCapacity \<le> ac_QueueCapacity c"
proof
  assume "\<exists>acc. accumulator_made c n acc"
  then obtain acc where "accumulator_made c n acc" ..
  then show "1 < n \<and> int (length (ac_Separator c)) < n \<and> MinQueueCapacity \<le> ac_QueueCapacity c"
    by (cases acc) (auto simp: accumulator_made_def NewAccumulatorBySize_def
      NewAccumulatorByTimeAndSize_def split: if_splits)
next
  assume ok: "1 < n \<and> int (length (ac_Separator c)) < n \<and> MinQueueCapacity \<le> ac_QueueCapacity c"
  then have size: "\<exists>a. NewAccumulatorBySize n (string_bytes (ac_Separator c)) (ac_QueueCapacity c) = Ret a"
    and time: "\<exists>a. NewAccumulatorByTimeAndSize n (string_bytes (ac_Separator c)) (ac_QueueCapacity c)
      (forceFlushDuration (ac_ForceFlushAfterSeconds c)) = Ret a"
    by (auto simp: NewAccumulatorBySize_def NewAccumulatorByTimeAndSize_def make_chan_def
        MinQueueCapacity_def)
  show "\<exists>acc. accumulator_made c n acc"
  proof (cases "HasForceFlushPeriod c")
    case True
    from time obtain a where "NewAccumulatorByTimeAndSize n (string_bytes (ac_Separator c))
        (ac_QueueCapacity c) (forceFlushDuration (ac_ForceFlushAfterSeconds c)) = Ret a" by blast
    with True show ?thesis by (intro exI[of _ "ByTimeAndSize a"]) (simp add: accumulator_made_def)
  next
    case False
    from size obtain a where
      "NewAccumulatorBySize n (string_bytes (ac_Separator c)) (ac_QueueCapacity c) = Ret a" by blast
    with False show ?thesis by (intro exI[of _ "BySize a"]) (simp add: accumulator_made_def)
  qed
qed

lemma NewFilePather_returns_iff: "go_returns (NewFilePather n ext e) \<longleftrightarrow> 0 < n"
  by (auto simp: NewFilePather_def Let_def split: prod.split)

lemma createWorkers_returns_iff:
  "go_returns (createWorkers env c ss qs ch) \<longleftrightarrow>
     fl_MaxConcurrentUploads c \<le> 0 \<or> length ss = length qs"
  by (auto simp: createWorkers_all NewWorker_def)

text \<open>\<open>createFlow\<close> returns exactly when each of its parts does.\<close>

lemma go_returns_bind: "go_returns (go_bind m f) \<longleftrightarrow> (\<exists>x. m = Ret x \<and> go_returns (f x))"
  by (cases m) auto

lemma createFlow_returns_iff:
  assumes "0 < fl_MaxConcurrentUploads c"
  shows "go_returns (createFlow env c e) \<longleftrightarrow>
     go_returns (createExternalQueues env (fl_Name c) (fl_ExternalQueues c)) \<and>
     go_returns (createObjStorages env (fl_Name c) (fl_ObjectStorages c)) \<and>
     length (fl_ObjectStorages c) = length (fl_ExternalQueues c) \<and>
     0 < fl_PathPrefixCount c \<and> 0 \<le> fl_QueueMaxSize c \<and>
     (\<exists>i. InitialBufferSizeAsBytes (ig_Decompression (fl_Ingestion c)) = Inr i) \<and>
     (\<exists>n. acc_SizeAsBytes (fl_Accumulator c) = Inr n \<and>
        (n \<le> 0 \<or> (1 < n \<and> int (length (ac_Separator (fl_Accumulator c))) < n \<and>
                   MinQueueCapacity \<le> ac_QueueCapacity (fl_Accumulator c))))"
proof -
  let ?a = "fl_Accumulator c" and ?d = "ig_Decompression (fl_Ingestion c)"
  have chan: "make_chan (fl_MaxConcurrentUploads c) =
      Ret \<lparr>chan_cap = nat (fl_MaxConcurrentUploads c), chan_buf = [], chan_closed = False\<rparr>"
    using assms by (simp add: make_chan_def)
  have fp: "(\<exists>x. NewFilePather n ext e = Ret x) \<longleftrightarrow> 0 < n" for n ext
    using NewFilePather_returns_iff[of n ext e] by (simp add: go_returns_iff)
  have up: "(\<exists>u. NewUploader m q = Ret u) \<longleftrightarrow> 0 \<le> q" for m q
    by (auto simp: NewUploader_def go_ret_iff make_chan_def)
  have acc: "(\<exists>x. createAccumulator (fl_Name c) ?a = Ret x) \<longleftrightarrow>
      (\<exists>n. acc_SizeAsBytes ?a = Inr n \<and> 1 < n \<and> int (length (ac_Separator ?a)) < n \<and>
        MinQueueCapacity \<le> ac_QueueCapacity ?a)"
    using accumulator_made_exists[of ?a] by (auto simp: createAccumulator_made)
  have wk: "(\<exists>ws. createWorkers env c ss qs ch = Ret ws) \<longleftrightarrow> length ss = length qs" for ss qs ch
    using createWorkers_returns_iff[of env c ss qs ch] assms by (simp add: go_returns_iff)
  show ?thesis
  proof (cases "\<exists>qs ss. createExternalQueues env (fl_Name c) (fl_ExternalQueues c) = Ret qs \<and>
      createObjStorages env (fl_Name c) (fl_ObjectStorages c) = Ret ss")
    case False
    then show ?thesis by (auto simp: createFlow_def go_returns_bind go_returns_iff go_ret_iff)
  next
    case True
    then obtain qs ss where qs: "createExternalQueues env (fl_Name c) (fl_ExternalQueues c) = Ret qs"
      and ss: "createObjStorages env (fl_Name c) (fl_ObjectStorages c) = Ret ss" by blast
    note len = createExternalQueues_length[OF qs] createObjStorages_length[OF ss]
    show ?thesis
    proof (cases "0 < fl_PathPrefixCount c")
      case False
      with qs ss show ?thesis by (simp add: createFlow_def chan NewFilePather_def)
    next
      case True
      then obtain pp e' where
        pp: "NewFilePather (fl_PathPrefixCount c) (cp_Type (fl_Compression c)) e = Ret (pp, e')"
        using fp by (metis surj_pair)
      show ?thesis
      proof (cases "0 \<le> fl_QueueMaxSize c")
        case False
        with qs ss pp assms show ?thesis by (simp add: createFlow_def NewUploader_def make_chan_def)
      next
        case True
        then obtain u where u: "NewUploader (fl_MaxConcurrentUploads c) (fl_QueueMaxSize c) = Ret u"
          using up by blast
        from \<open>0 < fl_PathPrefixCount c\<close> True len show ?thesis
          using acc wk
          by (cases "InitialBufferSizeAsBytes ?d"; cases "acc_SizeAsBytes ?a")
             (auto simp: createFlow_def qs ss chan pp u go_returns_bind go_ret_iff Let_def)
      qed
    qed
  qed
qed

subsection \<open>What a flow is made of\<close>

definition flow_connected ::
  "('y, 'e, 'q, 'w) app_env \<Rightarrow> 'y flow_config \<Rightarrow> ('e, 'q, 'w) flow \<Rightarrow> bool" where
  "flow_connected env c f \<longleftrightarrow>
     (let wk = hd (fw_UploadWorkers f) in
      fw_Name f = fl_Name c \<and>
      NewUploader (fl_MaxConcurrentUploads c) (fl_QueueMaxSize c) = Ret (fw_Uploader f) \<and>
      new_up_world (fl_MaxConcurrentUploads c) (up_filePathProvider (fw_world f)) = Ret (fw_world f) \<and>
      fw_UploadWorkers f = replicate (nat (fl_MaxConcurrentUploads c)) wk \<and>
      wk_incomingWorkChan wk = up_next (fw_world f) \<and> wk_compressionConf wk = fl_Compression c \<and>
      wk_codecs wk = ae_codecs env \<and>
      length (wk_destinations wk) = length (fl_ObjectStorages c) \<and>
      map ds_Upload (wk_destinations wk) = map (storage_upload (ae_storage env)) (fw_ObjStorages f) \<and>
      map ds_Enqueue (wk_destinations wk) = map (queue_notify (ae_queue env)) (fw_ExternalQueues f) \<and>
      (case fw_Accumulator f of
         None \<Rightarrow> (\<exists>n \<le> 0. acc_SizeAsBytes (fl_Accumulator c) = Inr n)
       | Some (acc, b) \<Rightarrow>
           (\<exists>n > 0. acc_SizeAsBytes (fl_Accumulator c) = Inr n \<and>
              accumulator_made (fl_Accumulator c) n acc) \<and>
           b = createCircuitBreaker (fl_Name c) (ac_CircuitBreaker (fl_Accumulator c))))"

lemma createFlow_parts:
  assumes "createFlow env c e = Ret (f, e')"
  obtains qs ss ch pather u i n acc ws where
    "createExternalQueues env (fl_Name c) (fl_ExternalQueues c) = Ret qs"
    "createObjStorages env (fl_Name c) (fl_ObjectStorages c) = Ret ss"
    "make_chan (fl_MaxConcurrentUploads c) = Ret ch"
    "NewFilePather (fl_PathPrefixCount c) (cp_Type (fl_Compression c)) e = Ret (pather, e')"
    "NewUploader (fl_MaxConcurrentUploads c) (fl_QueueMaxSize c) = Ret u"
    "InitialBufferSizeAsBytes (ig_Decompression (fl_Ingestion c)) = Inr i"
    "acc_SizeAsBytes (fl_Accumulator c) = Inr n"
    "(if 0 < n then go_map Some (createAccumulator (fl_Name c) (fl_Accumulator c)) else Ret None) = Ret acc"
    "createWorkers env c ss qs ch = Ret ws"
    "fw_Name f = fl_Name c" "fw_ObjStorages f = ss" "fw_ExternalQueues f = qs" "fw_Uploader f = u"
    "fw_world f = \<lparr>up_next = ch, up_filePathProvider = (pather, e'), up_received = []\<rparr>"
    "fw_Accumulator f = acc" "fw_UploadWorkers f = ws"
    "flow_ingest f = \<lparr>if_Name = fl_Name c, if_Token = ig_Token (fl_Ingestion c),
       if_DecompressionAlgorithms = dc_ActiveDecompressions (ig_Decompression (fl_Ingestion c)),
       if_DecompressionMaxConcurrency = dc_MaxConcurrency (ig_Decompression (fl_Ingestion c)),
       if_DecompressionInitialBufferSizeBytes = i\<rparr>"
proof -
  obtain qs ss ch where a: "createExternalQueues env (fl_Name c) (fl_ExternalQueues c) = Ret qs"
    "createObjStorages env (fl_Name c) (fl_ObjectStorages c) = Ret ss"
    "make_chan (fl_MaxConcurrentUploads c) = (Ret ch :: work_unit gochan go)"
    using assms by (auto simp: createFlow_def go_ret_iff)
  obtain pather e1 u where b: "NewFilePather (fl_PathPrefixCount c) (cp_Type (fl_Compression c)) e = Ret (pather, e1)"
    "NewUploader (fl_MaxConcurrentUploads c) (fl_QueueMaxSize c) = Ret u"
    using assms by (auto simp: createFlow_def a go_bind_Ret_iff)
  obtain i n where d: "InitialBufferSizeAsBytes (ig_Decompression (fl_Ingestion c)) = Inr i"
    "acc_SizeAsBytes (fl_Accumulator c) = Inr n"
    using assms by (auto simp: createFlow_def a b split: sum.splits)
  obtain acc ws where
    x: "(if 0 < n then go_map Some (createAccumulator (fl_Name c) (fl_Accumulator c)) else Ret None) = Ret acc"
      "createWorkers env c ss qs ch = Ret ws" and e1: "e1 = e'"
    and f: "fw_Name f = fl_Name c" "fw_ObjStorages f = ss" "fw_ExternalQueues f = qs" "fw_Uploader f = u"
      "fw_world f = \<lparr>up_next = ch, up_filePathProvider = (pather, e'), up_received = []\<rparr>"
      "fw_Accumulator f = acc" "fw_UploadWorkers f = ws"
      "flow_ingest f = \<lparr>if_Name = fl_Name c, if_Token = ig_Token (fl_Ingestion c),
         if_DecompressionAlgorithms = dc_ActiveDecompressions (ig_Decompression (fl_Ingestion c)),
         if_DecompressionMaxConcurrency = dc_MaxConcurrency (ig_Decompression (fl_Ingestion c)),
         if_DecompressionInitialBufferSizeBytes = i\<rparr>"
    using assms by (auto simp: createFlow_def a b d go_bind_Ret_iff flow_ingest_def Let_def)
  from that[OF a b(1)[unfolded e1] b(2) d x f] show thesis .
qed

lemma createFlow_connected:
  assumes "createFlow env c e = Ret (f, e')" and "0 < fl_MaxConcurrentUploads c"
  shows "flow_connected env c f"
proof -
  have wk: "\<exists>wk. ws = replicate (nat (fl_MaxConcurrentUploads c)) wk \<and> wk_incomingWorkChan wk = ch \<and>
      wk_compressionConf wk = fl_Compression c \<and> wk_codecs wk = ae_codecs env \<and>
      length (wk_destinations wk) = length ss \<and>
      map ds_Upload (wk_destinations wk) = map (storage_upload (ae_storage env)) ss \<and>
      map ds_Enqueue (wk_destinations wk) = map (queue_notify (ae_queue env)) qs"
    if "createWorkers env c ss qs ch = Ret ws" for ss qs ch ws
    using that assms(2) by (auto simp: createWorkers_all go_ret_iff NewWorker_def comp_def case_prod_beta
        split: if_splits)
  from createFlow_parts[OF assms(1)] show ?thesis
  proof cases
    case (1 qs ss ch pather u i n acc ws)
    from wk[OF 1(9)] obtain w where w: "ws = replicate (nat (fl_MaxConcurrentUploads c)) w"
      "wk_incomingWorkChan w = ch" "wk_compressionConf w = fl_Compression c"
      "wk_codecs w = ae_codecs env" "length (wk_destinations w) = length ss"
      "map ds_Upload (wk_destinations w) = map (storage_upload (ae_storage env)) ss"
      "map ds_Enqueue (wk_destinations w) = map (queue_notify (ae_queue env)) qs" by blast
    have "hd ws = w" using w(1) assms(2) by (cases "nat (fl_MaxConcurrentUploads c)") auto
    moreover have "case acc of None \<Rightarrow> n \<le> 0 | Some (a, b) \<Rightarrow> 0 < n \<and> accumulator_made (fl_Accumulator c) n a \<and>
        b = createCircuitBreaker (fl_Name c) (ac_CircuitBreaker (fl_Accumulator c))"
      using 1(7,8) by (auto simp: go_map_Ret_iff createAccumulator_made split: if_splits)
    ultimately show ?thesis
      using 1 w createObjStorages_length[OF 1(2)]
      by (auto simp: flow_connected_def Let_def new_up_world_def split: option.splits)
  qed
qed

lemma createFlow_provider:
  assumes "createFlow env c e = Ret (f, e')" and "intn_in_range e"
  shows "intn_in_range e' \<and> pather_ok (up_filePathProvider (fw_world f))"
  using createFlow_parts[OF assms(1)]
proof cases
  case (1 qs ss ch pather u i n acc ws)
  from NewFilePather_ok[OF 1(4) assms(2)] have "pather_ok (pather, e')" by simp
  then have "intn_in_range e'" by (cases pather) auto
  with \<open>pather_ok (pather, e')\<close> 1 show ?thesis by simp
qed

subsection \<open>All flows\<close>

definition flow_creatable :: "('y, 'e, 'q, 'w) app_env \<Rightarrow> 'y flow_config \<Rightarrow> bool" where
  "flow_creatable env c \<longleftrightarrow>
     go_returns (createExternalQueues env (fl_Name c) (fl_ExternalQueues c)) \<and>
     go_returns (createObjStorages env (fl_Name c) (fl_ObjectStorages c)) \<and>
     length (fl_ObjectStorages c) = length (fl_ExternalQueues c) \<and> 0 \<le> fl_QueueMaxSize c \<and>
     (\<exists>i. InitialBufferSizeAsBytes (ig_Decompression (fl_Ingestion c)) = Inr i) \<and>
     (\<exists>n. acc_SizeAsBytes (fl_Accumulator c) = Inr n \<and>
        (n \<le> 0 \<or> (1 < n \<and> int (length (ac_Separator (fl_Accumulator c))) < n \<and>
                   MinQueueCapacity \<le> ac_QueueCapacity (fl_Accumulator c))))"

abbreviation "create_step env \<equiv> \<lambda>conf (flows, e). go_bind (createFlow env conf e) (\<lambda>(f, e). Ret (flows @ [f], e))"

lemma create_steps_return:
  assumes "\<forall>c \<in> set confs. 0 < fl_MaxConcurrentUploads c \<and> 0 < fl_PathPrefixCount c"
  shows "go_returns (go_foreach (create_step env) confs (fs, e)) \<longleftrightarrow> (\<forall>c \<in> set confs. flow_creatable env c)"
  using assms
proof (induction confs arbitrary: fs e)
  case (Cons c confs)
  then have iff: "go_returns (createFlow env c e) \<longleftrightarrow> flow_creatable env c"
    by (simp add: createFlow_returns_iff flow_creatable_def)
  show ?case
  proof (cases "flow_creatable env c")
    case True
    with iff obtain f e' where "createFlow env c e = Ret (f, e')" by (auto simp: go_returns_iff)
    with True Cons show ?thesis by simp
  next
    case False
    with iff have "\<not> go_returns (createFlow env c e)" by simp
    with False show ?thesis by (cases "createFlow env c e") simp_all
  qed
qed simp

lemma create_steps_all:
  assumes "\<forall>c \<in> set confs. 0 < fl_MaxConcurrentUploads c" and "intn_in_range e"
    and "go_foreach (create_step env) confs (fs, e) = Ret (flows, e')"
  shows "\<exists>new. flows = fs @ new \<and>
    list_all2 (\<lambda>c f. flow_connected env c f \<and> pather_ok (up_filePathProvider (fw_world f)) \<and>
      if_DecompressionMaxConcurrency (flow_ingest f) =
        dc_MaxConcurrency (ig_Decompression (fl_Ingestion c)) \<and>
      if_Token (flow_ingest f) = ig_Token (fl_Ingestion c)) confs new"
  using assms
proof (induction confs arbitrary: fs e)
  case (Cons c confs)
  then obtain f e1 where f: "createFlow env c e = Ret (f, e1)"
    "go_foreach (create_step env) confs (fs @ [f], e1) = Ret (flows, e')"
    by (auto simp: go_ret_iff)
  note p = createFlow_provider[OF f(1) Cons.prems(2)]
  from Cons.IH[OF _ _ f(2)] p Cons.prems(1) obtain new where
    n: "flows = (fs @ [f]) @ new" "list_all2 (\<lambda>c f. flow_connected env c f \<and>
      pather_ok (up_filePathProvider (fw_world f)) \<and>
      if_DecompressionMaxConcurrency (flow_ingest f) =
        dc_MaxConcurrency (ig_Decompression (fl_Ingestion c)) \<and>
      if_Token (flow_ingest f) = ig_Token (fl_Ingestion c)) confs new" by auto
  have "if_DecompressionMaxConcurrency (flow_ingest f) =
        dc_MaxConcurrency (ig_Decompression (fl_Ingestion c)) \<and>
      if_Token (flow_ingest f) = ig_Token (fl_Ingestion c)"
    by (rule createFlow_parts[OF f(1)]) simp
  with n p createFlow_connected[OF f(1)] Cons.prems(1) show ?case
    by (intro exI[of _ "f # new"]) simp
qed simp

text \<open>The API can be made when every semaphore can.\<close>

lemma flowRoutes_returns_iff:
  "go_returns (flowRoutes version flw) \<longleftrightarrow> 0 \<le> if_DecompressionMaxConcurrency flw"
  by (simp add: flowRoutes_def newIngestionRoute_def newSemaphor_cases Let_def)

lemma foreach_routes_return:
  "go_returns (go_foreach (\<lambda>x acc. go_bind (g x) (\<lambda>rs. Ret (acc @ rs))) xs acc) \<longleftrightarrow>
     (\<forall>x \<in> set xs. go_returns (g x))"
proof (induction xs arbitrary: acc)
  case (Cons x xs)
  then show ?case by (cases "g x") simp_all
qed simp

lemma RegisterIngestingRoutes_returns_iff:
  "go_returns (RegisterIngestingRoutes version flws) \<longleftrightarrow>
     (\<forall>flw \<in> set flws. 0 \<le> if_DecompressionMaxConcurrency flw)"
  by (simp add: RegisterIngestingRoutes_def foreach_routes_return flowRoutes_returns_iff)

text \<open>What an accepted configuration guarantees of what the construction uses.\<close>

lemma Config_New_flows:
  assumes "Config_New unmarshal confData = Inr c"
  shows "(\<forall>f \<in> set (co_Flows c). 0 < fl_MaxConcurrentUploads f \<and> 0 < fl_PathPrefixCount f \<and> fl_Name f \<noteq> []) \<and>
    distinct (map fl_Name (co_Flows c)) \<and> co_Flows c \<noteq> [] \<and>
    (\<exists>n. PayloadSizeLimitInBytes (co_API c) = Inr n)"
proof -
  from assms obtain r where c: "c = config_fillDefaultValues r" and
    v: "config_validate (config_fillDefaultValues r) = None"
    by (auto simp: Config_New_def Let_def split: sum.splits option.splits)
  from v have "co_Flows r \<noteq> []" "distinct (map fl_Name (co_Flows r))"
    "\<forall>f \<in> set (co_Flows r). raw_flow_ok f"
    "api_PayloadSizeLimit (co_API r) = [] \<or> (\<exists>n. ToBytes (api_PayloadSizeLimit (co_API r)) = Inr n)"
    unfolding config_valid_filled by blast+
  moreover have "api_PayloadSizeLimit (co_API c) = api_PayloadSizeLimit (co_API r)"
    by (simp add: c config_fillDefaultValues_def api_fillDefaults_def)
  moreover have "ToBytes [] = Inr 0" by (simp add: ToBytes_def)
  ultimately have "\<exists>n. PayloadSizeLimitInBytes (co_API c) = Inr n"
    by (auto simp: PayloadSizeLimitInBytes_def)
  with \<open>co_Flows r \<noteq> []\<close> \<open>distinct (map fl_Name (co_Flows r))\<close> \<open>\<forall>f \<in> set (co_Flows r). raw_flow_ok f\<close>
  show ?thesis
    by (auto simp: c config_fillDefaultValues_def raw_flow_ok_def comp_def)
qed

subsection \<open>The run group\<close>

definition flow_actors :: "('e, 'q, 'w) flow \<Rightarrow> actor list" where
  "flow_actors f = addFlowActorToRunGroup f []"

lemma addFlowActors: "fold addFlowActorToRunGroup fs g = g @ concat (map flow_actors fs)"
  by (induction fs arbitrary: g) (simp_all add: flow_actors_def addFlowActorToRunGroup_def)

text \<open>\<open>x\<close> is interrupted, and waited for, before \<open>y\<close> is interrupted.\<close>

definition stopped_before :: "actor list \<Rightarrow> actor \<Rightarrow> actor \<Rightarrow> bool" where
  "stopped_before g x y \<longleftrightarrow> (\<exists>as bs cs. g = as @ x # bs @ y # cs)"

lemma stopped_before_append:
  "stopped_before g x y \<Longrightarrow> stopped_before (as @ g @ bs) x y"
  unfolding stopped_before_def by (metis append.assoc append_Cons)

lemma stopped_before_mem: "y \<in> set g \<Longrightarrow> stopped_before (x # g) x y"
  unfolding stopped_before_def by (metis append_Nil split_list)

lemma flow_actors_order:
  "(fw_Accumulator f \<noteq> None \<longrightarrow>
     stopped_before (flow_actors f) (AccumulatorActor (fw_Name f)) (UploaderActor (fw_Name f))) \<and>
   (\<forall>i < length (fw_UploadWorkers f).
     stopped_before (flow_actors f) (UploaderActor (fw_Name f)) (WorkerActor (fw_Name f) i))"
proof -
  let ?ws = "map (WorkerActor (fw_Name f)) [0..<length (fw_UploadWorkers f)]"
    and ?A = "AccumulatorActor (fw_Name f)" and ?U = "UploaderActor (fw_Name f)"
  have actors: "flow_actors f = (if fw_Accumulator f \<noteq> None then [?A] else []) @ ?U # ?ws"
    by (simp add: flow_actors_def addFlowActorToRunGroup_def)
  have "stopped_before (?A # ?U # ?ws) ?A ?U" by (rule stopped_before_mem) simp
  moreover have "stopped_before (as @ ?U # ?ws) ?U (WorkerActor (fw_Name f) i)"
    if "i < length (fw_UploadWorkers f)" for i as
    using stopped_before_append[OF stopped_before_mem[of "WorkerActor (fw_Name f) i" ?ws ?U],
        of as "[]"] that by simp
  ultimately show ?thesis by (simp add: actors)
qed

fun actor_flow :: "actor \<Rightarrow> string option" where
  "actor_flow (AccumulatorActor n) = Some n"
| "actor_flow (UploaderActor n) = Some n"
| "actor_flow (WorkerActor n i) = Some n"
| "actor_flow _ = None"

lemma flow_actors_distinct:
  "distinct (flow_actors f) \<and> (\<forall>x \<in> set (flow_actors f). actor_flow x = Some (fw_Name f))"
  by (auto simp: flow_actors_def addFlowActorToRunGroup_def distinct_map inj_on_def)

lemma distinct_actors:
  assumes "distinct (map fw_Name fs)"
  shows "distinct ([SignalActor] @ ApiActor # concat (map flow_actors fs))"
proof -
  have "distinct (concat (map flow_actors fs))" using assms
  proof (induction fs)
    case (Cons f fs)
    have "x \<notin> set (concat (map flow_actors fs))" if x: "x \<in> set (flow_actors f)" for x
    proof
      assume "x \<in> set (concat (map flow_actors fs))"
      then obtain f' where "f' \<in> set fs" "x \<in> set (flow_actors f')" by auto
      with flow_actors_distinct[of f] flow_actors_distinct[of f'] x have "fw_Name f = fw_Name f'" by auto
      with \<open>f' \<in> set fs\<close> Cons.prems show False by auto
    qed
    then have "set (flow_actors f) \<inter> set (concat (map flow_actors fs)) = {}" by blast
    with Cons flow_actors_distinct[of f] show ?case by simp
  qed simp
  moreover have "actor_flow x \<noteq> None" if "x \<in> set (concat (map flow_actors fs))" for x
  proof -
    from that obtain f' where "f' \<in> set fs" "x \<in> set (flow_actors f')" by auto
    with flow_actors_distinct[of f'] show ?thesis by simp
  qed
  then have "SignalActor \<notin> set (concat (map flow_actors fs))" "ApiActor \<notin> set (concat (map flow_actors fs))"
    by force+
  ultimately show ?thesis by simp
qed

lemma app_Start_parts:
  assumes "app_Start env c e = Ret (flows, a, g)"
  obtains e' where "createFlows env (co_Flows c) e = Ret (flows, e')"
    "NewAPI c (co_Version c) (map flow_ingest flows) = Ret a"
    "g = SignalActor # ApiActor # concat (map flow_actors flows)"
  using assms by (auto simp: app_Start_def go_ret_iff addFlowActors)

lemma ball_set_map:
  "map f xs = map g ys \<Longrightarrow> (\<forall>x \<in> set xs. P (f x)) \<longleftrightarrow> (\<forall>y \<in> set ys. P (g y))"
proof -
  assume m: "map f xs = map g ys"
  have "(\<forall>v \<in> set (map f xs). P v) \<longleftrightarrow> (\<forall>v \<in> set (map g ys). P v)" by (simp only: m)
  then show ?thesis by simp
qed

lemma createFlows_all:
  assumes "Config_New unmarshal confData = Inr c" and "createFlows env (co_Flows c) e = Ret (flows, e')"
    and "intn_in_range e"
  shows "list_all2 (\<lambda>c f. flow_connected env c f \<and> pather_ok (up_filePathProvider (fw_world f)) \<and>
      if_DecompressionMaxConcurrency (flow_ingest f) =
        dc_MaxConcurrency (ig_Decompression (fl_Ingestion c)) \<and>
      if_Token (flow_ingest f) = ig_Token (fl_Ingestion c)) (co_Flows c) flows"
  using create_steps_all[of "co_Flows c" e env "[]" flows e'] Config_New_flows[OF assms(1)] assms(2,3)
  by (auto simp: createFlows_def)

subsection \<open>The construction never blocks\<close>

lemma go_bind_Block_iff: "go_bind m f = Block \<longleftrightarrow> m = Block \<or> (\<exists>x. m = Ret x \<and> f x = Block)"
  by (cases m) auto

lemma go_foreach_not_Block: "(\<And>x s. f x s \<noteq> Block) \<Longrightarrow> go_foreach f xs s \<noteq> Block"
  by (induction xs arbitrary: s) (auto simp: go_bind_Block_iff)

lemma adapters_not_Block:
  "objstorage_New ps env fs n conf \<noteq> Block" "extqueue_New qps qenv n qconf \<noteq> Block"
  by (auto simp: objstorage_New_def extqueue_New_def NewStorageWithMetrics_def
      NewExternalQueueWithMetrics_def Let_def go_bind_Block_iff
      split: sum.splits option.splits prod.splits)

lemma createExternalQueues_not_Block: "createExternalQueues env n qs \<noteq> Block"
  unfolding createExternalQueues_def
  by (rule go_foreach_not_Block) (auto simp: go_bind_Block_iff adapters_not_Block split: sum.splits)

lemma createObjStorages_not_Block: "createObjStorages env n ss \<noteq> Block"
  unfolding createObjStorages_def
  by (rule go_foreach_not_Block) (auto simp: go_bind_Block_iff adapters_not_Block split: sum.splits)

lemmas adapter_loops_not_Block = createExternalQueues_not_Block createObjStorages_not_Block

lemma createFlow_not_Block: "createFlow env c e \<noteq> Block"
proof -
  have b: "NewFilePather k ext e \<noteq> Block" "NewUploader m q \<noteq> Block" "make_chan m \<noteq> Block" for k ext m q
    by (auto simp: NewFilePather_def NewUploader_def make_chan_def Let_def split: prod.splits)
  have d: "createAccumulator n ac \<noteq> Block" for n ac
    by (auto simp: createAccumulator_def accumulator_From_def NewAccumulatorBySize_def
        NewAccumulatorByTimeAndSize_def make_chan_def Let_def split: sum.splits)
  have w: "createWorkers env c ss qs ch \<noteq> Block" for ss qs ch
    by (auto simp: createWorkers_all NewWorker_def)
  show ?thesis unfolding createFlow_def
    by (auto simp: go_bind_Block_iff go_map_def adapter_loops_not_Block b d w Let_def
        split: sum.splits prod.splits if_splits)
qed

lemma app_Start_not_Block: "app_Start env c e \<noteq> Block"
proof -
  have "createFlows env confs e \<noteq> Block" for confs e
    unfolding createFlows_def
    by (rule go_foreach_not_Block) (auto simp: go_bind_Block_iff createFlow_not_Block split: prod.splits)
  moreover have "RegisterIngestingRoutes v flws \<noteq> Block" for v flws
    unfolding RegisterIngestingRoutes_def
    by (rule go_foreach_not_Block)
       (auto simp: go_bind_Block_iff flowRoutes_def newIngestionRoute_def newSemaphor_cases Let_def)
  ultimately show ?thesis
    by (auto simp: app_Start_def NewAPI_def go_bind_Block_iff split: sum.splits prod.splits)
qed

lemma app_Start_returns_iff:
  assumes "Config_New unmarshal confData = Inr c" and "intn_in_range e"
  shows "go_returns (app_Start env c e) \<longleftrightarrow>
    (\<forall>f \<in> set (co_Flows c). flow_creatable env f \<and>
       0 \<le> dc_MaxConcurrency (ig_Decompression (fl_Ingestion f)))"
proof -
  note ok = Config_New_flows[OF assms(1)]
  have iff: "go_returns (createFlows env (co_Flows c) e) \<longleftrightarrow> (\<forall>f \<in> set (co_Flows c). flow_creatable env f)"
    using create_steps_return[of "co_Flows c" env "[]" e] ok by (simp add: createFlows_def)
  show ?thesis
  proof (cases "go_returns (createFlows env (co_Flows c) e)")
    case False
    then have "\<not> go_returns (app_Start env c e)"
      by (cases "createFlows env (co_Flows c) e") (simp_all add: app_Start_def)
    with False iff show ?thesis by blast
  next
    case True
    then obtain flows e' where f: "createFlows env (co_Flows c) e = Ret (flows, e')"
      by (auto simp: go_returns_iff)
    have "map (\<lambda>f. if_DecompressionMaxConcurrency (flow_ingest f)) flows =
        map (\<lambda>f. dc_MaxConcurrency (ig_Decompression (fl_Ingestion f))) (co_Flows c)"
      using createFlows_all[OF assms(1) f assms(2)] by (induction rule: list_all2_induct) simp_all
    then have "(\<forall>f \<in> set flows. 0 \<le> if_DecompressionMaxConcurrency (flow_ingest f)) \<longleftrightarrow>
        (\<forall>f \<in> set (co_Flows c). 0 \<le> dc_MaxConcurrency (ig_Decompression (fl_Ingestion f)))"
      by (rule ball_set_map)
    moreover have "go_returns (app_Start env c e) \<longleftrightarrow>
        go_returns (RegisterIngestingRoutes apiVersion (map flow_ingest flows))"
      using ok by (cases "RegisterIngestingRoutes apiVersion (map flow_ingest flows)")
        (auto simp: app_Start_def f NewAPI_def)
    ultimately show ?thesis using iff True by (auto simp: RegisterIngestingRoutes_returns_iff)
  qed
qed

subsection \<open>Properties\<close>

text \<open>
  A configuration with one flow: an accumulator of 5 bytes with the separator NUL, one local storage
  and no queue to speak of, one upload at a time; and the world it starts in.
\<close>

definition sample_flow_config :: "int \<Rightarrow> unit flow_config" where
  "sample_flow_config queueMaxSize = \<lparr>fl_Name = ''flow_1'', fl_QueueMaxSize = queueMaxSize, fl_MaxConcurrentUploads = 1,
     fl_PathPrefixCount = 1,
     fl_Ingestion = \<lparr>ig_Token = ''secret'',
       ig_Decompression = \<lparr>dc_ActiveDecompressions = [], dc_MaxConcurrency = 0,
         dc_InitialBufferSize = ''512''\<rparr>,
       ig_CircuitBreaker = \<lparr>cb_Disable = True, cb_OpenInterval = 100\<rparr>\<rparr>,
     fl_Accumulator = \<lparr>ac_Size = ''5'', ac_Separator = [CHR 0x00], ac_QueueCapacity = 2,
       ac_CircuitBreaker = \<lparr>cb_Disable = True, cb_OpenInterval = 100\<rparr>,
       ac_ForceFlushAfterSeconds = 0\<rparr>,
     fl_ExternalQueues = [\<lparr>eq_Type = ''noop'', eq_Config = ()\<rparr>],
     fl_ObjectStorages = [\<lparr>os_Type = ''localstorage'', os_Config = ()\<rparr>],
     fl_Compression = \<lparr>cp_Level = [], cp_Type = [], cp_PreallocSlicePercentage = 2\<rparr>\<rparr>"

definition sample_config :: "int \<Rightarrow> unit config" where
  "sample_config queueMaxSize = \<lparr>co_O11y = \<lparr>oy_Tracing = \<lparr>tr_Enabled = False, tr_ServiceName = ''jiboia''\<rparr>,
       oy_Log = \<lparr>lg_Level = ''info'', lg_Format = ''json''\<rparr>, oy_Profiling = \<lparr>pr_Enabled = False\<rparr>,
       oy_ConfigDumpEnabled = False\<rparr>,
     co_Version = [], co_API = \<lparr>api_Port = 9199, api_PayloadSizeLimit = []\<rparr>,
     co_Flows = [sample_flow_config queueMaxSize], co_DisableMaxProcs = True\<rparr>"

definition sample_env :: "(unit, unit, unit, string) app_env" where
  "sample_env =
     \<lparr>ae_storage_parsers = \<lparr>sp_Marshal = (\<lambda>_. Inr []), sp_s3 = (\<lambda>_. Inl (Error ''no'')),
        sp_local = (\<lambda>_. Inr ''/data''), sp_http = (\<lambda>_. Inl (Error ''no''))\<rparr>,
      ae_queue_parsers = \<lparr>qp_Marshal = (\<lambda>_. Inr []), qp_sqs = (\<lambda>_. Inl (Error ''no'')),
        qp_http = (\<lambda>_. Inl (Error ''no''))\<rparr>,
      ae_storage = \<lparr>se_s3 = \<lparr>s3_LoadDefaultConfig = (\<lambda>_ _. None),
          s3_UploadObject = (\<lambda>e _ _ _ _. (e, Inr None))\<rparr>,
        se_http = \<lparr>hc_NewRequest = (\<lambda>_ _. None), hc_Do = (\<lambda>e _ _ _. (e, Inr 200))\<rparr>\<rparr>,
      ae_queue = \<lparr>qe_NewRequest = (\<lambda>_ _. None), qe_Do = (\<lambda>e _ _ _ _ _. (e, Inr 200)),
        qe_LoadDefaultConfig = (\<lambda>_ _. None), qe_SendMessage = (\<lambda>e _ _. (e, None))\<rparr>,
      ae_fs = empty_fs, ae_codecs = framed_codecs\<rparr>"

definition sample_fp_env :: fp_env where
  "sample_fp_env = \<lparr>fe_uuid = (\<lambda>n. ''id''), fe_uuids_drawn = 0, fe_intn = (\<lambda>k n. 0),
     fe_ints_drawn = 0, fe_now = \<lparr>dt_year = 2024, dt_month = 1, dt_day = 2, dt_hour = 3\<rparr>\<rparr>"

lemma sample_fp_env_ok: "intn_in_range sample_fp_env"
  by (simp add: intn_in_range_def sample_fp_env_def)

lemma sample_config_accepted: "Config_New (\<lambda>_. Inr (sample_config n)) [] = Inr (sample_config n)"
  by (simp add: Config_New_def sample_config_def sample_flow_config_def Let_def) code_simp

lemma sample_sizes:
  "InitialBufferSizeAsBytes (ig_Decompression (fl_Ingestion (sample_flow_config n))) = Inr 512"
  "acc_SizeAsBytes (fl_Accumulator (sample_flow_config n)) = Inr 5"
  by (simp_all add: InitialBufferSizeAsBytes_def acc_SizeAsBytes_def sample_flow_config_def
      ToBytes_digits is_digit_def dec_value_def digit_val_def)

lemma sample_creatable: "flow_creatable sample_env (sample_flow_config n) \<longleftrightarrow> 0 \<le> n"
proof -
  have "go_returns (createExternalQueues sample_env (fl_Name (sample_flow_config n))
      (fl_ExternalQueues (sample_flow_config n)))"
    by (simp add: createExternalQueues_def extqueue_New_def NewExternalQueueWithMetrics_def
        sample_flow_config_def sample_env_def)
  moreover have "go_returns (createObjStorages sample_env (fl_Name (sample_flow_config n))
      (fl_ObjectStorages (sample_flow_config n)))"
    by (simp add: createObjStorages_def objstorage_New_def NewStorageWithMetrics_def local_ParseConfig_def
        local_New_def local_validateAndFormatPath_def os_Stat_def empty_fs_def sample_flow_config_def
        sample_env_def)
  ultimately show ?thesis
    by (simp add: flow_creatable_def sample_sizes)
       (simp add: sample_flow_config_def MinQueueCapacity_def)
qed

lemma sample_starts:
  "\<exists>f a g. app_Start sample_env (sample_config 2) sample_fp_env = Ret ([f], a, g)"
proof -
  have "go_returns (app_Start sample_env (sample_config 2) sample_fp_env)"
    unfolding app_Start_returns_iff[OF sample_config_accepted sample_fp_env_ok]
    by (simp add: sample_config_def sample_creatable) (simp add: sample_flow_config_def)
  then obtain fs a g where st: "app_Start sample_env (sample_config 2) sample_fp_env = Ret (fs, a, g)"
    by (auto simp: go_returns_iff)
  obtain e' where "createFlows sample_env (co_Flows (sample_config 2)) sample_fp_env = Ret (fs, e')"
    by (rule app_Start_parts[OF st])
  from createFlows_all[OF sample_config_accepted this sample_fp_env_ok] have "length fs = 1"
    by (auto simp: sample_config_def dest: list_all2_lengthD)
  then obtain f where "fs = [f]" by (auto simp: length_Suc_conv)
  with st show ?thesis by blast
qed



end
