(* ===== verification/Whole_Flow.thy ===== *)
theory Whole_Flow
  imports Flow_Wiring
begin

text \<open>
  A whole flow as one machine: the accumulator's goroutine and its producers, the breaker, the
  uploader's goroutine and the workers' goroutines, all stepping.  The accumulator's world is the
  breaker and the state of the theory Upload_Pipeline; an attempt of its retry loop runs \<open>Enqueue\<close> on
  that state, and while it sleeps, and between its own steps, the others move.
\<close>

subsection \<open>Either accumulator\<close>

text \<open>The stage of a flow's accumulator, whichever of the two \<open>accumulator.From\<close> has made.\<close>

datatype 'w acc_stage =
  SizeStage "(by_size, bytes, 'w) stage_state"
| TimeStage "(by_time, bytes, 'w) stage_state"

fun acc_start :: "accumulator \<Rightarrow> 'w \<Rightarrow> 'w acc_stage" where
  "acc_start (BySize acc) w = SizeStage (stage_start (startRun_by_size acc) w)"
| "acc_start (ByTimeAndSize acc) w = TimeStage (stage_start (startRun_by_time acc) w)"

fun acc_reach ::
  "('w \<Rightarrow> bytes \<Rightarrow> ('w \<times> error option) go) \<Rightarrow> ('w \<Rightarrow> 'w) \<Rightarrow> ('w \<Rightarrow> 'w \<Rightarrow> bool) \<Rightarrow>
   'w acc_stage \<Rightarrow> 'w acc_stage \<Rightarrow> bool" where
  "acc_reach exec rest env (SizeStage s) (SizeStage t) = stage_reach (by_size_ops exec rest env) s t"
| "acc_reach exec rest env (TimeStage s) (TimeStage t) = stage_reach (by_time_ops exec rest env) s t"
| "acc_reach exec rest env _ _ = False"

fun acc_phase :: "'w acc_stage \<Rightarrow> phase" where
  "acc_phase (SizeStage s) = st_phase s"
| "acc_phase (TimeStage s) = st_phase s"

fun acc_accepted :: "'w acc_stage \<Rightarrow> bytes list" where
  "acc_accepted (SizeStage s) = st_accepted s"
| "acc_accepted (TimeStage s) = st_accepted s"

fun acc_world :: "'w acc_stage \<Rightarrow> 'w" where
  "acc_world (SizeStage s) = st_world s"
| "acc_world (TimeStage s) = st_world s"

definition accumulator_new :: "int \<Rightarrow> bytes \<Rightarrow> accumulator \<Rightarrow> bool" where
  "accumulator_new L sep A =
     (case A of
        BySize acc \<Rightarrow> \<exists>cap. NewAccumulatorBySize L sep cap = Ret acc
      | ByTimeAndSize acc \<Rightarrow> \<exists>cap f. NewAccumulatorByTimeAndSize L sep cap f = Ret acc)"

lemma acc_reach_trans:
  "acc_reach ex re env t u \<Longrightarrow> acc_reach ex re env s t \<Longrightarrow> acc_reach ex re env s u"
  by (cases s; cases t; cases u) (auto intro: stage_reach_trans)

text \<open>The groups are made by the packing, by the size only or with flushes by time in between.\<close>

context accumulating
begin

lemma started_by_size_inv:
  assumes "NewAccumulatorBySize L sep cap = Ret acc" and "good w" and "taken w = base"
  shows "sz.stage_inv (stage_start (startRun_by_size acc) w)"
  using assms
  by (intro sz.stage_inv_start[where n = "nat cap"])
     (auto simp: NewAccumulatorBySize_def go_ret_iff startRun_by_size_def by_size_relates_def
       by_size_ok_def split: if_splits)

lemma started_by_time_inv:
  assumes "NewAccumulatorByTimeAndSize L sep cap f = Ret acc" and "good w" and "taken w = base"
  shows "tm.stage_inv (stage_start (startRun_by_time acc) w)"
  using assms
  by (intro tm.stage_inv_start[where n = "nat cap"])
     (auto simp: NewAccumulatorByTimeAndSize_def go_ret_iff startRun_by_time_def by_time_relates_def
       by_size_ok_def timer_ok_def split: if_splits intro: timed_packing.nothing)

definition acc_inv :: "'w acc_stage \<Rightarrow> bool" where
  "acc_inv s = (case s of SizeStage t \<Rightarrow> sz.stage_inv t | TimeStage t \<Rightarrow> tm.stage_inv t)"

lemma acc_inv_start:
  assumes "accumulator_new L sep A" and "good w" and "taken w = base"
  shows "acc_inv (acc_start A w)"
proof (cases A)
  case (BySize acc)
  with assms(1) obtain cap where "NewAccumulatorBySize L sep cap = Ret acc"
    by (auto simp: accumulator_new_def)
  from started_by_size_inv[OF this assms(2,3)] BySize show ?thesis by (simp add: acc_inv_def)
next
  case (ByTimeAndSize acc)
  with assms(1) obtain cap f where "NewAccumulatorByTimeAndSize L sep cap f = Ret acc"
    by (auto simp: accumulator_new_def)
  from started_by_time_inv[OF this assms(2,3)] ByTimeAndSize show ?thesis by (simp add: acc_inv_def)
qed

lemma acc_inv_reach: "acc_reach exec rest env s t \<Longrightarrow> acc_inv s \<Longrightarrow> acc_inv t"
  by (cases s; cases t) (auto simp: acc_inv_def intro: sz.stage_inv_reach tm.stage_inv_reach)

lemma acc_inv_world: "acc_inv s \<Longrightarrow> good (acc_world s)"
  by (cases s)
     (auto simp: acc_inv_def sz.stage_inv_def tm.stage_inv_def by_size_relates_def by_time_relates_def
       by_size_complete_def by_time_complete_def split: if_splits)

lemma acc_inv_finished:
  assumes "acc_inv s" and "acc_phase s = Finished"
  shows "\<exists>gs. timed_packing L (int (length sep)) (acc_accepted s) (gs, []) \<and>
    taken (acc_world s) = base @ map (join_bytes sep) gs"
proof (cases s)
  case (SizeStage t)
  with assms sz.finished_handled_all[of t]
  have c: "by_size_complete taken good base L sep (acc_accepted s) (st_comp t) (st_world t)"
    by (simp add: acc_inv_def)
  let ?gp = "flushed (pack L (int (length sep)) (acc_accepted s))"
  have "timed_packing L (int (length sep)) (acc_accepted s) ?gp"
    by (intro timed_packing.flush pack_timed_packing)
  moreover have "?gp = (fst ?gp, [])" by (simp add: flushed_def)
  moreover have "taken (acc_world s) = base @ map (join_bytes sep) (fst ?gp)"
    using c SizeStage by (simp add: by_size_complete_def)
  ultimately show ?thesis by (intro exI[of _ "fst ?gp"]) simp
next
  case (TimeStage t)
  with assms tm.finished_handled_all[of t]
  have "by_time_complete taken good base L sep (acc_accepted s) (st_comp t) (st_world t)"
    by (simp add: acc_inv_def)
  with TimeStage show ?thesis by (auto simp: by_time_complete_def)
qed

end

context responsive_accumulating
begin

lemma acc_ends:
  assumes "acc_inv s" and "acc_phase s = Running"
  shows "\<exists>t. acc_reach exec rest env s t \<and> acc_phase t = Finished \<and> acc_accepted t = acc_accepted s"
proof (cases s)
  case (SizeStage u)
  with assms szf.shutdown_reaches_finish_busy[of u] obtain t where
    "stage_reach (by_size_ops exec rest env) u t" "st_phase t = Finished" "st_accepted t = st_accepted u"
    by (auto simp: acc_inv_def)
  with SizeStage show ?thesis by (intro exI[of _ "SizeStage t"]) simp
next
  case (TimeStage u)
  with assms tmf.shutdown_reaches_finish_busy[of u] obtain t where
    "stage_reach (by_time_ops exec rest env) u t" "st_phase t = Finished" "st_accepted t = st_accepted u"
    by (auto simp: acc_inv_def)
  with TimeStage show ?thesis by (intro exI[of _ "TimeStage t"]) simp
qed

end

subsection \<open>The uploader and its workers as the accumulator's next component\<close>

text \<open>\<open>Enqueue\<close> of the uploader in the state of the pipeline; the workers do not move.\<close>

definition pipe_enqueue ::
  "up_stage \<times> 'e pool \<Rightarrow> bytes \<Rightarrow> ((up_stage \<times> 'e pool) \<times> error option) go" where
  "pipe_enqueue x d =
     go_bind (stage_enqueue flow_uploader_ops (fst x) d) (\<lambda>(s, err). Ret ((s, snd x), err))"

text \<open>
  A pipeline that works: the uploader has not been shut down, there are workers.  \<open>pipe_quiet\<close>: any
  run of it in which nobody else enqueues and the uploader is not shut down, as the order of the
  shutdown guarantees until the accumulator is done.
\<close>

definition pipe_good :: "('e, 'w) worker \<Rightarrow> int \<Rightarrow> up_stage \<times> 'e pool \<Rightarrow> bool" where
  "pipe_good wk base x \<longleftrightarrow>
     pipe_inv wk base x \<and> st_phase (fst x) = Running \<and> po_threads (snd x) \<noteq> []"

definition pipe_quiet :: "('e, 'w) worker \<Rightarrow> up_stage \<times> 'e pool \<Rightarrow> up_stage \<times> 'e pool \<Rightarrow> bool" where
  "pipe_quiet wk x y \<longleftrightarrow>
     pipe_reach wk x y \<and> st_accepted (fst y) = st_accepted (fst x) \<and> st_phase (fst y) = Running"

definition pipe_moves ::
  "('e, 'w) worker \<Rightarrow> 'b \<times> (up_stage \<times> 'e pool) \<Rightarrow> 'b \<times> (up_stage \<times> 'e pool) \<Rightarrow> bool" where
  "pipe_moves wk w w' \<longleftrightarrow> pipe_quiet wk (snd w) (snd w')"

definition pipe_rest :: "('b \<Rightarrow> 'b) \<Rightarrow> ('x \<Rightarrow> 'x) \<Rightarrow> 'b \<times> 'x \<Rightarrow> 'b \<times> 'x" where
  "pipe_rest pass turn w = (pass (fst w), turn (snd w))"

lemma pipe_enqueue_step:
  assumes "pipe_inv wk base x" and "pipe_enqueue x d = Ret (y, err)"
  shows "pipe_step wk x y \<and> st_phase (fst y) = st_phase (fst x) \<and> snd y = snd x \<and>
    stage_enqueue flow_uploader_ops (fst x) d = Ret (fst y, err)"
proof -
  from assms(2) have e: "stage_enqueue flow_uploader_ops (fst x) d = Ret (fst y, err)" "snd y = snd x"
    by (auto simp: pipe_enqueue_def go_ret_iff)
  then have "stage_enqueue uploader_own_ops (fst x) d = Ret (fst y, err)"
    by (simp add: stage_enqueue_def uploader_own_ops_def)
  then have "stage_step uploader_own_ops (fst x) (fst y)" by (rule stage_enqueue_step)
  from pipe_step.uploader[OF this, of wk "snd x"] have
    "pipe_step wk x (fst y, (snd x)\<lparr>po_next := up_next (st_world (fst y))\<rparr>)" by simp
  moreover obtain c where "fst y = (fst x)\<lparr>st_comp := c,
      st_accepted := st_accepted (fst x) @ (if err = None then [d] else [])\<rparr>"
    using e(1) by (auto simp: stage_enqueue_def go_ret_iff eq_commute[of "fst y"])
  then have w: "st_world (fst y) = st_world (fst x)" "st_phase (fst y) = st_phase (fst x)" by simp_all
  then have "(snd x)\<lparr>po_next := up_next (st_world (fst y))\<rparr> = snd x"
    using assms(1) by (simp add: pipe_inv_def)
  ultimately show ?thesis using e w by (metis prod.collapse)
qed

lemma pipe_good_reach:
  assumes "pipe_good wk base x" and "pipe_reach wk x y" and "st_phase (fst y) = Running"
  shows "pipe_good wk base y"
  using assms pipe_inv_reach[OF assms(2)] pipe_reach_threads[OF assms(2)]
  by (auto simp: pipe_good_def)

interpretation pf: data_flow pipe_enqueue "\<lambda>x. st_accepted (fst x)" "pipe_good wk base" for wk base
proof
  fix x :: "up_stage \<times> 'a pool" and d assume g: "pipe_good wk base x"
  then have "uploader_up (fst x)" by (simp add: pipe_good_def pipe_inv_def uploader_up_def)
  from uf.enq_returns[OF this, of d] show "go_returns (pipe_enqueue x d)"
    by (auto simp: pipe_enqueue_def go_returns_iff)
next
  fix x y :: "up_stage \<times> 'a pool" and d assume g: "pipe_good wk base x" "pipe_enqueue x d = Ret (y, None)"
  then have inv: "pipe_inv wk base x" and up: "uploader_up (fst x)"
    by (simp_all add: pipe_good_def pipe_inv_def uploader_up_def)
  note st = pipe_enqueue_step[OF inv g(2)]
  have "pipe_reach wk x y" using st by (blast intro: pipe_reach.intros)
  from pipe_good_reach[OF g(1) this] st g(1) uf.enq_ok[OF up]
  show "pipe_good wk base y \<and> st_accepted (fst y) = st_accepted (fst x) @ [d]"
    by (auto simp: pipe_good_def)
next
  fix x y :: "up_stage \<times> 'a pool" and d e assume g: "pipe_good wk base x" "pipe_enqueue x d = Ret (y, Some e)"
  then have inv: "pipe_inv wk base x" and up: "uploader_up (fst x)"
    by (simp_all add: pipe_good_def pipe_inv_def uploader_up_def)
  note st = pipe_enqueue_step[OF inv g(2)]
  have "pipe_reach wk x y" using st by (blast intro: pipe_reach.intros)
  from pipe_good_reach[OF g(1) this] st g(1) uf.enq_err[OF up]
  show "pipe_good wk base y \<and> st_accepted (fst y) = st_accepted (fst x)"
    by (auto simp: pipe_good_def)
qed

text \<open>
  \<open>turn\<close> is what the others do while the accumulator's goroutine sleeps between two attempts: any
  quiet run of the pipeline.  \<open>pass\<close> is what the time does to the breaker.
\<close>

definition turn_moves :: "('e, 'w) worker \<Rightarrow> (up_stage \<times> 'e pool \<Rightarrow> up_stage \<times> 'e pool) \<Rightarrow> bool" where
  "turn_moves wk turn \<longleftrightarrow> (\<forall>base x. pipe_good wk base x \<longrightarrow> pipe_quiet wk x (turn x))"

locale whole_flow = circuit_breaker execute
  for execute :: "'b \<Rightarrow> (up_stage \<times> 'e pool \<Rightarrow> ((up_stage \<times> 'e pool) \<times> error option) go) \<Rightarrow>
      up_stage \<times> 'e pool \<Rightarrow> ('b \<times> (up_stage \<times> 'e pool) \<times> error option) go" +
  fixes pass :: "'b \<Rightarrow> 'b" and wk :: "('e, 'w) worker"
    and turn :: "up_stage \<times> 'e pool \<Rightarrow> up_stage \<times> 'e pool" and inflight :: int
  assumes turn_quiet: "pipe_good wk inflight x \<Longrightarrow> pipe_quiet wk x (turn x)"

lemma pipe_quiet_good: "pipe_good wk base x \<Longrightarrow> pipe_quiet wk x y \<Longrightarrow> pipe_good wk base y"
  by (auto simp: pipe_quiet_def intro: pipe_good_reach)

sublocale whole_flow \<subseteq> wb: breaker_flow execute pipe_enqueue "\<lambda>x. st_accepted (fst x)"
  "pipe_good wk inflight" "pipe_rest pass turn"
proof unfold_locales
  fix w :: "'b \<times> (up_stage \<times> 'e pool)" assume "pipe_good wk inflight (snd w)"
  with turn_quiet[OF this] pipe_quiet_good[OF this turn_quiet[OF this]]
  show "pipe_good wk inflight (snd (pipe_rest pass turn w)) \<and>
      st_accepted (fst (snd (pipe_rest pass turn w))) = st_accepted (fst (snd w))"
    by (simp add: pipe_rest_def pipe_quiet_def)
qed

sublocale whole_flow \<subseteq> wa: accumulating "breaker_enqueue execute pipe_enqueue" "pipe_rest pass turn"
  "\<lambda>w. st_accepted (fst (snd w))" "\<lambda>w. pipe_good wk inflight (snd w)" "pipe_moves wk" base L sep
  for base L sep
  by unfold_locales (auto simp: pipe_moves_def pipe_quiet_def intro: pipe_good_reach)

text \<open>
  A turn in which the pipeline comes forward when something is queued or held, and a breaker that
  recovers: then no attempt is refused for ever.
\<close>

locale whole_flow_live = whole_flow execute pass wk turn inflight +
  recovering_breaker execute pass cooldown K
  for execute :: "'b \<Rightarrow> (up_stage \<times> 'e pool \<Rightarrow> ((up_stage \<times> 'e pool) \<times> error option) go) \<Rightarrow>
      up_stage \<times> 'e pool \<Rightarrow> ('b \<times> (up_stage \<times> 'e pool) \<times> error option) go"
    and pass :: "'b \<Rightarrow> 'b" and wk :: "('e, 'w) worker"
    and turn :: "up_stage \<times> 'e pool \<Rightarrow> up_stage \<times> 'e pool" and inflight :: int
    and cooldown :: "'b \<Rightarrow> nat" and K :: nat +
  assumes turn_progress: "pipe_good wk inflight x \<Longrightarrow>
      uploader_backlog (fst (turn x)) \<le> uploader_backlog (fst x) \<and>
      (0 < uploader_backlog (fst x) \<longrightarrow> uploader_backlog (fst (turn x)) < uploader_backlog (fst x))"

sublocale whole_flow_live \<subseteq> wr: responsive_accumulating "breaker_enqueue execute pipe_enqueue"
  "pipe_rest pass turn" "\<lambda>w. st_accepted (fst (snd w))" "\<lambda>w. pipe_good wk inflight (snd w)"
  "pipe_moves wk" base L sep
  "\<lambda>w. (K + 1) * uploader_backlog (fst (snd w)) + cooldown (fst w)"
  for base L sep
proof (unfold_locales, goal_cases)
  case (1 w d w' e)
  then have up: "uploader_up (fst (snd w))" and inv: "pipe_inv wk inflight (snd w)"
    by (simp_all add: pipe_good_def pipe_inv_def uploader_up_def)
  from 1 have "execute (fst w) (\<lambda>n. pipe_enqueue n d) (snd w) = Ret (fst w', snd w', Some e)"
    by (auto simp: breaker_enqueue_def go_ret_iff)
  from fails[OF this] show ?case
  proof
    assume r: "snd w' = snd w \<and> cooldown (pass (fst w')) < cooldown (fst w)"
    with turn_progress[OF 1(1)]
    have "(K + 1) * uploader_backlog (fst (turn (snd w))) \<le> (K + 1) * uploader_backlog (fst (snd w))"
      by (intro mult_le_mono) simp_all
    with r show ?case by (simp add: pipe_rest_def)
  next
    assume r: "pipe_enqueue (snd w) d = Ret (snd w', Some e) \<and> cooldown (pass (fst w')) \<le> K"
    then have e: "stage_enqueue flow_uploader_ops (fst (snd w)) d = Ret (fst (snd w'), Some e)"
      using pipe_enqueue_step[OF inv] by blast
    have "pipe_good wk inflight (snd w')" using pf.enq_err[OF 1(1)] r by blast
    from turn_progress[OF this] refused_backlog[OF up e]
    have "uploader_backlog (fst (turn (snd w'))) + 1 \<le> uploader_backlog (fst (snd w))" by simp
    then have "(K + 1) * (uploader_backlog (fst (turn (snd w'))) + 1) \<le>
        (K + 1) * uploader_backlog (fst (snd w))" by (rule mult_le_mono2)
    with r show ?case by (simp add: pipe_rest_def)
  qed
qed

subsection \<open>A turn of the pipeline\<close>

text \<open>
  One schedule of the others, to run the machine with: the first worker finishes what it has, receives
  and works on everything on \<open>next\<close>, and then the uploader's goroutine has its turn.
\<close>

primrec serve :: "('e, 'w) worker \<Rightarrow> nat \<Rightarrow> 'e pool \<Rightarrow> 'e pool" where
  "serve wk 0 p = p"
| "serve wk (Suc n) p =
     (case chan_recv (po_next p) of
        Ret (ch, Some u) \<Rightarrow> serve wk n (idle_worker wk 0 (begin_work wk 0 ch u p))
      | _ \<Rightarrow> p)"

definition pool_turn :: "('e, 'w) worker \<Rightarrow> 'e pool \<Rightarrow> 'e pool" where
  "pool_turn wk p = serve wk (length (chan_buf (po_next p))) (idle_worker wk 0 p)"

definition pipe_turn :: "('e, 'w) worker \<Rightarrow> up_stage \<times> 'e pool \<Rightarrow> up_stage \<times> 'e pool" where
  "pipe_turn wk x =
     (let s = uploader_turn (fst x) in (s, (pool_turn wk (snd x))\<lparr>po_next := up_next (st_world s)\<rparr>))"

lemma begin_work_phase:
  "i < length (po_threads p) \<Longrightarrow>
   th_phase (po_threads (begin_work wk i ch u p) ! i) = th_phase (po_threads p ! i)"
  by (simp add: begin_work_def Let_def split: sum.split)

lemma serve_all:
  assumes "po_threads p \<noteq> []" and "th_job (po_threads p ! 0) = None"
    and "th_phase (po_threads p ! 0) \<noteq> Ended" and "length (chan_buf (po_next p)) = n"
  shows "pool_reach wk p (serve wk n p) \<and>
    po_next (serve wk n p) = (po_next p)\<lparr>chan_buf := []\<rparr> \<and>
    po_taken (serve wk n p) = po_taken p @ chan_buf (po_next p)"
  using assms
proof (induction n arbitrary: p)
  case 0
  then show ?case by (simp add: pool_reach.here)
next
  case (Suc n)
  then obtain u us where b: "chan_buf (po_next p) = u # us" by (cases "chan_buf (po_next p)") auto
  let ?ch = "(po_next p)\<lparr>chan_buf := us\<rparr>"
  have r: "chan_recv (po_next p) = Ret (?ch, Some u)" using b by (simp add: chan_recv_def)
  have i: "0 < length (po_threads p)" using Suc.prems(1) by simp
  let ?q = "begin_work wk 0 ?ch u p"
  have st: "pool_reach wk p ?q"
    by (rule pool_reach_step[OF pool_step.take_unit[OF i Suc.prems(3,2) r]])
  have id: "idles_to wk 0 ?q (idle_worker wk 0 ?q)" using i by (intro idle_worker_idles) simp
  then have fr: "po_next (idle_worker wk 0 ?q) = ?ch" "po_taken (idle_worker wk 0 ?q) = po_taken p @ [u]"
    "length (po_threads (idle_worker wk 0 ?q)) = length (po_threads p)"
    "th_job (po_threads (idle_worker wk 0 ?q) ! 0) = None"
    "th_phase (po_threads (idle_worker wk 0 ?q) ! 0) = th_phase (po_threads p ! 0)"
    "pool_reach wk p (idle_worker wk 0 ?q)"
    using i begin_work_phase[OF i, of wk ?ch u] st
    by (auto simp: idles_to_def intro: pool_reach_trans)
  have ne: "po_threads (idle_worker wk 0 ?q) \<noteq> []" using fr(3) Suc.prems(1) by auto
  have "pool_reach wk (idle_worker wk 0 ?q) (serve wk n (idle_worker wk 0 ?q)) \<and>
      po_next (serve wk n (idle_worker wk 0 ?q)) = (po_next (idle_worker wk 0 ?q))\<lparr>chan_buf := []\<rparr> \<and>
      po_taken (serve wk n (idle_worker wk 0 ?q)) =
        po_taken (idle_worker wk 0 ?q) @ chan_buf (po_next (idle_worker wk 0 ?q))"
    using Suc.prems fr ne b by (intro Suc.IH) simp_all
  with fr r b pool_reach_trans[OF _ fr(6)] show ?case by simp
qed

lemma pool_turn_spec:
  assumes "po_threads p \<noteq> []" and "th_phase (po_threads p ! 0) \<noteq> Ended"
  shows "pool_reach wk p (pool_turn wk p) \<and>
    po_next (pool_turn wk p) = (po_next p)\<lparr>chan_buf := []\<rparr> \<and>
    po_taken (pool_turn wk p) = po_taken p @ chan_buf (po_next p)"
proof -
  let ?q = "idle_worker wk 0 p"
  have id: "idles_to wk 0 p ?q" using assms(1) by (intro idle_worker_idles) simp
  then have "po_threads ?q \<noteq> []" using assms(1) by (auto simp: idles_to_def)
  from serve_all[OF this, of "length (chan_buf (po_next p))" wk] id assms(2) show ?thesis
    by (auto simp: pool_turn_def idles_to_def intro: pool_reach_trans)
qed

lemma stage_exec_env: "stage_exec (ops\<lparr>op_env := env\<rparr>) e s = stage_exec ops e s"
  by (cases e) (simp_all split: go.split option.split prod.split)

lemma try_event_pipe:
  assumes "in_step s p"
  shows "pipe_reach wk (s, p) (try_event e s, p\<lparr>po_next := up_next (st_world (try_event e s))\<rparr>) \<and>
    in_step (try_event e s) (p\<lparr>po_next := up_next (st_world (try_event e s))\<rparr>)"
proof (cases "stage_exec flow_uploader_ops e s")
  case None
  moreover from assms have "p\<lparr>po_next := up_next (st_world s)\<rparr> = p" by (cases p) (simp add: in_step_def)
  ultimately show ?thesis using assms by (simp add: try_event_def pipe_reach.pipe_here)
next
  case (Some t)
  have "stage_exec uploader_own_ops e s = stage_exec flow_uploader_ops e s"
    by (simp only: uploader_own_ops_def stage_exec_env)
  with Some have st: "stage_step uploader_own_ops s t" by (auto intro: stage_exec_step)
  from pipe_reach.pipe_there[OF pipe_reach.pipe_here pipe_step.uploader[OF st], of wk p]
    own_step_world[OF st] assms Some show ?thesis
    by (simp add: try_event_def in_step_def)
qed

lemma pipe_turn_reach:
  assumes "pipe_good wk base x"
  shows "pipe_reach wk x (pipe_turn wk x)"
proof -
  obtain s p where x: "x = (s, p)" by fastforce
  have inv: "fu.up.stage_inv s" "pool_inv wk base p" and syn: "in_step s p"
    and run: "st_phase s = Running" and ths: "po_threads p \<noteq> []"
    using assms by (simp_all add: x pipe_good_def pipe_inv_def in_step_def)
  have "\<not> chan_closed (po_next p)" using uploader_units_of_inv[OF inv(1)] run syn by (simp add: in_step_def)
  moreover have "po_threads p ! 0 \<in> set (po_threads p)" using ths by simp
  ultimately have "th_phase (po_threads p ! 0) \<noteq> Ended"
    using inv(2) by (auto simp: pool_inv_def threads_ok_def)
  note pt = pool_turn_spec[OF ths this, of wk]
  let ?s = "s\<lparr>st_world := workers_receive (st_world s)\<rparr>" and ?q = "pool_turn wk p"
  have w: "workers_receive (st_world s) = (st_world s)\<lparr>up_next := po_next ?q, up_received := po_taken ?q\<rparr>"
    using pt syn by (simp add: workers_receive_def in_step_def)
  have r1: "pipe_reach wk (s, p) (?s, ?q)"
    using pool_reach_pipe[OF conjunct1[OF pt] syn] unfolding w .
  have "in_step ?s ?q" by (simp add: in_step_def w)
  note h = try_event_pipe[OF this, of wk "Handle 0"]
  note r = try_event_pipe[OF conjunct2[OF h], of wk Recv]
  from pipe_reach_trans[OF conjunct1[OF r] pipe_reach_trans[OF conjunct1[OF h] r1]] show ?thesis
    by (simp add: x pipe_turn_def uploader_turn_def Let_def)
qed

lemma pipe_turn_moves: "turn_moves wk (pipe_turn wk)"
proof (unfold turn_moves_def, intro allI impI)
  fix base x assume g: "pipe_good wk base x"
  then have "st_phase (fst x) = Running" by (simp add: pipe_good_def)
  with pipe_turn_reach[OF g] show "pipe_quiet wk x (pipe_turn wk x)"
    by (simp add: pipe_quiet_def) (simp add: pipe_turn_def Let_def uploader_turn_frame)
qed

lemma pipe_turn_progress:
  assumes "pipe_good wk base x"
  shows "pipe_quiet wk x (pipe_turn wk x) \<and>
    uploader_backlog (fst (pipe_turn wk x)) \<le> uploader_backlog (fst x) \<and>
    (0 < uploader_backlog (fst x) \<longrightarrow> uploader_backlog (fst (pipe_turn wk x)) < uploader_backlog (fst x))"
proof -
  have "uploader_up (fst x)" using assms by (simp add: pipe_good_def pipe_inv_def uploader_up_def)
  moreover have "fst (pipe_turn wk x) = uploader_turn (fst x)" by (simp add: pipe_turn_def Let_def)
  moreover have "pipe_quiet wk x (pipe_turn wk x)"
    using pipe_turn_moves[of wk] assms unfolding turn_moves_def by blast
  ultimately show ?thesis using uploader_turn_progress[of "fst x"] by simp
qed

text \<open>Behind the dummy breaker and behind one that trips, with this schedule, the flow is live.\<close>

interpretation wdf: whole_flow_live dummy_execute id wk "pipe_turn wk" inflight "\<lambda>_. 0" 0 for wk inflight
  by unfold_locales (use pipe_turn_progress in \<open>auto simp: dummy_execute_def go_ret_iff\<close>)

interpretation wtf: whole_flow_live "tripping_execute K" "\<lambda>b. b - 1" wk "pipe_turn wk" inflight id K
  for K wk inflight
proof unfold_locales
  fix x assume "pipe_good wk inflight x"
  from pipe_turn_progress[OF this] show "pipe_quiet wk x (pipe_turn wk x)"
    "uploader_backlog (fst (pipe_turn wk x)) \<le> uploader_backlog (fst x) \<and>
     (0 < uploader_backlog (fst x) \<longrightarrow> uploader_backlog (fst (pipe_turn wk x)) < uploader_backlog (fst x))"
    by blast+
qed (auto simp: tripping_execute_def go_ret_iff go_returns_iff split: if_splits)

subsection \<open>From the accumulator to the storages\<close>

abbreviation flow_reach where
  "flow_reach execute pass wk turn \<equiv>
     acc_reach (breaker_enqueue execute pipe_enqueue) (pipe_rest pass turn) (pipe_moves wk)"

text \<open>
  What the accumulator has pushed is the packing of what it has accepted, and the pipeline behind it
  is as its invariant says, at every moment of the whole machine.
\<close>

context whole_flow
begin

lemma flow_inv:
  assumes "accumulator_new L sep A" and "pipe_good wk inflight x"
    and "flow_reach execute pass wk turn (acc_start A (cb, x)) t"
  shows "wa.acc_inv (st_accepted (fst x)) L sep t"
  by (rule wa.acc_inv_reach[OF assms(3) wa.acc_inv_start[OF assms(1)]]) (use assms(2) in simp_all)

lemma flow_good:
  assumes "accumulator_new L sep A" and "pipe_good wk inflight x"
    and "flow_reach execute pass wk turn (acc_start A (cb, x)) t"
  shows "pipe_good wk inflight (snd (acc_world t))"
  by (rule wa.acc_inv_world[OF flow_inv[OF assms]])

lemma flow_finished:
  assumes "accumulator_new L sep A" and "pipe_good wk inflight x" and "st_accepted (fst x) = []"
    and "flow_reach execute pass wk turn (acc_start A (cb, x)) t" and "acc_phase t = Finished"
    and "pipe_reach wk (snd (acc_world t)) (s, p)"
    and "st_accepted s = st_accepted (fst (snd (acc_world t)))" and "all_ended p"
  shows "\<exists>gs. timed_packing L (int (length sep)) (acc_accepted t) (gs, []) \<and>
    map wu_Data (up_units (st_world s)) = map (join_bytes sep) gs \<and>
    (\<forall>k < length (wk_destinations wk).
       mset (upload_calls k p) = mset (started wk (up_units (st_world s))) \<and>
       mset (notify_calls k p) = mset (stored_at k p))"
proof -
  note inv = flow_inv[OF assms(1,2,4)]
  obtain gs where gs: "timed_packing L (int (length sep)) (acc_accepted t) (gs, [])"
    "st_accepted (fst (snd (acc_world t))) = map (join_bytes sep) gs"
    using wa.acc_inv_finished[OF inv assms(5)] assms(3) by auto
  have g: "pipe_good wk inflight (snd (acc_world t))" by (rule flow_good[OF assms(1,2,4)])
  then have "pipe_inv wk inflight (s, p)" "po_threads p \<noteq> []"
    using pipe_inv_reach[OF assms(6)] pipe_reach_threads[OF assms(6)] by (auto simp: pipe_good_def)
  from workers_of_inv[OF this] gs assms(7,8) show ?thesis by metis
qed

end

context whole_flow_live
begin

lemma flow_can_end:
  assumes "accumulator_new L sep A" and "pipe_good wk inflight x" and "st_accepted (fst x) = []"
    and "flow_reach execute pass wk turn (acc_start A (cb, x)) t" and "acc_phase t = Running"
  shows "\<exists>v s p. flow_reach execute pass wk turn t v \<and> acc_phase v = Finished \<and>
    acc_accepted v = acc_accepted t \<and> pipe_reach wk (snd (acc_world v)) (s, p) \<and>
    st_accepted s = st_accepted (fst (snd (acc_world v))) \<and> st_phase s = Finished \<and> all_ended p"
proof -
  obtain v where v: "flow_reach execute pass wk turn t v" "acc_phase v = Finished"
    "acc_accepted v = acc_accepted t"
    using wr.acc_ends[OF flow_inv[OF assms(1,2,4)] assms(5)] by blast
  have "pipe_good wk inflight (snd (acc_world v))"
    by (rule flow_good[OF assms(1,2) acc_reach_trans[OF v(1) assms(4)]])
  then have "pipe_inv wk inflight (fst (snd (acc_world v)), snd (snd (acc_world v)))"
    "po_threads (snd (snd (acc_world v))) \<noteq> []" "st_phase (fst (snd (acc_world v))) = Running"
    by (simp_all add: pipe_good_def)
  from upload_shutdown_of_inv[OF this] v show ?thesis by (metis prod.collapse)
qed

end

text \<open>The same outside the locales.\<close>

definition turn_advances ::
  "('e, 'w) worker \<Rightarrow> (up_stage \<times> 'e pool \<Rightarrow> up_stage \<times> 'e pool) \<Rightarrow> bool" where
  "turn_advances wk turn \<longleftrightarrow> (\<forall>base x. pipe_good wk base x \<longrightarrow>
     uploader_backlog (fst (turn x)) \<le> uploader_backlog (fst x) \<and>
     (0 < uploader_backlog (fst x) \<longrightarrow> uploader_backlog (fst (turn x)) < uploader_backlog (fst x)))"

lemma pipe_turn_advances: "turn_advances wk (pipe_turn wk)"
  using pipe_turn_progress unfolding turn_advances_def by blast

lemma whole_flow_of:
  assumes "circuit_breaker execute" and "turn_moves wk turn"
  shows "whole_flow execute wk turn inflight"
  using assms by (intro whole_flow.intro whole_flow_axioms.intro) (auto simp: turn_moves_def)

lemma whole_flow_live_of:
  assumes "recovering_breaker execute pass cooldown K" and "turn_moves wk turn" and "turn_advances wk turn"
  shows "whole_flow_live execute pass wk turn inflight cooldown K"
  using assms whole_flow_of[OF recovering_breaker.axioms(1)[OF assms(1)] assms(2)]
  by (intro whole_flow_live.intro whole_flow_live_axioms.intro) (auto simp: turn_advances_def)

text \<open>A run of the sample accumulator in front of the sample uploader, with any workers.\<close>

lemma sample_whole_run:
  "\<exists>t. flow_reach dummy_execute id wk turn
       (acc_start (BySize sample_by_size) ((), sample_uploader 2, p)) t \<and> acc_phase t = Finished \<and>
     acc_accepted t = [[1, 2], [3, 4], [5]] \<and>
     st_accepted (fst (snd (acc_world t))) = [[1, 2, 0, 3, 4], [5]]"
proof -
  have "map_option (\<lambda>t. (st_phase t, st_accepted t, st_accepted (fst (snd (st_world t)))))
      (stage_run (by_size_ops (breaker_enqueue dummy_execute pipe_enqueue) (pipe_rest id turn)
          (pipe_moves wk))
        sample_events (stage_start (startRun_by_size sample_by_size) ((), sample_uploader 2, p))) =
    Some (Finished, [[1, 2], [3, 4], [5]], [[1, 2, 0, 3, 4], [5]])" by code_simp
  then obtain t where "stage_reach (by_size_ops (breaker_enqueue dummy_execute pipe_enqueue)
      (pipe_rest id turn) (pipe_moves wk)) (stage_start (startRun_by_size sample_by_size)
        ((), sample_uploader 2, p)) t" "st_phase t = Finished"
    "st_accepted t = [[1, 2], [3, 4], [5]]"
    "st_accepted (fst (snd (st_world t))) = [[1, 2, 0, 3, 4], [5]]"
    by (auto dest: stage_run_reach)
  then show ?thesis by (intro exI[of _ "SizeStage t"]) simp
qed

lemma sample_whole_begin:
  "\<exists>t. flow_reach execute pass wk turn
       (acc_start (BySize sample_by_size) (cb, sample_uploader 2, p)) t \<and> acc_phase t = Running \<and>
     acc_accepted t = [[7]]"
proof -
  have "map_option (\<lambda>t. (st_phase t, st_accepted t))
      (stage_run (by_size_ops (breaker_enqueue execute pipe_enqueue) (pipe_rest pass turn)
          (pipe_moves wk))
        [Enq [7], Recv] (stage_start (startRun_by_size sample_by_size) (cb, sample_uploader 2, p))) =
    Some (Running, [[7]])" by code_simp
  then obtain t where "stage_reach (by_size_ops (breaker_enqueue execute pipe_enqueue)
      (pipe_rest pass turn) (pipe_moves wk)) (stage_start (startRun_by_size sample_by_size)
        (cb, sample_uploader 2, p)) t" "st_phase t = Running" "st_accepted t = [[7]]"
    by (auto simp del: stage_run.simps dest: stage_run_reach)
  then show ?thesis by (intro exI[of _ "SizeStage t"]) simp
qed

end
