(* ===== verification/Serving.thy ===== *)
theory Serving
  imports Http_Api "HOL-Library.Multiset"
begin

text \<open>
  Requests on several goroutines.  \<open>ServeHTTP\<close> of adapters/httpin/ingest_routes.go is cut where other
  goroutines can see or change something: the breaker's \<open>Allow\<close>, the reading of the body, the
  semaphore, the decompression, \<open>Enqueue\<close>, and the report to the breaker.  \<open>req_step\<close> is what a
  request's goroutine does next; run on its own it is the handler of the theory Ingestion.  The two
  routes of a flow share its breaker and its entry point, and have a semaphore each.
\<close>

subsection \<open>One request\<close>

datatype 'tk req_phase =
  Arrived
| Allowing
| Reading 'tk
| Waiting 'tk bytes string
| Holding 'tk bool bytes string
| Returning 'tk bool "error + bytes"
| Enqueueing 'tk bytes
| Reporting 'tk bool
| Answered int
| Crashed string

definition after_decompression ::
  "http_request \<Rightarrow> 'tk \<Rightarrow> error + bytes \<Rightarrow> ('b, 'n) ingest_state \<Rightarrow> 'tk req_phase \<times> ('b, 'n) ingest_state" where
  "after_decompression r tk res s =
     (case res of
        Inl err \<Rightarrow> (Answered 400, increaseErrorCount ''enqueue_failed'' (rq_Path r) s)
      | Inr payload \<Rightarrow> (Enqueueing tk payload, s))"

text \<open>\<open>Block\<close>: it waits, or it has been answered or has crashed and does nothing any more.\<close>

fun req_step ::
  "('b, 'tk) two_step \<Rightarrow> ('n \<Rightarrow> bytes \<Rightarrow> ('n \<times> error option) go) \<Rightarrow> 'w codecs \<Rightarrow> (nat \<Rightarrow> nat) \<Rightarrow>
   route \<Rightarrow> http_request \<Rightarrow> 'tk req_phase \<times> ('b, 'n) ingest_state \<Rightarrow>
   ('tk req_phase \<times> ('b, 'n) ingest_state) go" where
  "req_step cb enq cd grow rt r (Arrived, s) =
     Ret (case rt_token rt of
            None \<Rightarrow> (Allowing, s)
          | Some token \<Rightarrow>
              if header_Get r ''Authorization'' \<noteq> ''Bearer '' @ token then (Answered 401, s)
              else (Allowing, s))"
| "req_step cb enq cd grow rt r (Allowing, s) =
     Ret (case ts_allow cb (is_circuitBreaker s) of
            (b, Inl err) \<Rightarrow>
              (Answered 500, increaseErrorCount ''circuit_breaker_open'' (rq_Path r) (s\<lparr>is_circuitBreaker := b\<rparr>))
          | (b, Inr tk) \<Rightarrow> (Reading tk, s\<lparr>is_circuitBreaker := b\<rparr>))"
| "req_step cb enq cd grow rt r (Reading tk, s) =
     (let buf = rd_data (rq_Body r); err = rd_end (rq_Body r);
          s = observeSize (rq_Path r) (int (length buf)) s;
          alg = selectDecompressionAlgorithm (ir_validDecompressionAlgorithms (rt_handler rt))
                  (rq_Headers r ''Content-Encoding'') in
      Ret (if err \<noteq> None \<and> is_MaxBytesError (the err) then
             (Answered 413, increaseErrorCount ''request_entity_too_large'' (rq_Path r) s)
           else if err \<noteq> None then
             (Answered 400, increaseErrorCount ''error_reading_body'' (rq_Path r) s)
           else if int (length buf) \<le> 0 then
             (Answered 400, increaseErrorCount ''request_without_body'' (rq_Path r) s)
           else if alg = [] then (Enqueueing tk buf, s)
           else (Waiting tk buf alg, s)))"
| "req_step cb enq cd grow rt r (Waiting tk d alg, s) =
     go_bind (chan_recv (is_semaphor s)) (\<lambda>(sem, token).
       Ret (Holding tk (token \<noteq> None) d alg, s\<lparr>is_semaphor := sem\<rparr>))"
| "req_step cb enq cd grow rt r (Holding tk need d alg, s) =
     (case decompress cd grow d alg (rq_Path r) (ir_decompressionInitialBufferSize (rt_handler rt)) s of
        (Ret res, s) \<Rightarrow> Ret (Returning tk need res, s)
      | (Panic m, s) \<Rightarrow> Ret (Crashed m, s)
      | (Block, s) \<Rightarrow> Block)"
| "req_step cb enq cd grow rt r (Returning tk need res, s) =
     (if need then
        go_bind (chan_send (is_semaphor s) ()) (\<lambda>sem. Ret (after_decompression r tk res (s\<lparr>is_semaphor := sem\<rparr>)))
      else Ret (after_decompression r tk res s))"
| "req_step cb enq cd grow rt r (Enqueueing tk payload, s) =
     go_bind (enq (is_entrypoint s) payload) (\<lambda>(n, err).
       let s = s\<lparr>is_entrypoint := n\<rparr> in
       Ret (Reporting tk (err = None),
            if err \<noteq> None then increaseErrorCount ''enqueue_failed'' (rq_Path r) s else s))"
| "req_step cb enq cd grow rt r (Reporting tk success, s) =
     Ret (Answered (if success then 200 else 500),
          s\<lparr>is_circuitBreaker := ts_report cb tk success (is_circuitBreaker s)\<rparr>)"
| "req_step cb enq cd grow rt r (Answered code, s) = Block"
| "req_step cb enq cd grow rt r (Crashed m, s) = Block"

text \<open>What the client gets: the recoverer answers for a handler that has panicked.\<close>

fun req_status :: "'tk req_phase \<Rightarrow> int option" where
  "req_status (Answered code) = Some code"
| "req_status (Crashed m) = Some 500"
| "req_status _ = None"

text \<open>A request alone, for at most \<open>n\<close> steps.\<close>

fun req_run ::
  "('b, 'tk) two_step \<Rightarrow> ('n \<Rightarrow> bytes \<Rightarrow> ('n \<times> error option) go) \<Rightarrow> 'w codecs \<Rightarrow> (nat \<Rightarrow> nat) \<Rightarrow>
   route \<Rightarrow> http_request \<Rightarrow> nat \<Rightarrow> 'tk req_phase \<times> ('b, 'n) ingest_state \<Rightarrow>
   ('tk req_phase \<times> ('b, 'n) ingest_state) go" where
  "req_run cb enq cd grow rt r 0 x = Ret x"
| "req_run cb enq cd grow rt r (Suc n) x =
     (if req_status (fst x) \<noteq> None then Ret x
      else go_bind (req_step cb enq cd grow rt r x) (req_run cb enq cd grow rt r n))"

text \<open>Alone, the steps are the handler.\<close>

definition served :: "'tk req_phase \<times> 's \<Rightarrow> writer \<Rightarrow> (writer \<times> 's) \<times> exit" where
  "served x w = (case fst x of
     Answered code \<Rightarrow> ((WriteHeader code w, snd x), Returned)
   | Crashed m \<Rightarrow> ((w, snd x), Panicked m)
   | _ \<Rightarrow> ((w, snd x), Blocked))"

lemma req_run_next:
  "req_status (fst x) = None \<Longrightarrow> req_run cb enq cd grow rt r (Suc n) x = Ret y \<longleftrightarrow>
     (\<exists>z. req_step cb enq cd grow rt r x = Ret z \<and> req_run cb enq cd grow rt r n z = Ret y)"
  by (auto simp: go_bind_Ret_iff)

lemma req_run_stop: "req_status (fst x) \<noteq> None \<Longrightarrow> req_run cb enq cd grow rt r n x = Ret x"
  by (cases n) simp_all

declare req_run.simps(2) [simp del]

definition enqueue_payload where
  "enqueue_payload cb enq r w tk payload s =
     handler_bind (w, s) (enq (is_entrypoint s) payload) (\<lambda>(n, err).
       let s = s\<lparr>is_entrypoint := n\<rparr> in
       if err \<noteq> None then
         ((WriteHeader 500 w,
           (increaseErrorCount ''enqueue_failed'' (rq_Path r) s)
             \<lparr>is_circuitBreaker := ts_report cb tk False (is_circuitBreaker s)\<rparr>), Returned)
       else
         ((WriteHeader 200 w,
           s\<lparr>is_circuitBreaker := ts_report cb tk True (is_circuitBreaker s)\<rparr>), Returned))"

lemma req_run_enqueues:
  assumes "req_run cb enq cd grow rt r (Suc (Suc n)) (Enqueueing tk p, s) = Ret x"
  shows "enqueue_payload cb enq r w tk p s = served x w \<and> req_status (fst x) \<noteq> None"
proof -
  from assms obtain n' err where e: "enq (is_entrypoint s) p = Ret (n', err)"
    by (auto simp: req_run_next go_bind_Ret_iff Let_def)
  have "\<exists>s'. req_step cb enq cd grow rt r (Enqueueing tk p, s) = Ret (Reporting tk (err = None), s') \<and>
      s' = (if err \<noteq> None then increaseErrorCount ''enqueue_failed'' (rq_Path r) (s\<lparr>is_entrypoint := n'\<rparr>)
            else s\<lparr>is_entrypoint := n'\<rparr>)"
    using e by (simp add: Let_def)
  with assms have "x = (Answered (if err = None then 200 else 500),
      (if err \<noteq> None then increaseErrorCount ''enqueue_failed'' (rq_Path r) (s\<lparr>is_entrypoint := n'\<rparr>)
       else s\<lparr>is_entrypoint := n'\<rparr>)
        \<lparr>is_circuitBreaker := ts_report cb tk (err = None) (is_circuitBreaker s)\<rparr>)"
    by (auto simp: req_run_next req_run_stop increaseErrorCount_def)
  with e show ?thesis
    by (cases err) (simp_all add: enqueue_payload_def served_def Let_def increaseErrorCount_def)
qed

lemma req_run_decides:
  assumes "req_run cb enq cd grow rt r (Suc (Suc n)) (after_decompression r tk res s) = Ret x"
  shows "(case res of
      Inl err \<Rightarrow> ((WriteHeader 400 w, increaseErrorCount ''enqueue_failed'' (rq_Path r) s), Returned)
    | Inr payload \<Rightarrow> enqueue_payload cb enq r w tk payload s) = served x w \<and> req_status (fst x) \<noteq> None"
  using assms req_run_enqueues[of cb enq cd grow rt r n tk _ s x w]
  by (cases res) (auto simp: after_decompression_def served_def req_run_stop simp del: req_step.simps)

definition decided where
  "decided cb enq r w tk res s =
     (case res of
        Inl err \<Rightarrow> ((WriteHeader 400 w, increaseErrorCount ''enqueue_failed'' (rq_Path r) s), Returned)
      | Inr payload \<Rightarrow> enqueue_payload cb enq r w tk payload s)"

lemma semaphor_same: "(s :: ('b, 'n) ingest_state)\<lparr>is_semaphor := is_semaphor s\<rparr> = s"
  by (cases s) simp

lemma req_run_returns:
  assumes "req_run cb enq cd grow rt r (Suc (Suc (Suc n))) (Returning tk need res, s) = Ret x"
  shows "\<exists>sem. (if need then chan_send (is_semaphor s) () = Ret sem else sem = is_semaphor s) \<and>
    decided cb enq r w tk res (s\<lparr>is_semaphor := sem\<rparr>) = served x w \<and> req_status (fst x) \<noteq> None"
proof (cases need)
  case True
  with assms obtain sem where "chan_send (is_semaphor s) () = Ret sem"
    "req_run cb enq cd grow rt r (Suc (Suc n)) (after_decompression r tk res (s\<lparr>is_semaphor := sem\<rparr>)) = Ret x"
    by (auto simp: req_run_next go_bind_Ret_iff)
  with req_run_decides[OF this(2), of w] True show ?thesis by (auto simp: decided_def)
next
  case False
  with assms have "req_run cb enq cd grow rt r (Suc (Suc n)) (after_decompression r tk res s) = Ret x"
    by (auto simp: req_run_next)
  from req_run_decides[OF this, of w] False show ?thesis
    by (intro exI[of _ "is_semaphor s"]) (simp add: decided_def semaphor_same)
qed

lemma req_run_waits:
  assumes "req_run cb enq cd grow rt r (Suc (Suc (Suc (Suc (Suc n))))) (Waiting tk d alg, s) = Ret x"
    and "alg = selectDecompressionAlgorithm (ir_validDecompressionAlgorithms (rt_handler rt))
      (rq_Headers r ''Content-Encoding'')" and "alg \<noteq> []"
  shows "(case decompressPayload cd grow (rt_handler rt) r d s of (res, s) \<Rightarrow>
      handler_bind (w, s) res (\<lambda>res. decided cb enq r w tk res s)) = served x w \<and> req_status (fst x) \<noteq> None"
proof -
  obtain sem token where rc: "chan_recv (is_semaphor s) = Ret (sem, token)"
    and run: "req_run cb enq cd grow rt r (Suc (Suc (Suc (Suc n))))
      (Holding tk (token \<noteq> None) d alg, s\<lparr>is_semaphor := sem\<rparr>) = Ret x"
    using assms(1) by (auto simp: req_run_next go_bind_Ret_iff)
  obtain out s1 where d: "decompress cd grow d alg (rq_Path r) (ir_decompressionInitialBufferSize (rt_handler rt))
      (s\<lparr>is_semaphor := sem\<rparr>) = (out, s1)" by fastforce
  show ?thesis
  proof (cases out)
    case (Ret res)
    with run d have "req_run cb enq cd grow rt r (Suc (Suc (Suc n))) (Returning tk (token \<noteq> None) res, s1) = Ret x"
      by (simp add: req_run_next)
    from req_run_returns[OF this, of w] show ?thesis
      using rc d Ret assms(3)
      by (cases token) (auto simp: decompressPayload_def Let_def simp flip: assms(2))
  next
    case (Panic m)
    with run d have "x = (Crashed m, s1)" by (simp add: req_run_next req_run_stop)
    with rc d Panic assms(3) show ?thesis
      by (simp add: decompressPayload_def Let_def served_def flip: assms(2))
  next
    case Block
    with run d show ?thesis by (simp add: req_run_next)
  qed
qed

lemma req_run_is_handler:
  assumes "req_run cb enq cd grow rt r 8 (Arrived, s) = Ret x"
  shows "route_handler cb enq cd grow rt r (w, s) = served x w \<and> req_status (fst x) \<noteq> None"
proof -
  obtain b al where al: "ts_allow cb (is_circuitBreaker s) = (b, al)" by fastforce
  let ?d = "rd_data (rq_Body r)" and ?s = "s\<lparr>is_circuitBreaker := b\<rparr>"
  let ?s' = "observeSize (rq_Path r) (int (length ?d)) ?s"
  let ?alg = "selectDecompressionAlgorithm (ir_validDecompressionAlgorithms (rt_handler rt))
    (rq_Headers r ''Content-Encoding'')"
  have run: "req_run cb enq cd grow rt r (Suc (Suc (Suc (Suc (Suc (Suc (Suc (Suc 0)))))))) (Arrived, s) = Ret x"
    using assms by (simp add: numeral_eq_Suc)
  show ?thesis
  proof (cases "\<exists>token. rt_token rt = Some token \<and> header_Get r ''Authorization'' \<noteq> ''Bearer '' @ token")
    case True
    with run have "x = (Answered 401, s)" by (auto simp: req_run_next req_run_stop)
    with True show ?thesis by (auto simp: served_def route_handler_def Auth_def)
  next
    case False
    then have h: "route_handler cb enq cd grow rt r (w, s) = ServeHTTP cb enq cd grow (rt_handler rt) r (w, s)"
      by (auto simp: route_handler_def Auth_def split: option.split)
    from False run have run: "req_run cb enq cd grow rt r (Suc (Suc (Suc (Suc (Suc (Suc (Suc 0))))))) (Allowing, s) = Ret x"
      by (auto simp: req_run_next split: option.splits)
    show ?thesis
    proof (cases al)
      case (Inl err)
      with run al show ?thesis unfolding h
        by (auto simp: req_run_next req_run_stop served_def ServeHTTP_breaker_open)
    next
      case (Inr tk)
      from run al Inr have run: "req_run cb enq cd grow rt r (Suc (Suc (Suc (Suc (Suc (Suc 0)))))) (Reading tk, ?s) = Ret x"
        by (auto simp: req_run_next go_bind_Ret_iff Let_def)
      have serve: "ServeHTTP cb enq cd grow (rt_handler rt) r (w, s) =
        (if rd_end (rq_Body r) \<noteq> None \<and> is_MaxBytesError (the (rd_end (rq_Body r))) then
           ((WriteHeader 413 w, increaseErrorCount ''request_entity_too_large'' (rq_Path r) ?s'), Returned)
         else if rd_end (rq_Body r) \<noteq> None then
           ((WriteHeader 400 w, increaseErrorCount ''error_reading_body'' (rq_Path r) ?s'), Returned)
         else if ?d = [] then
           ((WriteHeader 400 w, increaseErrorCount ''request_without_body'' (rq_Path r) ?s'), Returned)
         else (case decompressPayload cd grow (rt_handler rt) r ?d ?s' of (res, s) \<Rightarrow>
           handler_bind (w, s) res (\<lambda>res. decided cb enq r w tk res s)))"
      proof -
        obtain out s1 where "decompressPayload cd grow (rt_handler rt) r ?d ?s' = (out, s1)" by fastforce
        then show ?thesis
          by (cases out) (auto simp: ServeHTTP_def al Inr Let_def decided_def enqueue_payload_def split: sum.split)
      qed
      consider (early) "rd_end (rq_Body r) \<noteq> None \<or> ?d = []"
        | (plain) "rd_end (rq_Body r) = None" "?d \<noteq> []" "?alg = []"
        | (compressed) "rd_end (rq_Body r) = None" "?d \<noteq> []" "?alg \<noteq> []" by blast
      then show ?thesis
      proof cases
        case early
        with run show ?thesis unfolding h serve
          by (auto simp: req_run_next req_run_stop served_def Let_def split: if_splits)
      next
        case plain
        with run have "req_run cb enq cd grow rt r (Suc (Suc (Suc (Suc (Suc 0))))) (Enqueueing tk ?d, ?s') = Ret x"
          by (simp add: req_run_next Let_def)
        from req_run_enqueues[OF this, of w] plain show ?thesis unfolding h serve
          by (simp add: decompressPayload_def Let_def decided_def)
      next
        case compressed
        with run have "req_run cb enq cd grow rt r (Suc (Suc (Suc (Suc (Suc 0))))) (Waiting tk ?d ?alg, ?s') = Ret x"
          by (simp add: req_run_next Let_def)
        from req_run_waits[OF this refl, of w] compressed show ?thesis unfolding h serve by simp
      qed
    qed
  qed
qed

subsection \<open>All requests of a flow\<close>

text \<open>
  \<open>sv_shared\<close>: the breaker, the entry point and the counters; its semaphore is that of the route that
  moved last.  \<open>sv_sems\<close>: the routes' semaphores.  \<open>sv_reqs\<close>: each request with its route.
\<close>

record ('b, 'n, 'tk) serving =
  sv_shared :: "('b, 'n) ingest_state"
  sv_sems :: "unit gochan list"
  sv_reqs :: "(nat \<times> http_request \<times> 'tk req_phase) list"

definition serving_start :: "route list \<Rightarrow> ('b, 'n) ingest_state \<Rightarrow> ('b, 'n, 'tk) serving" where
  "serving_start rts s = \<lparr>sv_shared = s, sv_sems = map rt_semaphor rts, sv_reqs = []\<rparr>"

definition request_moves ::
  "('b, 'tk) two_step \<Rightarrow> ('n \<Rightarrow> bytes \<Rightarrow> ('n \<times> error option) go) \<Rightarrow> 'w codecs \<Rightarrow> (nat \<Rightarrow> nat) \<Rightarrow>
   route list \<Rightarrow> nat \<Rightarrow> ('b, 'n, 'tk) serving \<Rightarrow> ('b, 'n, 'tk) serving go" where
  "request_moves cb enq cd grow rts i v =
     (case sv_reqs v ! i of (k, r, ph) \<Rightarrow>
        go_bind (req_step cb enq cd grow (rts ! k) r (ph, (sv_shared v)\<lparr>is_semaphor := sv_sems v ! k\<rparr>))
          (\<lambda>(ph', s). Ret (v\<lparr>sv_shared := s, sv_sems := (sv_sems v)[k := is_semaphor s],
                             sv_reqs := (sv_reqs v)[i := (k, r, ph')]\<rparr>)))"

text \<open>\<open>env\<close>: what the flow behind the entry point does in between.\<close>

inductive serve_step ::
  "('b, 'tk) two_step \<Rightarrow> ('n \<Rightarrow> bytes \<Rightarrow> ('n \<times> error option) go) \<Rightarrow> 'w codecs \<Rightarrow> (nat \<Rightarrow> nat) \<Rightarrow>
   route list \<Rightarrow> ('n \<Rightarrow> 'n \<Rightarrow> bool) \<Rightarrow> ('b, 'n, 'tk) serving \<Rightarrow> ('b, 'n, 'tk) serving \<Rightarrow> bool"
  for cb enq cd grow rts env where
  arrives: "k < length rts \<Longrightarrow>
    serve_step cb enq cd grow rts env v (v\<lparr>sv_reqs := sv_reqs v @ [(k, r, Arrived)]\<rparr>)"
| moves: "i < length (sv_reqs v) \<Longrightarrow> request_moves cb enq cd grow rts i v = Ret v' \<Longrightarrow>
    serve_step cb enq cd grow rts env v v'"
| behind: "env (is_entrypoint (sv_shared v)) n \<Longrightarrow>
    serve_step cb enq cd grow rts env v (v\<lparr>sv_shared := (sv_shared v)\<lparr>is_entrypoint := n\<rparr>\<rparr>)"

text \<open>Which requests hold a token of their route, and which have put their payload into the flow.\<close>

fun has_token :: "'tk req_phase \<Rightarrow> bool" where
  "has_token (Holding tk need d alg) = need"
| "has_token (Returning tk need res) = need"
| "has_token _ = False"

fun succeeded :: "'tk req_phase \<Rightarrow> bool" where
  "succeeded (Reporting tk success) = success"
| "succeeded (Answered code) = (code = 200)"
| "succeeded _ = False"

definition token_of :: "nat \<Rightarrow> nat \<times> http_request \<times> 'tk req_phase \<Rightarrow> nat" where
  "token_of k q = (case q of (k', r, ph) \<Rightarrow> if k' = k \<and> has_token ph then 1 else 0)"

definition payload_of :: "'w codecs \<Rightarrow> route \<Rightarrow> http_request \<Rightarrow> bytes" where
  "payload_of cd rt r = (case request_payload cd (rt_handler rt) r of Inl e \<Rightarrow> [] | Inr p \<Rightarrow> p)"

definition put_by :: "'w codecs \<Rightarrow> route list \<Rightarrow> nat \<times> http_request \<times> 'tk req_phase \<Rightarrow> bytes multiset" where
  "put_by cd rts q =
     (case q of (k, r, ph) \<Rightarrow> if succeeded ph then {#payload_of cd (rts ! k) r#} else {#})"

definition holders :: "nat \<Rightarrow> ('b, 'n, 'tk) serving \<Rightarrow> nat" where
  "holders k v = sum_list (map (token_of k) (sv_reqs v))"

definition put_in :: "'w codecs \<Rightarrow> route list \<Rightarrow> ('b, 'n, 'tk) serving \<Rightarrow> bytes multiset" where
  "put_in cd rts v = sum_list (map (put_by cd rts) (sv_reqs v))"

definition all_answered :: "('b, 'n, 'tk) serving \<Rightarrow> bool" where
  "all_answered v \<longleftrightarrow> (\<forall>(k, r, ph) \<in> set (sv_reqs v). req_status ph \<noteq> None)"

subsection \<open>Invariants of a step\<close>

lemma sum_list_map_update:
  fixes f :: "'a \<Rightarrow> 'b :: comm_monoid_add"
  assumes "i < length xs"
  shows "sum_list (map f (xs[i := y])) + f (xs ! i) = sum_list (map f xs) + f y"
  using assms by (induction xs arbitrary: i) (auto split: nat.split simp: ac_simps)

text \<open>What a request knows at each point is what the request says.\<close>

definition may_enqueue :: "'w codecs \<Rightarrow> route \<Rightarrow> http_request \<Rightarrow> bytes \<Rightarrow> bool" where
  "may_enqueue cd rt r p \<longleftrightarrow> rd_end (rq_Body r) = None \<and> request_payload cd (rt_handler rt) r = Inr p"

definition compressed_body :: "route \<Rightarrow> http_request \<Rightarrow> bytes \<Rightarrow> string \<Rightarrow> bool" where
  "compressed_body rt r d alg \<longleftrightarrow>
     rd_end (rq_Body r) = None \<and> d = rd_data (rq_Body r) \<and> alg \<noteq> [] \<and>
     alg = selectDecompressionAlgorithm (ir_validDecompressionAlgorithms (rt_handler rt))
             (rq_Headers r ''Content-Encoding'')"

fun phase_ok :: "'w codecs \<Rightarrow> route \<Rightarrow> http_request \<Rightarrow> 'tk req_phase \<Rightarrow> bool" where
  "phase_ok cd rt r (Waiting tk d alg) \<longleftrightarrow> compressed_body rt r d alg"
| "phase_ok cd rt r (Holding tk need d alg) \<longleftrightarrow> compressed_body rt r d alg"
| "phase_ok cd rt r (Returning tk need res) \<longleftrightarrow>
     rd_end (rq_Body r) = None \<and> res = request_payload cd (rt_handler rt) r"
| "phase_ok cd rt r (Enqueueing tk p) \<longleftrightarrow> may_enqueue cd rt r p"
| "phase_ok cd rt r (Reporting tk success) \<longleftrightarrow> (success \<longrightarrow> (\<exists>p. may_enqueue cd rt r p))"
| "phase_ok cd rt r (Answered code) \<longleftrightarrow>
     code \<in> {200, 400, 401, 413, 500} \<and> (code = 200 \<longrightarrow> (\<exists>p. may_enqueue cd rt r p))"
| "phase_ok cd rt r (Crashed m) \<longleftrightarrow> ir_decompressionInitialBufferSize (rt_handler rt) < 0"
| "phase_ok cd rt r _ \<longleftrightarrow> True"

lemma decompress_Ret:
  assumes "decompress cd grow d alg path n s = (out, s')"
  shows "is_semaphor s' = is_semaphor s \<and> is_entrypoint s' = is_entrypoint s \<and>
    (case out of
       Ret res \<Rightarrow> res = (case NewReader cd \<lparr>cp_Level = [], cp_Type = alg, cp_PreallocSlicePercentage = 0\<rparr>
           (bytes_NewReader d) of
         Inl err \<Rightarrow> Inl err
       | Inr dr \<Rightarrow> (case rd_end dr of
           Some e \<Rightarrow> Inl (Wrapf ''error decompressing data: %w'' e) | None \<Rightarrow> Inr (rd_data dr)))
     | Panic m \<Rightarrow> n < 0 | Block \<Rightarrow> False)"
  using assms
  by (auto simp: decompress_def localReadAll_def readLoop_all increaseDecompressionCount_def
      observeDecompressionTime_def Let_def split: sum.splits option.splits if_splits)

lemma req_step_Returning:
  "req_step cb enq cd grow rt r (Returning tk need res, s) = Ret (ph', s') \<Longrightarrow>
     (if need then chan_send (is_semaphor s) () = Ret (is_semaphor s') else is_semaphor s' = is_semaphor s) \<and>
     is_entrypoint s' = is_entrypoint s \<and>
     ph' = (case res of Inl err \<Rightarrow> Answered 400 | Inr p \<Rightarrow> Enqueueing tk p)"
  by (cases res) (auto simp: go_bind_Ret_iff after_decompression_def split: if_splits)

lemma req_step_phase:
  assumes "req_step cb enq cd grow rt r (ph, s) = Ret (ph', s')" and "phase_ok cd rt r ph"
  shows "phase_ok cd rt r ph'"
proof (cases ph)
  case (Holding tk need d alg)
  obtain out s1 where d: "decompress cd grow d alg (rq_Path r) (ir_decompressionInitialBufferSize (rt_handler rt)) s =
    (out, s1)" by fastforce
  from decompress_Ret[OF d] assms Holding d show ?thesis
    by (cases out) (auto simp: compressed_body_def request_payload_def Let_def)
next
  case (Reading tk)
  with assms show ?thesis
    by (auto simp: Let_def may_enqueue_def compressed_body_def request_payload_def split: if_splits)
next
  case (Returning tk need res)
  with assms req_step_Returning[OF assms(1)[unfolded Returning]] show ?thesis
    by (auto simp: may_enqueue_def split: sum.splits)
next
  case (Enqueueing tk p)
  with assms show ?thesis by (auto simp: go_bind_Ret_iff Let_def)
qed (use assms in \<open>auto simp: go_bind_Ret_iff split: option.splits if_splits sum.splits prod.splits\<close>)

text \<open>What it does to its semaphore, to the data flow, and how far it still has to go.\<close>

definition sem_ok :: "nat \<Rightarrow> unit gochan \<Rightarrow> nat \<Rightarrow> bool" where
  "sem_ok n ch h \<longleftrightarrow>
     (if n = 0 then chan_closed ch \<and> chan_buf ch = [] \<and> h = 0
      else \<not> chan_closed ch \<and> chan_cap ch = n \<and> length (chan_buf ch) + h \<le> n)"

definition tokens_lost :: "nat \<Rightarrow> unit gochan \<Rightarrow> nat \<Rightarrow> nat" where
  "tokens_lost n ch h = n - (length (chan_buf ch) + h)"

definition token_count :: "'tk req_phase \<Rightarrow> nat" where
  "token_count ph = (if has_token ph then 1 else 0)"

fun crashed :: "'tk req_phase \<Rightarrow> bool" where
  "crashed (Crashed m) = True"
| "crashed _ = False"

lemma req_step_semaphor:
  assumes "req_step cb enq cd grow rt r (ph, s) = Ret (ph', s')"
    and "sem_ok n (is_semaphor s) (h + token_count ph)"
  shows "sem_ok n (is_semaphor s') (h + token_count ph') \<and>
    (crashed ph' \<or> tokens_lost n (is_semaphor s') (h + token_count ph') =
       tokens_lost n (is_semaphor s) (h + token_count ph))"
proof (cases ph)
  case (Waiting tk d alg)
  with assms(1) obtain sem token where rc: "chan_recv (is_semaphor s) = Ret (sem, token)"
    and t: "ph' = Holding tk (token \<noteq> None) d alg" "is_semaphor s' = sem" by (auto simp: go_bind_Ret_iff)
  with assms(2) Waiting show ?thesis
    by (cases token) (auto simp: go_ret_iff sem_ok_def token_count_def tokens_lost_def split: if_splits)
next
  case (Holding tk need d alg)
  obtain out s1 where d: "decompress cd grow d alg (rq_Path r) (ir_decompressionInitialBufferSize (rt_handler rt)) s =
    (out, s1)" by fastforce
  from decompress_Ret[OF d] assms Holding d show ?thesis
    by (cases out) (auto simp: sem_ok_def token_count_def tokens_lost_def split: if_splits)
next
  case (Returning tk need res)
  from req_step_Returning[OF assms(1)[unfolded this]] have
    "token_count ph' = 0 \<and> (need \<longrightarrow> chan_send (is_semaphor s) () = Ret (is_semaphor s')) \<and>
      (\<not> need \<longrightarrow> is_semaphor s' = is_semaphor s)"
    by (auto simp: token_count_def split: if_splits sum.splits)
  with assms(2) Returning show ?thesis
    by (cases need) (auto simp: go_ret_iff sem_ok_def token_count_def tokens_lost_def split: if_splits)
qed (use assms in \<open>auto simp: go_bind_Ret_iff Let_def token_count_def
       split: option.splits if_splits sum.splits prod.splits\<close>)

definition put_now :: "'tk req_phase \<Rightarrow> bytes \<Rightarrow> bytes multiset" where
  "put_now ph p = (if succeeded ph then {#p#} else {#})"

lemma req_step_flow:
  assumes "data_flow enq accepted sound"
    and "req_step cb enq cd grow rt r (ph, s) = Ret (ph', s')" and "phase_ok cd rt r ph"
    and "sound (is_entrypoint s)"
  shows "sound (is_entrypoint s') \<and>
    mset (accepted (is_entrypoint s')) + put_now ph (payload_of cd rt r) =
      mset (accepted (is_entrypoint s)) + put_now ph' (payload_of cd rt r)"
proof (cases ph)
  case (Enqueueing tk p)
  with assms(2) obtain n err where e: "enq (is_entrypoint s) p = Ret (n, err)"
    and t: "ph' = Reporting tk (err = None)" "is_entrypoint s' = n" by (auto simp: go_bind_Ret_iff Let_def)
  have "payload_of cd rt r = p" using assms(3) Enqueueing by (simp add: may_enqueue_def payload_of_def)
  moreover have "sound n \<and> accepted n = accepted (is_entrypoint s) @ (if err = None then [p] else [])"
    using data_flow.enq_ok[OF assms(1,4)] data_flow.enq_err[OF assms(1,4)] e by (cases err) auto
  ultimately show ?thesis using t Enqueueing by (auto simp: put_now_def)
next
  case (Holding tk need d alg)
  obtain out s1 where d: "decompress cd grow d alg (rq_Path r) (ir_decompressionInitialBufferSize (rt_handler rt)) s =
    (out, s1)" by fastforce
  from decompress_Ret[OF d] assms Holding d show ?thesis by (cases out) (auto simp: put_now_def)
next
  case (Returning tk need res)
  from req_step_Returning[OF assms(2)[unfolded this]] assms(4) Returning show ?thesis
    by (auto simp: put_now_def split: sum.splits)
qed (use assms in \<open>auto simp: go_bind_Ret_iff Let_def put_now_def
       split: option.splits if_splits sum.splits prod.splits\<close>)

fun steps_left :: "'tk req_phase \<Rightarrow> nat" where
  "steps_left Arrived = 8"
| "steps_left Allowing = 7"
| "steps_left (Reading tk) = 6"
| "steps_left (Waiting tk d alg) = 5"
| "steps_left (Holding tk need d alg) = 4"
| "steps_left (Returning tk need res) = 3"
| "steps_left (Enqueueing tk p) = 2"
| "steps_left (Reporting tk success) = 1"
| "steps_left _ = 0"

lemma req_step_progress:
  assumes "req_step cb enq cd grow rt r (ph, s) = Ret (ph', s')"
  shows "steps_left ph' < steps_left ph"
proof (cases ph)
  case (Returning tk need res)
  from req_step_Returning[OF assms[unfolded this]] Returning show ?thesis by (auto split: sum.splits)
qed (use assms in \<open>auto simp: go_bind_Ret_iff Let_def
       split: option.splits if_splits sum.splits prod.splits go.splits\<close>)

subsection \<open>The invariant of all requests\<close>

text \<open>A flow that is only fed by the requests: what it does by itself accepts nothing.\<close>

locale fed_flow = data_flow enq accepted sound
  for enq :: "'n \<Rightarrow> bytes \<Rightarrow> ('n \<times> error option) go" and accepted :: "'n \<Rightarrow> bytes list" and sound +
  fixes env :: "'n \<Rightarrow> 'n \<Rightarrow> bool"
  assumes env_ok: "sound n \<Longrightarrow> env n n' \<Longrightarrow> sound n' \<and> accepted n' = accepted n"

definition tokens_kept :: "nat \<Rightarrow> route list \<Rightarrow> ('b, 'n, 'tk) serving \<Rightarrow> bool" where
  "tokens_kept n rts v \<longleftrightarrow> (\<forall>k < length rts.
     sem_ok n (sv_sems v ! k) (holders k v) \<and>
     ((\<forall>rt \<in> set rts. 0 \<le> ir_decompressionInitialBufferSize (rt_handler rt)) \<longrightarrow>
        tokens_lost n (sv_sems v ! k) (holders k v) = 0))"

definition requests_ok :: "'w codecs \<Rightarrow> route list \<Rightarrow> ('b, 'n, 'tk) serving \<Rightarrow> bool" where
  "requests_ok cd rts v \<longleftrightarrow>
     (\<forall>(k, r, ph) \<in> set (sv_reqs v). k < length rts \<and> phase_ok cd (rts ! k) r ph)"

lemma requests_ok_nth:
  "requests_ok cd rts v \<Longrightarrow> i < length (sv_reqs v) \<Longrightarrow> sv_reqs v ! i = (k, r, ph) \<Longrightarrow>
     k < length rts \<and> phase_ok cd (rts ! k) r ph"
  unfolding requests_ok_def by (drule bspec, erule nth_mem) simp

context fed_flow
begin

definition serve_inv ::
  "'w codecs \<Rightarrow> route list \<Rightarrow> nat \<Rightarrow> bytes list \<Rightarrow> ('b, 'n, 'tk) serving \<Rightarrow> bool" where
  "serve_inv cd rts n base v \<longleftrightarrow>
     length (sv_sems v) = length rts \<and> requests_ok cd rts v \<and> tokens_kept n rts v \<and>
     sound (is_entrypoint (sv_shared v)) \<and>
     mset (accepted (is_entrypoint (sv_shared v))) = mset base + put_in cd rts v"

lemma request_moves_inv:
  assumes inv: "serve_inv cd rts n base v" and i: "i < length (sv_reqs v)"
    and mv: "request_moves cb enq cd grow rts i v = Ret v'"
  shows "serve_inv cd rts n base v' \<and> length (sv_reqs v') = length (sv_reqs v) \<and>
    sum_list (map (\<lambda>(k, r, ph). steps_left ph) (sv_reqs v')) <
      sum_list (map (\<lambda>(k, r, ph). steps_left ph) (sv_reqs v))"
proof -
  obtain k r ph where q: "sv_reqs v ! i = (k, r, ph)" by (cases "sv_reqs v ! i")
  let ?s = "(sv_shared v)\<lparr>is_semaphor := sv_sems v ! k\<rparr>"
  from mv q obtain ph' s where st: "req_step cb enq cd grow (rts ! k) r (ph, ?s) = Ret (ph', s)"
    and v': "v' = v\<lparr>sv_shared := s, sv_sems := (sv_sems v)[k := is_semaphor s],
      sv_reqs := (sv_reqs v)[i := (k, r, ph')]\<rparr>"
    by (auto simp: request_moves_def go_bind_Ret_iff)
  have ok: "k < length rts" "phase_ok cd (rts ! k) r ph"
    using requests_ok_nth[OF _ i q, of cd rts] inv by (simp_all add: serve_inv_def)
  note ph' = req_step_phase[OF st ok(2)]
  have reqs: "requests_ok cd rts v'"
    using inv ph' ok by (auto simp: serve_inv_def requests_ok_def v' dest!: subsetD[OF set_update_subset_insert])
  have fl: "sound (is_entrypoint s)" "mset (accepted (is_entrypoint s)) + put_now ph (payload_of cd (rts ! k) r) =
      mset (accepted (is_entrypoint (sv_shared v))) + put_now ph' (payload_of cd (rts ! k) r)"
    using req_step_flow[OF data_flow_axioms st ok(2)] inv by (simp_all add: serve_inv_def)
  have "put_in cd rts v' + put_now ph (payload_of cd (rts ! k) r) =
      put_in cd rts v + put_now ph' (payload_of cd (rts ! k) r)"
    using sum_list_map_update[OF i, of "put_by cd rts" "(k, r, ph')"] q
    by (simp add: put_in_def v' put_by_def put_now_def)
  with fl(2) inv have put: "mset (accepted (is_entrypoint s)) = mset base + put_in cd rts v'"
    unfolding serve_inv_def by (metis (no_types, lifting) add.assoc add_right_imp_eq)
  have hold: "holders j v' + (if j = k then token_count ph else 0) =
      holders j v + (if j = k then token_count ph' else 0)" for j
    using sum_list_map_update[OF i, of "token_of j" "(k, r, ph')"] q
    by (auto simp: holders_def v' token_of_def token_count_def split: if_splits)
  have tok: "tokens_kept n rts v'"
    unfolding tokens_kept_def
  proof (intro allI impI)
    fix j assume j: "j < length rts"
    show "sem_ok n (sv_sems v' ! j) (holders j v') \<and>
      ((\<forall>rt \<in> set rts. 0 \<le> ir_decompressionInitialBufferSize (rt_handler rt)) \<longrightarrow>
         tokens_lost n (sv_sems v' ! j) (holders j v') = 0)"
    proof (cases "j = k")
      case True
      define h where "h = holders k v - token_count ph"
      have "token_count ph \<le> holders k v"
        using elem_le_sum_list[of i "map (token_of k) (sv_reqs v)"] i q
        by (simp add: holders_def token_of_def token_count_def)
      then have h: "holders k v = h + token_count ph" "holders k v' = h + token_count ph'"
        using hold[of k] by (simp_all add: h_def)
      have old: "sem_ok n (sv_sems v ! k) (holders k v)"
        "(\<forall>rt \<in> set rts. 0 \<le> ir_decompressionInitialBufferSize (rt_handler rt)) \<longrightarrow>
           tokens_lost n (sv_sems v ! k) (holders k v) = 0"
        using inv ok(1) by (simp_all add: serve_inv_def tokens_kept_def)
      from old(1) h(1) have "sem_ok n (is_semaphor ?s) (h + token_count ph)" by simp
      note sem = req_step_semaphor[OF st this]
      have "crashed ph' \<Longrightarrow> \<not> (\<forall>rt \<in> set rts. 0 \<le> ir_decompressionInitialBufferSize (rt_handler rt))"
        using ph' nth_mem[OF ok(1)] by (cases ph') (auto simp: not_le)
      moreover have "sv_sems v' ! k = is_semaphor s" using inv ok(1) by (simp add: serve_inv_def v')
      ultimately show ?thesis using sem old(2) h True by auto
    next
      case False
      with hold[of j] inv j show ?thesis by (simp add: serve_inv_def tokens_kept_def v')
    qed
  qed
  have "sum_list (map (\<lambda>(k, r, ph). steps_left ph) (sv_reqs v')) + steps_left ph =
      sum_list (map (\<lambda>(k, r, ph). steps_left ph) (sv_reqs v)) + steps_left ph'"
    using sum_list_map_update[OF i, of "\<lambda>(k, r, ph). steps_left ph" "(k, r, ph')"] q by (simp add: v')
  with req_step_progress[OF st] have "sum_list (map (\<lambda>(k, r, ph). steps_left ph) (sv_reqs v')) <
      sum_list (map (\<lambda>(k, r, ph). steps_left ph) (sv_reqs v))" by simp
  with reqs tok fl(1) put inv show ?thesis by (simp add: serve_inv_def v')
qed

lemma serve_inv_step:
  assumes "serve_step cb enq cd grow rts env v v'" and inv: "serve_inv cd rts n base v"
  shows "serve_inv cd rts n base v'"
  using assms(1)
proof cases
  case (arrives k r)
  then have "holders j v' = holders j v" "put_in cd rts v' = put_in cd rts v" for j
    by (simp_all add: holders_def put_in_def token_of_def put_by_def)
  with inv arrives show ?thesis by (auto simp: serve_inv_def requests_ok_def tokens_kept_def)
next
  case (moves i)
  with request_moves_inv[OF inv] show ?thesis by blast
next
  case (behind n')
  then have "holders j v' = holders j v" "put_in cd rts v' = put_in cd rts v" for j
    by (simp_all add: holders_def put_in_def)
  with inv behind env_ok show ?thesis by (auto simp: serve_inv_def requests_ok_def tokens_kept_def)
qed

lemma serve_inv_reach:
  "(serve_step cb enq cd grow rts env)\<^sup>*\<^sup>* v v' \<Longrightarrow> serve_inv cd rts n base v \<Longrightarrow> serve_inv cd rts n base v'"
  by (induction rule: rtranclp_induct) (auto intro: serve_inv_step)

lemma serve_inv_start:
  assumes "\<forall>rt \<in> set rts. newSemaphor (int n) = Ret (rt_semaphor rt)" and "sound (is_entrypoint s)"
  shows "serve_inv cd rts n (accepted (is_entrypoint s)) (serving_start rts s)"
proof -
  have "sem_ok n (rt_semaphor (rts ! k)) 0 \<and> tokens_lost n (rt_semaphor (rts ! k)) 0 = 0" if "k < length rts" for k
  proof -
    have "newSemaphor (int n) = Ret (rt_semaphor (rts ! k))" using assms(1) that by simp
    then have "rt_semaphor (rts ! k) = (if n = 0 then \<lparr>chan_cap = 0, chan_buf = [], chan_closed = True\<rparr>
        else \<lparr>chan_cap = n, chan_buf = replicate n (), chan_closed = False\<rparr>)"
      by (simp add: newSemaphor_cases split: if_splits)
    then show ?thesis by (simp add: sem_ok_def tokens_lost_def)
  qed
  with assms(2) show ?thesis
    by (simp add: serve_inv_def serving_start_def requests_ok_def tokens_kept_def holders_def put_in_def)
qed

subsection \<open>Requests are answered\<close>

text \<open>Only the wait for a token can hold a request back.\<close>

lemma req_step_possible:
  assumes "req_status ph = None" and "sound (is_entrypoint s)" and "sem_ok n (is_semaphor s) (h + token_count ph)"
    and "\<And>tk d alg. ph = Waiting tk d alg \<Longrightarrow> chan_buf (is_semaphor s) \<noteq> [] \<or> chan_closed (is_semaphor s)"
  shows "go_returns (req_step cb enq cd grow rt r (ph, s))"
proof (cases ph)
  case (Waiting tk d alg)
  with assms(4) show ?thesis by (auto simp: chan_recv_def split: list.split)
next
  case (Holding tk need d alg)
  obtain out s1 where d: "decompress cd grow d alg (rq_Path r) (ir_decompressionInitialBufferSize (rt_handler rt)) s =
    (out, s1)" by fastforce
  from decompress_Ret[OF d] Holding d show ?thesis by (cases out) auto
next
  case (Returning tk need res)
  with assms(3) show ?thesis
    by (auto simp: sem_ok_def token_count_def chan_send_def split: if_splits)
next
  case (Enqueueing tk p)
  with enq_returns[OF assms(2), of p] show ?thesis by (auto simp: go_returns_iff Let_def)
qed (use assms(1) in \<open>auto simp: Let_def\<close>)

lemma request_can_move:
  assumes inv: "serve_inv cd rts n base v" and i: "i < length (sv_reqs v)" "sv_reqs v ! i = (k, r, ph)"
    and "req_status ph = None"
    and "\<And>tk d alg. ph = Waiting tk d alg \<Longrightarrow> chan_buf (sv_sems v ! k) \<noteq> [] \<or> chan_closed (sv_sems v ! k)"
  shows "go_returns (request_moves cb enq cd grow rts i v)"
proof -
  have k: "k < length rts" using requests_ok_nth[OF _ i, of cd rts] inv by (simp add: serve_inv_def)
  let ?s = "(sv_shared v)\<lparr>is_semaphor := sv_sems v ! k\<rparr>"
  have "token_count ph \<le> holders k v"
    using elem_le_sum_list[of i "map (token_of k) (sv_reqs v)"] i
    by (simp add: holders_def token_of_def token_count_def)
  then obtain h where "holders k v = h + token_count ph" by (metis add.commute le_Suc_ex)
  moreover have "sem_ok n (sv_sems v ! k) (holders k v)" "sound (is_entrypoint (sv_shared v))"
    using inv k by (simp_all add: serve_inv_def tokens_kept_def)
  ultimately have "go_returns (req_step cb enq cd grow (rts ! k) r (ph, ?s))"
    using assms(4,5) by (intro req_step_possible[of ph ?s n h]) simp_all
  with i(2) show ?thesis by (auto simp: request_moves_def go_returns_iff)
qed

lemma holder_exists:
  assumes "holders k v \<noteq> 0"
  obtains i r ph where "i < length (sv_reqs v)" "sv_reqs v ! i = (k, r, ph)" "has_token ph"
proof -
  from assms obtain q where "q \<in> set (sv_reqs v)" "token_of k q \<noteq> 0" by (auto simp: holders_def)
  then show thesis
    using that by (auto simp: token_of_def in_set_conv_nth split: if_splits prod.splits)
qed

lemma requests_not_stuck:
  assumes inv: "serve_inv cd rts n base v"
    and buf: "\<forall>rt \<in> set rts. 0 \<le> ir_decompressionInitialBufferSize (rt_handler rt)"
    and q: "(k, r, ph) \<in> set (sv_reqs v)" "req_status ph = None"
  shows "\<exists>i v'. i < length (sv_reqs v) \<and> request_moves cb enq cd grow rts i v = Ret v'"
proof -
  obtain i where i: "i < length (sv_reqs v)" "sv_reqs v ! i = (k, r, ph)" using q(1) by (auto simp: in_set_conv_nth)
  show ?thesis
  proof (cases "chan_buf (sv_sems v ! k) \<noteq> [] \<or> chan_closed (sv_sems v ! k)")
    case True
    from request_can_move[OF inv i q(2)] True i(1) show ?thesis by (auto simp: go_returns_iff)
  next
    case False
    have "k < length rts" using requests_ok_nth[OF _ i, of cd rts] inv by (simp add: serve_inv_def)
    with inv buf have "sem_ok n (sv_sems v ! k) (holders k v)" "tokens_lost n (sv_sems v ! k) (holders k v) = 0"
      by (simp_all add: serve_inv_def tokens_kept_def)
    with False have "holders k v \<noteq> 0" by (auto simp: sem_ok_def tokens_lost_def split: if_splits)
    then obtain j r' ph' where j: "j < length (sv_reqs v)" "sv_reqs v ! j = (k, r', ph')" "has_token ph'"
      by (rule holder_exists)
    then have "req_status ph' = None" by (cases ph') simp_all
    moreover have "ph' \<noteq> Waiting tk d alg" for tk d alg using j(3) by auto
    ultimately show ?thesis using request_can_move[OF inv j(1,2)] j(1) by (auto simp: go_returns_iff)
  qed
qed

lemma requests_can_end:
  assumes "serve_inv cd rts n base v"
    and buf: "\<forall>rt \<in> set rts. 0 \<le> ir_decompressionInitialBufferSize (rt_handler rt)"
  shows "\<exists>v'. (serve_step cb enq cd grow rts env)\<^sup>*\<^sup>* v v' \<and> all_answered v' \<and>
    length (sv_reqs v') = length (sv_reqs v)"
  using assms(1)
proof (induction "sum_list (map (\<lambda>(k, r, ph). steps_left ph) (sv_reqs v))" arbitrary: v rule: less_induct)
  case less
  show ?case
  proof (cases "all_answered v")
    case False
    then obtain k r ph where "(k, r, ph) \<in> set (sv_reqs v)" "req_status ph = None"
      by (auto simp: all_answered_def)
    from requests_not_stuck[OF less.prems buf this] obtain i v' where
      i: "i < length (sv_reqs v)" "request_moves cb enq cd grow rts i v = Ret v'" by blast
    note m = request_moves_inv[OF less.prems i]
    from less.hyps[of v'] m obtain u where
      "(serve_step cb enq cd grow rts env)\<^sup>*\<^sup>* v' u" "all_answered u" "length (sv_reqs u) = length (sv_reqs v')"
      by blast
    with m serve_step.moves[OF i] show ?thesis by (metis converse_rtranclp_into_rtranclp)
  qed blast
qed

end

interpretation uploader_fed: fed_flow "stage_enqueue flow_uploader_ops" st_accepted fu.up.stage_inv
    "\<lambda>s t. stage_reach flow_uploader_ops s t \<and> st_accepted t = st_accepted s"
  unfolding flow_uploader_ops_def
  by (intro fed_flow.intro fu.up.stage_is_data_flow fed_flow_axioms.intro)
     (auto intro: fu.up.stage_inv_reach)

text \<open>The routes of a flow, as the API registers them.\<close>

lemma flowRoutes_made:
  assumes "flowRoutes version flw = Ret rts"
  shows "0 \<le> if_DecompressionMaxConcurrency flw \<and> length rts = 2 \<and>
    (\<forall>rt \<in> set rts. newSemaphor (int (nat (if_DecompressionMaxConcurrency flw))) = Ret (rt_semaphor rt) \<and>
       ir_decompressionInitialBufferSize (rt_handler rt) = if_DecompressionInitialBufferSizeBytes flw)"
proof -
  from assms obtain sem where "newSemaphor (if_DecompressionMaxConcurrency flw) = Ret sem"
    by (auto simp: flowRoutes_def newIngestionRoute_def go_ret_iff Let_def)
  moreover from this have "0 \<le> if_DecompressionMaxConcurrency flw"
    by (auto simp: newSemaphor_cases split: if_splits)
  ultimately show ?thesis using assms
    by (auto simp: flowRoutes_def newIngestionRoute_def go_ret_iff Let_def)
qed

lemma serving_reach_inv:
  assumes "fed_flow enq accepted sound env" and "flowRoutes version flw = Ret rts"
    and "sound (is_entrypoint s)" and "(serve_step cb enq cd grow rts env)\<^sup>*\<^sup>* (serving_start rts s) v"
  shows "fed_flow.serve_inv accepted sound cd rts (nat (if_DecompressionMaxConcurrency flw))
    (accepted (is_entrypoint s)) v"
  using flowRoutes_made[OF assms(2)]
  by (intro fed_flow.serve_inv_reach[OF assms(1,4)] fed_flow.serve_inv_start[OF assms(1)] assms(3)) auto

text \<open>A schedule: which request moves next.\<close>

fun requests_run where
  "requests_run cb enq cd grow rts [] v = Ret v"
| "requests_run cb enq cd grow rts (i # is) v =
     (if i < length (sv_reqs v)
      then go_bind (request_moves cb enq cd grow rts i v) (requests_run cb enq cd grow rts is) else Block)"

lemma requests_run_reach:
  "requests_run cb enq cd grow rts is v = Ret v' \<Longrightarrow> (serve_step cb enq cd grow rts env)\<^sup>*\<^sup>* v v'"
  by (induction "is" arbitrary: v)
     (auto simp: go_bind_Ret_iff split: if_splits intro: converse_rtranclp_into_rtranclp serve_step.moves)

lemma requests_arrive:
  assumes "sv_reqs v = []" and "\<forall>(k, r, ph) \<in> set qs. k < length rts \<and> ph = Arrived"
  shows "(serve_step cb enq cd grow rts env)\<^sup>*\<^sup>* v (v\<lparr>sv_reqs := qs\<rparr>)"
  using assms(2)
proof (induction qs rule: rev_induct)
  case Nil
  have "v\<lparr>sv_reqs := []\<rparr> = v" using assms(1) by (cases v) simp
  then show ?case by simp
next
  case (snoc q qs)
  obtain k r where q: "q = (k, r, Arrived)" "k < length rts" using snoc.prems by (cases q) auto
  have "serve_step cb enq cd grow rts env (v\<lparr>sv_reqs := qs\<rparr>) (v\<lparr>sv_reqs := qs @ [q]\<rparr>)"
    using serve_step.arrives[OF q(2), of cb enq cd grow env "v\<lparr>sv_reqs := qs\<rparr>" r] by (simp add: q(1))
  moreover have "(serve_step cb enq cd grow rts env)\<^sup>*\<^sup>* v (v\<lparr>sv_reqs := qs\<rparr>)"
    using snoc by simp
  ultimately show ?case by (rule rtranclp.rtrancl_into_rtrancl[rotated])
qed

subsection \<open>Properties\<close>

text \<open>
  C11 (equivalence): a request whose goroutine runs alone does, step by step, what the handler with all
  its middlewares does at once: it ends in the same state, and the client gets the same status, 500
  when the handler panics.
\<close>

theorem requests_run_the_handler:
  assumes "req_run cb enq cd grow rt
      (if 0 < api_sizeLimit a then r\<lparr>rq_Body := requestSize (api_sizeLimit a) (rq_Body r)\<rparr> else r) 8
      (Arrived, ob_inner ob) = Ret (ph, s)"
  shows "\<exists>w ob'. serve_ingestion requestSize cb enq cd grow a rt r (new_writer, ob) = ((w, ob'), Returned) \<and>
    req_status ph = Some (final_status w) \<and> ob_inner ob' = s"
proof -
  let ?r = "if 0 < api_sizeLimit a then r\<lparr>rq_Body := requestSize (api_sizeLimit a) (rq_Body r)\<rparr> else r"
  have h: "route_handler cb enq cd grow rt ?r (w, ob_inner ob) = served (ph, s) w" and "req_status ph \<noteq> None" for w
    using req_run_is_handler[OF assms, of w] by simp_all
  then consider code where "ph = Answered code" | m where "ph = Crashed m" by (cases ph) auto
  then show ?thesis
  proof cases
    case 1
    have "answers (route_handler cb enq cd grow rt) ?r (ob_inner ob) code 0 s"
      by (rule answers_WriteHeader) (simp add: h 1 served_def)
    from default_middlewares_answers[where r = r and ob = ob and requestSize = requestSize and
        sizeLimit = "api_sizeLimit a", OF this]
    show ?thesis unfolding serve_ingestion_def 1 by auto
  next
    case 2
    from h[of "push_wrapper (push_wrapper (push_wrapper new_writer))"] 2 show ?thesis
      unfolding serve_ingestion_def
      by (simp add: served_def default_middlewares_def limit_body_def LoggingMiddleware_def
          TracingMiddleware_def MetricsMiddleware_def Recoverer_def inner_handler_def pop_wrapper_def Let_def
          new_writer_def final_status_def WriteHeader_def resp_WriteHeader_def push_wrapper_def)
  qed
qed

lemma requests_run_the_handler_witness:
  "\<exists>w ob'. serve_ingestion (\<lambda>_ b. b) dummy_two_step (\<lambda>n d. Ret (n @ [d], None)) framed_codecs id
      \<lparr>api_sizeLimit = 0, api_addr = [], api_ingestion = [], api_operational = [] :: (string \<times> string \<times> unit operational_handler) list\<rparr>
      \<lparr>rt_method = ''POST'', rt_path = [], rt_token = None, rt_flow = ''f'',
        rt_semaphor = \<lparr>chan_cap = 0, chan_buf = [], chan_closed = True\<rparr>,
        rt_handler = \<lparr>ir_validDecompressionAlgorithms = [], ir_decompressionInitialBufferSize = 512\<rparr>\<rparr>
      (sample_post [1]) (new_writer, no_observations (sample_state () [])) = ((w, ob'), Returned) \<and>
    final_status w = 200 \<and> is_entrypoint (ob_inner ob') = [[1]]"
proof -
  let ?a = "\<lparr>api_sizeLimit = 0, api_addr = [], api_ingestion = [], api_operational = [] :: (string \<times> string \<times> unit operational_handler) list\<rparr>"
  let ?rt = "\<lparr>rt_method = ''POST'', rt_path = [], rt_token = None, rt_flow = ''f'',
    rt_semaphor = \<lparr>chan_cap = 0, chan_buf = [], chan_closed = True\<rparr>,
    rt_handler = \<lparr>ir_validDecompressionAlgorithms = [], ir_decompressionInitialBufferSize = 512\<rparr>\<rparr>"
  let ?ob = "no_observations (sample_state () [])"
  obtain s where s: "req_run dummy_two_step (\<lambda>n d. Ret (n @ [d], None)) framed_codecs id ?rt (sample_post [1])
      8 (Arrived, ob_inner ?ob) = Ret (Answered 200, s)" "is_entrypoint s = [[1]]"
    by (simp add: numeral_eq_Suc req_run.simps dummy_two_step_def sample_post_def sample_request_def rd_data_def
        selectDecompressionAlgorithm_def no_observations_def sample_state_def observeSize_def Let_def)
  from requests_run_the_handler[where a = ?a and r = "sample_post [1]" and requestSize = "\<lambda>_ b. b" and
      ob = ?ob and ph = "Answered 200" and s = s and rt = ?rt and cd = framed_codecs and grow = id and
      cb = dummy_two_step and enq = "\<lambda>n d. Ret (n @ [d], None)"] s
  show ?thesis by auto
qed

text \<open>
  C9 (invariant): requests of both routes of a flow, on any number of goroutines and in any
  interleaving with each other and with the flow behind them.  At every moment the flow has accepted
  exactly one payload for each request that has got through to \<open>Enqueue\<close> successfully, and nothing
  else; a request that is answered 200 is one of these, with a body that was read to its end and
  decompressed; and every answer is 200, 400, 401, 413 or 500.
\<close>

theorem requests_account_for_the_data:
  assumes "fed_flow enq accepted sound env" and "flowRoutes version flw = Ret rts"
    and "sound (is_entrypoint s)" and "(serve_step cb enq cd grow rts env)\<^sup>*\<^sup>* (serving_start rts s) v"
  shows "mset (accepted (is_entrypoint (sv_shared v))) =
      mset (accepted (is_entrypoint s)) + put_in cd rts v \<and>
    (\<forall>(k, r, ph) \<in> set (sv_reqs v). k < length rts \<and>
       (ph = Answered 200 \<longrightarrow> rd_end (rq_Body r) = None \<and>
          (\<exists>p. request_payload cd (rt_handler (rts ! k)) r = Inr p \<and> p \<in># put_in cd rts v)) \<and>
       (\<forall>c. req_status ph = Some c \<longrightarrow> c \<in> {200, 400, 401, 413, 500}))"
proof (intro conjI)
  note inv = serving_reach_inv[OF assms]
  show "mset (accepted (is_entrypoint (sv_shared v))) = mset (accepted (is_entrypoint s)) + put_in cd rts v"
    using inv by (simp add: fed_flow.serve_inv_def[OF assms(1)])
  have ok: "requests_ok cd rts v" using inv by (simp add: fed_flow.serve_inv_def[OF assms(1)])
  have "k < length rts \<and> (ph = Answered 200 \<longrightarrow> rd_end (rq_Body r) = None \<and>
      (\<exists>p. request_payload cd (rt_handler (rts ! k)) r = Inr p \<and> p \<in># put_in cd rts v)) \<and>
      (\<forall>c. req_status ph = Some c \<longrightarrow> c \<in> {200, 400, 401, 413, 500})"
    if q: "(k, r, ph) \<in> set (sv_reqs v)" for k r ph
  proof -
    from ok q have "k < length rts" "phase_ok cd (rts ! k) r ph" by (auto simp: requests_ok_def)
    moreover have "p \<in># put_in cd rts v"
      if "ph = Answered 200" "request_payload cd (rt_handler (rts ! k)) r = Inr p" for p
    proof -
      have "p \<in># put_by cd rts (k, r, ph)" using that by (simp add: put_by_def payload_of_def)
      with q show ?thesis by (force simp: put_in_def)
    qed
    ultimately show ?thesis by (cases ph) (auto simp: may_enqueue_def)
  qed
  then show "\<forall>(k, r, ph) \<in> set (sv_reqs v). k < length rts \<and>
       (ph = Answered 200 \<longrightarrow> rd_end (rq_Body r) = None \<and>
          (\<exists>p. request_payload cd (rt_handler (rts ! k)) r = Inr p \<and> p \<in># put_in cd rts v)) \<and>
       (\<forall>c. req_status ph = Some c \<longrightarrow> c \<in> {200, 400, 401, 413, 500})" by blast
qed

definition open_flow :: ingest_flow where
  "open_flow = \<lparr>if_Name = ''f'', if_Token = [], if_DecompressionAlgorithms = [''gzip''],
     if_DecompressionMaxConcurrency = 1, if_DecompressionInitialBufferSizeBytes = 512\<rparr>"

definition open_routes :: "route list" where
  "open_routes = map (\<lambda>p. \<lparr>rt_method = ''POST'', rt_path = p, rt_token = None, rt_flow = ''f'',
     rt_semaphor = \<lparr>chan_cap = 1, chan_buf = [()], chan_closed = False\<rparr>,
     rt_handler = \<lparr>ir_validDecompressionAlgorithms = [''gzip''], ir_decompressionInitialBufferSize = 512\<rparr>\<rparr>)
     [''/f/async_ingestion'', ''/v1/f/async_ingestion'']"

lemma open_routes_made: "flowRoutes apiVersion open_flow = Ret open_routes"
  by (simp add: flowRoutes_def newIngestionRoute_def newSemaphor_cases open_flow_def open_routes_def
      apiVersion_def Let_def)

definition open_state :: "(unit, up_stage) ingest_state" where
  "open_state = sample_state () (sample_uploader 2)"

lemma open_state_sound: "fu.up.stage_inv (is_entrypoint open_state)"
  by (simp add: open_state_def sample_state_def sample_uploader_inv)

definition sample_serving :: "(unit, up_stage, unit) serving" where
  "sample_serving = (serving_start open_routes open_state)\<lparr>sv_reqs := [(1, sample_post [1, 2], Arrived)]\<rparr>"

lemma sample_serving_reached:
  "(serve_step cb enq cd grow open_routes env)\<^sup>*\<^sup>* (serving_start open_routes open_state) sample_serving"
  unfolding sample_serving_def
  by (rule requests_arrive) (simp_all add: serving_start_def open_routes_def)

lemma sample_serving_run:
  "\<exists>v. requests_run dummy_two_step (stage_enqueue flow_uploader_ops) framed_codecs id open_routes
     [0, 0, 0, 0, 0] sample_serving = Ret v \<and> sv_reqs v = [(1, sample_post [1, 2], Answered 200)]"
  by (simp add: sample_serving_def serving_start_def open_routes_def open_state_def request_moves_def
      sample_post_def sample_request_def sample_state_def dummy_two_step_def observeSize_def Let_def
      selectDecompressionAlgorithm_def rd_data_def stage_enqueue_def flow_uploader_ops_def uploader_ops_def
      sample_uploader_def stage_start_def startRun_uploader_def Enqueue_uploader_def chan_try_send_def
      updateEnqueuedItemsMetric_uploader_def)

lemma requests_account_for_the_data_witness:
  "\<exists>v. (serve_step dummy_two_step (stage_enqueue flow_uploader_ops) framed_codecs id open_routes
       (\<lambda>s t. stage_reach flow_uploader_ops s t \<and> st_accepted t = st_accepted s))\<^sup>*\<^sup>*
     (serving_start open_routes open_state) v \<and>
     sv_reqs v = [(1, sample_post [1, 2], Answered 200)] \<and>
     mset (st_accepted (is_entrypoint (sv_shared v))) = {#[1, 2]#}"
proof -
  obtain v where v: "requests_run dummy_two_step (stage_enqueue flow_uploader_ops) framed_codecs id open_routes
      [0, 0, 0, 0, 0] sample_serving = Ret v" "sv_reqs v = [(1, sample_post [1, 2], Answered 200)]"
    using sample_serving_run by blast
  note r = rtranclp_trans[OF sample_serving_reached requests_run_reach[OF v(1)]]
  have "request_payload framed_codecs (rt_handler (open_routes ! 1)) (sample_post [1, 2]) = Inr [1, 2]"
    by (simp add: request_payload_def open_routes_def selectDecompressionAlgorithm_def sample_post_def
        sample_request_def rd_data_def)
  then have "put_in framed_codecs open_routes v = {#[1, 2]#}"
    by (simp add: put_in_def put_by_def payload_of_def v(2))
  moreover have "st_accepted (is_entrypoint open_state) = []"
    by (simp add: open_state_def sample_state_def sample_uploader_def stage_start_def)
  ultimately show ?thesis
    using requests_account_for_the_data[OF uploader_fed.fed_flow_axioms open_routes_made open_state_sound r]
      r v(2) by (intro exI[of _ v]) simp
qed





end
