(* ===== verification/Whole_Service.thy ===== *)
theory Whole_Service
  imports Whole_Flow Serving
begin

text \<open>
  The requests in front of a whole flow: the entry point of both routes is the \<open>Enqueue\<close> of the
  flow's accumulator, and what happens behind it is the machine of the theory Whole_Flow.
\<close>

subsection \<open>The accumulator as entry point\<close>

fun acc_enqueue ::
  "('w \<Rightarrow> bytes \<Rightarrow> ('w \<times> error option) go) \<Rightarrow> ('w \<Rightarrow> 'w) \<Rightarrow> ('w \<Rightarrow> 'w \<Rightarrow> bool) \<Rightarrow>
   'w acc_stage \<Rightarrow> bytes \<Rightarrow> ('w acc_stage \<times> error option) go" where
  "acc_enqueue exec rest env (SizeStage s) d =
     go_bind (stage_enqueue (by_size_ops exec rest env) s d) (\<lambda>(s, err). Ret (SizeStage s, err))"
| "acc_enqueue exec rest env (TimeStage s) d =
     go_bind (stage_enqueue (by_time_ops exec rest env) s d) (\<lambda>(s, err). Ret (TimeStage s, err))"

lemma acc_enqueue_reach: "acc_enqueue exec rest env s d = Ret (t, err) \<Longrightarrow> acc_reach exec rest env s t"
  by (cases s) (auto simp: go_bind_Ret_iff intro!: stage_reach.step[OF stage_reach.start] stage_enqueue_step)

abbreviation flow_enqueue where
  "flow_enqueue execute pass wk turn \<equiv>
     acc_enqueue (breaker_enqueue execute pipe_enqueue) (pipe_rest pass turn) (pipe_moves wk)"

text \<open>What the flow does between two enqueueings.\<close>

definition flow_behind where
  "flow_behind execute pass wk turn s t \<longleftrightarrow>
     flow_reach execute pass wk turn s t \<and> acc_accepted t = acc_accepted s"

context accumulating
begin

lemma acc_enqueue_flow: "data_flow (acc_enqueue exec rest env) acc_accepted acc_inv"
proof
  fix s d assume i: "acc_inv s"
  show "go_returns (acc_enqueue exec rest env s d)"
  proof (cases s)
    case (SizeStage u)
    with i sz.flow.enq_returns[of u d] show ?thesis by (auto simp: acc_inv_def go_returns_iff)
  next
    case (TimeStage u)
    with i tm.flow.enq_returns[of u d] show ?thesis by (auto simp: acc_inv_def go_returns_iff)
  qed
next
  fix s d t assume i: "acc_inv s" and r: "acc_enqueue exec rest env s d = Ret (t, None)"
  show "acc_inv t \<and> acc_accepted t = acc_accepted s @ [d]"
  proof (cases s)
    case (SizeStage u)
    with r obtain u' where "stage_enqueue (by_size_ops exec rest env) u d = Ret (u', None)" "t = SizeStage u'"
      by (auto simp: go_bind_Ret_iff)
    with i SizeStage sz.flow.enq_ok[OF _ this(1)] show ?thesis by (simp add: acc_inv_def)
  next
    case (TimeStage u)
    with r obtain u' where "stage_enqueue (by_time_ops exec rest env) u d = Ret (u', None)" "t = TimeStage u'"
      by (auto simp: go_bind_Ret_iff)
    with i TimeStage tm.flow.enq_ok[OF _ this(1)] show ?thesis by (simp add: acc_inv_def)
  qed
next
  fix s d t e assume i: "acc_inv s" and r: "acc_enqueue exec rest env s d = Ret (t, Some e)"
  show "acc_inv t \<and> acc_accepted t = acc_accepted s"
  proof (cases s)
    case (SizeStage u)
    with r obtain u' where "stage_enqueue (by_size_ops exec rest env) u d = Ret (u', Some e)" "t = SizeStage u'"
      by (auto simp: go_bind_Ret_iff)
    with i SizeStage sz.flow.enq_err[OF _ this(1)] show ?thesis by (simp add: acc_inv_def)
  next
    case (TimeStage u)
    with r obtain u' where "stage_enqueue (by_time_ops exec rest env) u d = Ret (u', Some e)" "t = TimeStage u'"
      by (auto simp: go_bind_Ret_iff)
    with i TimeStage tm.flow.enq_err[OF _ this(1)] show ?thesis by (simp add: acc_inv_def)
  qed
qed

end

text \<open>So the requests feed the flow, and keep it reachable from its start.\<close>

context whole_flow
begin

lemma flow_is_fed:
  assumes "accumulator_new L sep A" and "pipe_good wk inflight x"
  shows "fed_flow (flow_enqueue execute pass wk turn) acc_accepted
    (\<lambda>s. flow_reach execute pass wk turn (acc_start A (cb, x)) s) (flow_behind execute pass wk turn)"
proof -
  note df = wa.acc_enqueue_flow[of "st_accepted (fst x)" L sep]
  have inv: "wa.acc_inv (st_accepted (fst x)) L sep s"
    if "flow_reach execute pass wk turn (acc_start A (cb, x)) s" for s
    by (rule flow_inv[OF assms that])
  show ?thesis
  proof
    fix s d assume "flow_reach execute pass wk turn (acc_start A (cb, x)) s"
    then show "go_returns (flow_enqueue execute pass wk turn s d)" by (intro data_flow.enq_returns[OF df] inv)
  next
    fix s d t assume a: "flow_reach execute pass wk turn (acc_start A (cb, x)) s"
      "flow_enqueue execute pass wk turn s d = Ret (t, None)"
    with data_flow.enq_ok[OF df inv] acc_reach_trans[OF acc_enqueue_reach[OF a(2)]]
    show "flow_reach execute pass wk turn (acc_start A (cb, x)) t \<and> acc_accepted t = acc_accepted s @ [d]"
      by blast
  next
    fix s d t e assume a: "flow_reach execute pass wk turn (acc_start A (cb, x)) s"
      "flow_enqueue execute pass wk turn s d = Ret (t, Some e)"
    with data_flow.enq_err[OF df inv] acc_reach_trans[OF acc_enqueue_reach[OF a(2)]]
    show "flow_reach execute pass wk turn (acc_start A (cb, x)) t \<and> acc_accepted t = acc_accepted s"
      by blast
  next
    fix s t assume "flow_reach execute pass wk turn (acc_start A (cb, x)) s" "flow_behind execute pass wk turn s t"
    then show "flow_reach execute pass wk turn (acc_start A (cb, x)) t \<and> acc_accepted t = acc_accepted s"
      by (auto simp: flow_behind_def intro: acc_reach_trans)
  qed
qed

end

lemma requests_keep_flow:
  assumes "circuit_breaker execute" and "turn_moves wk turn"
    and "accumulator_new L sep A" and "pipe_good wk inflight x"
    and "flowRoutes version flw = Ret rts" and "is_entrypoint s0 = acc_start A (cb, x)"
    and "(serve_step ts (flow_enqueue execute pass wk turn) cd grow rts (flow_behind execute pass wk turn))\<^sup>*\<^sup>*
      (serving_start rts s0) v"
  shows "flow_reach execute pass wk turn (acc_start A (cb, x)) (is_entrypoint (sv_shared v))"
    and "mset (acc_accepted (is_entrypoint (sv_shared v))) = put_in cd rts v"
proof -
  note fed = whole_flow.flow_is_fed[OF whole_flow_of[OF assms(1,2)] assms(3,4), of pass cb]
  have "flow_reach execute pass wk turn (acc_start A (cb, x)) (is_entrypoint s0)"
    unfolding assms(6) by (cases A) (auto intro: stage_reach.intros)
  note inv = serving_reach_inv[OF fed assms(5) this assms(7)]
  have "acc_accepted (is_entrypoint s0) = []"
    unfolding assms(6) by (cases A) (simp_all add: stage_start_def)
  with inv show "flow_reach execute pass wk turn (acc_start A (cb, x)) (is_entrypoint (sv_shared v))"
    "mset (acc_accepted (is_entrypoint (sv_shared v))) = put_in cd rts v"
    unfolding fed_flow.serve_inv_def[OF fed] by simp_all
qed

text \<open>From the requests to the storages.\<close>

lemma requests_to_storages:
  assumes "circuit_breaker execute" and "turn_moves wk turn"
    and "accumulator_new L sep A" and "pipe_good wk inflight x" and "st_accepted (fst x) = []"
    and "flowRoutes version flw = Ret rts" and "is_entrypoint s0 = acc_start A (cb, x)"
    and "(serve_step ts (flow_enqueue execute pass wk turn) cd grow rts (flow_behind execute pass wk turn))\<^sup>*\<^sup>*
      (serving_start rts s0) v"
    and "t = is_entrypoint (sv_shared v)" and "acc_phase t = Finished"
    and "pipe_reach wk (snd (acc_world t)) (s, p)"
    and "st_accepted s = st_accepted (fst (snd (acc_world t)))" and "all_ended p"
  shows "mset (acc_accepted t) = put_in cd rts v \<and>
    (\<exists>gs. concat gs = filter (\<lambda>d. d \<noteq> []) (acc_accepted t) \<and>
    (\<forall>gr \<in> set gs. within_limit L (int (length sep)) gr) \<and>
    map wu_Data (up_units (st_world s)) = map (join_bytes sep) gs \<and>
    (\<forall>k < length (wk_destinations wk).
       mset (upload_calls k p) = mset (started wk (up_units (st_world s))) \<and>
       mset (notify_calls k p) = mset (stored_at k p)))"
proof -
  note wf = whole_flow_of[OF assms(1,2), of inflight]
  note r = requests_keep_flow[OF assms(1-4,6-8), folded assms(9)]
  obtain gs where
    "timed_packing L (int (length sep)) (acc_accepted t) (gs, [])"
    "map wu_Data (up_units (st_world s)) = map (join_bytes sep) gs"
    "\<forall>k < length (wk_destinations wk).
       mset (upload_calls k p) = mset (started wk (up_units (st_world s))) \<and>
       mset (notify_calls k p) = mset (stored_at k p)"
    using whole_flow.flow_finished[OF wf assms(3-5) r(1) assms(10-13)] by blast
  moreover from this(1) have "concat gs = filter (\<lambda>d. d \<noteq> []) (acc_accepted t)"
    "\<forall>gr \<in> set gs. within_limit L (int (length sep)) gr"
    using timed_packing_concat[of _ _ _ "(gs, [])"] timed_packing_bounded[of _ _ _ "(gs, [])"] by auto
  ultimately show ?thesis using r(2) by blast
qed

subsection \<open>A sample\<close>

definition secret_flow :: ingest_flow where
  "secret_flow = \<lparr>if_Name = ''flow_1'', if_Token = ''secret'', if_DecompressionAlgorithms = [],
     if_DecompressionMaxConcurrency = 0, if_DecompressionInitialBufferSizeBytes = 512\<rparr>"

definition secret_routes :: "route list" where
  "secret_routes = map (\<lambda>p. \<lparr>rt_method = ''POST'', rt_path = p, rt_token = Some ''secret'', rt_flow = ''flow_1'',
     rt_semaphor = \<lparr>chan_cap = 0, chan_buf = [], chan_closed = True\<rparr>,
     rt_handler = \<lparr>ir_validDecompressionAlgorithms = [], ir_decompressionInitialBufferSize = 512\<rparr>\<rparr>)
     [''/flow_1/async_ingestion'', ''/v1/flow_1/async_ingestion'']"

lemma secret_routes_made: "flowRoutes apiVersion secret_flow = Ret secret_routes"
  by (simp add: flowRoutes_def newIngestionRoute_def newSemaphor_cases secret_flow_def secret_routes_def
      apiVersion_def Let_def)

definition secret_post :: "bytes \<Rightarrow> http_request" where
  "secret_post d = (sample_post d)\<lparr>rq_Headers :=
     (\<lambda>k. if k = ''Authorization'' then [''Bearer secret''] else [])\<rparr>"

text \<open>Two good requests and one without the token, interleaved.\<close>

definition sample_requests :: "(nat \<times> http_request \<times> unit req_phase) list" where
  "sample_requests = [(0, secret_post [1, 2], Arrived), (1, secret_post [3, 4], Arrived),
     (0, sample_post [9], Arrived)]"

definition sample_service_state ::
  "'b \<Rightarrow> 'e pool \<Rightarrow> (unit, ('b \<times> (up_stage \<times> 'e pool)) acc_stage) ingest_state" where
  "sample_service_state cb p =
     sample_state () (acc_start (BySize sample_by_size) (cb, sample_uploader 2, p))"

lemma sample_service_run:
  "\<exists>v. requests_run dummy_two_step (flow_enqueue execute pass wk turn) cd id secret_routes
       [1, 0, 0, 1, 0, 2, 1, 1, 0, 0, 1]
       ((serving_start secret_routes (sample_service_state cb p))\<lparr>sv_reqs := sample_requests\<rparr>) = Ret v \<and>
     sv_reqs v = [(0, secret_post [1, 2], Answered 200), (1, secret_post [3, 4], Answered 200),
       (0, sample_post [9], Answered 401)] \<and>
     acc_phase (is_entrypoint (sv_shared v)) = Running"
  by (simp add: sample_requests_def serving_start_def secret_routes_def sample_service_state_def request_moves_def
      secret_post_def sample_post_def sample_request_def sample_state_def dummy_two_step_def observeSize_def Let_def
      selectDecompressionAlgorithm_def rd_data_def stage_enqueue_def by_size_ops_def header_Get_def
      stage_start_def startRun_by_size_def Enqueue_by_size_def chan_try_send_def
      sample_by_size_def NewAccumulatorBySize_def MinQueueCapacity_def make_chan_def
      updateEnqueuedItemsMetric_by_size_def)

end
