(* ===== verification/Metrics_Registry.thy ===== *)
theory Metrics_Registry
  imports Prelude
begin

text \<open>
  The Prometheus metrics the packages declare and how they get into the registry: the
  \<open>ensureMetricRegisteringOnce.Do(\<dots>)\<close> blocks of pkg/accumulator/metrics.go, pkg/uploader/metrics.go,
  pkg/worker/metrics.go, pkg/adapters/httpin/metrics.go, httpmiddleware/metrics.go,
  pkg/adapters/externalqueue/ext_queue_with_metrics.go, pkg/adapters/objstorage/storage_with_metrics.go
  and pkg/circuitbreaker/o11y.go.  Each package has a \<open>sync.Once\<close> of its own, so its block runs for
  the first flow only; \<open>MustRegister\<close> panics when a metric of the same full name is already there.
  Help texts are left out.
\<close>

subsection \<open>Descriptors\<close>

datatype metric_kind = CounterVec | GaugeVec | HistogramVec "rat list"

record metric_desc =
  md_Namespace :: string
  md_Subsystem :: string
  md_Name :: string
  md_kind :: metric_kind
  md_labels :: "string list"

text \<open>\<open>prometheus.BuildFQName\<close>: the parts that are not empty, joined with underscores.\<close>

definition BuildFQName :: "string \<Rightarrow> string \<Rightarrow> string \<Rightarrow> string" where
  "BuildFQName namespace subsystem name =
     (if name = [] then []
      else if namespace \<noteq> [] \<and> subsystem \<noteq> [] then namespace @ ''_'' @ subsystem @ ''_'' @ name
      else if namespace \<noteq> [] then namespace @ ''_'' @ name
      else if subsystem \<noteq> [] then subsystem @ ''_'' @ name
      else name)"

definition md_fqName :: "metric_desc \<Rightarrow> string" where
  "md_fqName d = BuildFQName (md_Namespace d) (md_Subsystem d) (md_Name d)"

definition jiboia_metric :: "string \<Rightarrow> string \<Rightarrow> metric_kind \<Rightarrow> string list \<Rightarrow> metric_desc" where
  "jiboia_metric subsystem name kind labels =
     \<lparr>md_Namespace = ''jiboia'', md_Subsystem = subsystem, md_Name = name, md_kind = kind,
      md_labels = labels\<rparr>"

subsection \<open>What each package registers\<close>

definition accumulator_metrics :: "metric_desc list" where
  "accumulator_metrics =
     [jiboia_metric ''accumulator'' ''enqueue_calls_total'' CounterVec [''flow''],
      jiboia_metric ''accumulator'' ''next_calls_total'' CounterVec [''flow''],
      jiboia_metric ''accumulator'' ''queue_capacity'' GaugeVec [''flow''],
      jiboia_metric ''accumulator'' ''items_in_queue'' GaugeVec [''flow''],
      jiboia_metric ''accumulator'' ''data_in_bytes'' CounterVec [''flow''],
      jiboia_metric ''accumulator'' ''data_out_bytes'' CounterVec [''flow''],
      jiboia_metric ''accumulator'' ''data_in_kbs'' CounterVec [''flow''],
      jiboia_metric ''accumulator'' ''data_out_kbs'' CounterVec [''flow''],
      jiboia_metric ''accumulator'' ''enqueue_failed_total'' CounterVec [''flow''],
      jiboia_metric ''accumulator'' ''flush_total'' CounterVec [''flow'', ''flush_type'']]"

definition uploader_metrics :: "metric_desc list" where
  "uploader_metrics =
     [jiboia_metric ''uploader'' ''queue_capacity'' GaugeVec [''flow''],
      jiboia_metric ''uploader'' ''workers_online'' GaugeVec [''flow''],
      jiboia_metric ''uploader'' ''enqueue_calls_total'' CounterVec [''flow''],
      jiboia_metric ''uploader'' ''items_in_queue'' GaugeVec [''flow''],
      jiboia_metric ''uploader'' ''enqueue_failed_total'' CounterVec [''flow'']]"

definition workInFlightGauge_desc :: metric_desc where
  "workInFlightGauge_desc = jiboia_metric ''worker'' ''work_in_flight'' GaugeVec [''flow'']"

definition compressionRatioHist_desc :: metric_desc where
  "compressionRatioHist_desc = jiboia_metric ''compression'' ''ratio''
     (HistogramVec [1/100, 5/100, 1/10, 15/100, 2/10, 3/10, 4/10, 5/10, 6/10, 7/10, 8/10, 9/10, 1, 11/10])
     [''type'']"

definition compressionLatencyHist_desc :: metric_desc where
  "compressionLatencyHist_desc = jiboia_metric ''compression'' ''duration_millis''
     (HistogramVec [5, 10, 25, 50, 125, 250, 500, 1000, 5000, 30000]) [''type'']"

text \<open>The worker's package makes three metrics and registers two of them.\<close>

definition worker_declared_metrics :: "metric_desc list" where
  "worker_declared_metrics =
     [workInFlightGauge_desc, compressionRatioHist_desc, compressionLatencyHist_desc]"

definition worker_metrics :: "metric_desc list" where
  "worker_metrics = [workInFlightGauge_desc, compressionRatioHist_desc]"

definition api_metrics :: "metric_desc list" where
  "api_metrics =
     [jiboia_metric ''http'' ''request_body_size_bytes''
        (HistogramVec [0, 1024, 524288, 1048576, 2621440, 5242880, 10485760, 52428800, 104857600])
        [''path''],
      jiboia_metric ''http'' ''request_errors_total'' CounterVec [''error_type'', ''path''],
      jiboia_metric ''http'' ''decompression_duration_millis''
        (HistogramVec [5, 10, 25, 50, 125, 250, 500, 1000, 5000, 30000]) [''path''],
      jiboia_metric ''http'' ''decompression_total'' CounterVec [''type'']]"

definition middleware_metrics :: "metric_desc list" where
  "middleware_metrics =
     [jiboia_metric ''http'' ''requests_total'' CounterVec [''code'', ''method'', ''path''],
      jiboia_metric ''http'' ''request_duration_seconds''
        (HistogramVec [1/10, 2/10, 5/10, 1, 25/10, 5, 10, 15, 30, 60, 120]) [''path'']]"

definition queue_metrics :: "metric_desc list" where
  "queue_metrics =
     [jiboia_metric ''external_queue'' ''put_latency_seconds''
        (HistogramVec [25/100, 5/10, 1, 15/10, 2, 5, 10, 30, 45, 60])
        [''queue_type'', ''name'', ''flow''],
      jiboia_metric ''external_queue'' ''put_total'' CounterVec [''queue_type'', ''name'', ''flow''],
      jiboia_metric ''external_queue'' ''put_errors_total'' CounterVec [''queue_type'', ''name'', ''flow''],
      jiboia_metric ''external_queue'' ''put_success_total'' CounterVec
        [''queue_type'', ''name'', ''flow'']]"

definition storage_metrics :: "metric_desc list" where
  "storage_metrics =
     [jiboia_metric ''object_storage'' ''upload_latency_seconds''
        (HistogramVec [25/100, 5/10, 1, 15/10, 2, 5, 10, 30, 45, 60, 90, 120, 180, 240, 300, 600])
        [''storage_type'', ''name'', ''flow''],
      jiboia_metric ''object_storage'' ''upload_total'' CounterVec [''storage_type'', ''name'', ''flow''],
      jiboia_metric ''object_storage'' ''upload_success_total'' CounterVec
        [''storage_type'', ''name'', ''flow''],
      jiboia_metric ''object_storage'' ''upload_errors_total'' CounterVec
        [''storage_type'', ''name'', ''flow'']]"

definition breaker_metrics :: "metric_desc list" where
  "breaker_metrics =
     [jiboia_metric [] ''circuitbreaker_open'' GaugeVec [''flow'', ''name''],
      jiboia_metric [] ''circuitbreaker_open_total'' CounterVec [''flow'', ''name'']]"

subsection \<open>Registration\<close>

datatype metric_package =
  AccumulatorPkg | UploaderPkg | WorkerPkg | ApiPkg | MiddlewarePkg | QueuePkg | StoragePkg | BreakerPkg

fun package_metrics :: "metric_package \<Rightarrow> metric_desc list" where
  "package_metrics AccumulatorPkg = accumulator_metrics"
| "package_metrics UploaderPkg = uploader_metrics"
| "package_metrics WorkerPkg = worker_metrics"
| "package_metrics ApiPkg = api_metrics"
| "package_metrics MiddlewarePkg = middleware_metrics"
| "package_metrics QueuePkg = queue_metrics"
| "package_metrics StoragePkg = storage_metrics"
| "package_metrics BreakerPkg = breaker_metrics"

text \<open>The registry of the application, and the packages whose \<open>sync.Once\<close> has fired.\<close>

record registry =
  rg_registered :: "metric_desc list"
  rg_once :: "metric_package list"

definition empty_registry :: registry where
  "empty_registry = \<lparr>rg_registered = [], rg_once = []\<rparr>"

definition MustRegister :: "metric_desc \<Rightarrow> registry \<Rightarrow> registry go" where
  "MustRegister d r =
     (if md_fqName d \<in> set (map md_fqName (rg_registered r))
      then Panic ''duplicate metrics collector registration attempted''
      else Ret (r\<lparr>rg_registered := rg_registered r @ [d]\<rparr>))"

text \<open>\<open>sync.Once\<close> marks the block as done also when it panics.\<close>

definition ensureRegistered :: "metric_package \<Rightarrow> registry \<Rightarrow> registry go" where
  "ensureRegistered p r =
     (if p \<in> set (rg_once r) then Ret r
      else go_foreach MustRegister (package_metrics p) (r\<lparr>rg_once := p # rg_once r\<rparr>))"

text \<open>The metrics of the build information, process and Go collectors.\<close>

definition registerDefaultMetrics :: "metric_desc list \<Rightarrow> registry \<Rightarrow> registry go" where
  "registerDefaultMetrics collectors r = go_foreach MustRegister collectors r"

subsection \<open>No two metrics share a name\<close>

text \<open>The collectors' own names are different, and not in the namespace of jiboia.\<close>

definition is_jiboia_name :: "string \<Rightarrow> bool" where
  "is_jiboia_name n \<longleftrightarrow> take 7 n = ''jiboia_''"

definition foreign_collectors :: "metric_desc list \<Rightarrow> bool" where
  "foreign_collectors cs \<longleftrightarrow>
     distinct (map md_fqName cs) \<and> (\<forall>d \<in> set cs. \<not> is_jiboia_name (md_fqName d))"

definition all_packages :: "metric_package list" where
  "all_packages = [AccumulatorPkg, UploaderPkg, WorkerPkg, ApiPkg, MiddlewarePkg, QueuePkg,
                   StoragePkg, BreakerPkg]"

lemma in_all_packages: "p \<in> set all_packages"
  by (cases p) (simp_all add: all_packages_def)

lemma names_distinct: "distinct (map md_fqName (concat (map package_metrics all_packages)))"
  by code_simp

lemma distinct_concat_disjoint:
  "distinct (concat (map f xs)) \<Longrightarrow> p \<in> set xs \<Longrightarrow> q \<in> set xs \<Longrightarrow> p \<noteq> q \<Longrightarrow>
   set (f p) \<inter> set (f q) = {}"
  by (induction xs) auto

lemma distinct_concat_part: "distinct (concat (map f xs)) \<Longrightarrow> p \<in> set xs \<Longrightarrow> distinct (f p)"
  by (induction xs) auto

definition package_names :: "metric_package \<Rightarrow> string list" where
  "package_names p = map md_fqName (package_metrics p)"

lemma package_names_concat: "distinct (concat (map package_names all_packages))"
  using names_distinct by (simp add: map_concat comp_def flip: package_names_def)

lemma package_names_disjoint: "p \<noteq> q \<Longrightarrow> set (package_names p) \<inter> set (package_names q) = {}"
  by (rule distinct_concat_disjoint[OF package_names_concat]) (simp_all add: in_all_packages)

lemma package_names_distinct: "distinct (package_names p)"
  by (rule distinct_concat_part[OF package_names_concat]) (rule in_all_packages)

lemma package_names_jiboia: "n \<in> set (package_names p) \<Longrightarrow> is_jiboia_name n"
proof -
  have "list_all (\<lambda>p. list_all is_jiboia_name (package_names p)) all_packages" by code_simp
  then show "n \<in> set (package_names p) \<Longrightarrow> is_jiboia_name n"
    using in_all_packages[of p] by (simp add: list_all_iff)
qed

text \<open>Registering metrics with new, different names: they are appended, in order.\<close>

lemma register_fresh:
  "distinct (map md_fqName ds) \<Longrightarrow> set (map md_fqName ds) \<inter> set (map md_fqName (rg_registered r)) = {} \<Longrightarrow>
   go_foreach MustRegister ds r = Ret (r\<lparr>rg_registered := rg_registered r @ ds\<rparr>)"
proof (induction ds arbitrary: r)
  case (Cons d ds)
  let ?r = "r\<lparr>rg_registered := rg_registered r @ [d]\<rparr>"
  have "MustRegister d r = Ret ?r" using Cons.prems(2) by (auto simp: MustRegister_def)
  moreover have "go_foreach MustRegister ds ?r = Ret (?r\<lparr>rg_registered := rg_registered ?r @ ds\<rparr>)"
    using Cons.prems by (intro Cons.IH) auto
  ultimately show ?case by simp
qed simp

text \<open>
  The registry holds the collectors' metrics and those of the packages that have run their block, in
  that order.
\<close>

definition registry_ok :: "metric_desc list \<Rightarrow> registry \<Rightarrow> bool" where
  "registry_ok cs r \<longleftrightarrow> rg_registered r = cs @ concat (map package_metrics (rev (rg_once r)))"

lemma registry_names:
  "registry_ok cs r \<Longrightarrow>
   set (map md_fqName (rg_registered r)) =
     set (map md_fqName cs) \<union> (\<Union>q \<in> set (rg_once r). set (package_names q))"
  by (auto simp: registry_ok_def package_names_def)

lemma ensureRegistered_spec:
  assumes "registry_ok cs r" and "foreign_collectors cs"
  shows "\<exists>r'. ensureRegistered p r = Ret r' \<and> registry_ok cs r' \<and>
    set (rg_once r') = insert p (set (rg_once r))"
proof (cases "p \<in> set (rg_once r)")
  case True
  with assms show ?thesis by (auto simp: ensureRegistered_def)
next
  case False
  let ?r = "r\<lparr>rg_once := p # rg_once r\<rparr>"
  have "set (package_names p) \<inter> set (map md_fqName (rg_registered r)) = {}"
  proof -
    have "set (package_names p) \<inter> set (package_names q) = {}" if "q \<in> set (rg_once r)" for q
      using that False by (intro package_names_disjoint) auto
    moreover have "set (package_names p) \<inter> set (map md_fqName cs) = {}"
      using package_names_jiboia[of _ p] assms(2) by (auto simp: foreign_collectors_def)
    ultimately show ?thesis unfolding registry_names[OF assms(1)] by blast
  qed
  then have "go_foreach MustRegister (package_metrics p) ?r =
      Ret (?r\<lparr>rg_registered := rg_registered ?r @ package_metrics p\<rparr>)"
    using package_names_distinct[of p] by (intro register_fresh) (auto simp: package_names_def)
  with False assms(1) show ?thesis by (auto simp: ensureRegistered_def registry_ok_def)
qed

lemma register_packages:
  "registry_ok cs r \<Longrightarrow> foreign_collectors cs \<Longrightarrow>
   \<exists>r'. go_foreach ensureRegistered ps r = Ret r' \<and> registry_ok cs r' \<and>
     set (rg_once r') = set (rg_once r) \<union> set ps"
proof (induction ps arbitrary: r)
  case (Cons p ps)
  obtain r1 where r1: "ensureRegistered p r = Ret r1" "registry_ok cs r1"
    "set (rg_once r1) = insert p (set (rg_once r))" using ensureRegistered_spec[OF Cons.prems] by blast
  from Cons.IH[OF r1(2) Cons.prems(2)] r1 show ?case by fastforce
qed simp

subsection \<open>Property\<close>

text \<open>
  C40 (safety): after the collectors of the prometheus package, in whatever order and however often
  the components of an application initialise their metrics, once per flow for some of them, nothing
  panics on a duplicate name, and afterwards the registry holds exactly the metrics that the packages
  concerned register; the compression latency histogram of the workers' package is not among them,
  although it is created and observed.
\<close>

theorem metrics_register_once:
  assumes "foreign_collectors collectors"
  shows "\<exists>r. go_bind (registerDefaultMetrics collectors empty_registry) (go_foreach ensureRegistered ps) = Ret r \<and>
     set (rg_registered r) = set collectors \<union> (\<Union>p \<in> set ps. set (package_metrics p)) \<and>
     compressionLatencyHist_desc \<in> set worker_declared_metrics \<and>
     md_fqName compressionLatencyHist_desc \<notin> set (map md_fqName (rg_registered r))"
proof -
  let ?r0 = "empty_registry\<lparr>rg_registered := collectors\<rparr>"
  have d: "registerDefaultMetrics collectors empty_registry = Ret ?r0"
    unfolding registerDefaultMetrics_def
    using assms register_fresh[of collectors empty_registry] by (simp add: foreign_collectors_def empty_registry_def)
  obtain r where r: "go_foreach ensureRegistered ps ?r0 = Ret r" "registry_ok collectors r" "set (rg_once r) = set ps"
    using register_packages[of collectors ?r0 ps] assms by (auto simp: registry_ok_def empty_registry_def)
  have "list_all (\<lambda>q. md_fqName compressionLatencyHist_desc \<notin> set (package_names q)) all_packages"
    by code_simp
  then have "md_fqName compressionLatencyHist_desc \<notin> set (package_names q)" for q
    using in_all_packages[of q] by (simp add: list_all_iff)
  moreover have "is_jiboia_name (md_fqName compressionLatencyHist_desc)" by code_simp
  ultimately have "md_fqName compressionLatencyHist_desc \<notin> set (map md_fqName (rg_registered r))"
    using assms unfolding registry_names[OF r(2)] by (auto simp: foreign_collectors_def)
  moreover have "set (rg_registered r) = set collectors \<union> (\<Union>p \<in> set ps. set (package_metrics p))"
    using r(2,3) by (simp add: registry_ok_def)
  ultimately show ?thesis using r(1) d by (auto simp: worker_declared_metrics_def)
qed

lemma metrics_register_once_witness:
  "\<exists>r. go_bind (registerDefaultMetrics [\<lparr>md_Namespace = [], md_Subsystem = ''go'', md_Name = ''goroutines'',
         md_kind = GaugeVec, md_labels = []\<rparr>] empty_registry)
       (go_foreach ensureRegistered [WorkerPkg, UploaderPkg, WorkerPkg]) = Ret r \<and>
     length (remdups (rg_registered r)) = 8"
proof -
  let ?cs = "[\<lparr>md_Namespace = [], md_Subsystem = ''go'', md_Name = ''goroutines'', md_kind = GaugeVec, md_labels = []\<rparr>]"
  have "foreign_collectors ?cs" by (simp add: foreign_collectors_def) code_simp
  from metrics_register_once[OF this, of "[WorkerPkg, UploaderPkg, WorkerPkg]"] obtain r where
    r: "go_bind (registerDefaultMetrics ?cs empty_registry)
        (go_foreach ensureRegistered [WorkerPkg, UploaderPkg, WorkerPkg]) = Ret r"
      "set (rg_registered r) = set ?cs \<union> (\<Union>p \<in> set [WorkerPkg, UploaderPkg, WorkerPkg]. set (package_metrics p))"
    by blast
  have "length (remdups (rg_registered r)) = card (set (rg_registered r))" by (simp add: length_remdups_card_conv)
  also have "\<dots> = card (set (remdups (?cs @ worker_metrics @ uploader_metrics)))"
    unfolding r(2) by (rule arg_cong[where f = card]) auto
  also have "\<dots> = length (remdups (?cs @ worker_metrics @ uploader_metrics))"
    by (simp only: length_remdups_card_conv set_remdups)
  also have "\<dots> = 8" by code_simp
  finally show ?thesis using r(1) by blast
qed

end
