(* ===== verification/Lifecycle.thy ===== *)
theory Lifecycle
  imports Flow_Wiring
begin

text \<open>
  The life of the application, from \<open>App.New\<close> to the closing of \<open>shutdownDone\<close>: pkg/app/app.go.
  Every actor of the run group is a goroutine that calls its execute function; the group's own
  goroutine waits for the first to return, then calls the interrupt functions in the order in which
  the actors were added, one after the other, and returns when all actors have returned.  This is
  what oklog/run documents, and what the comment in \<open>Start\<close> relies on; the execute and interrupt
  functions are those of the source.
\<close>

subsection \<open>The application\<close>

record 'y app =
  ap_conf :: "'y config"
  ap_ctx_done :: bool
  ap_shutdownDone :: "unit gochan"

definition app_New :: "'y config \<Rightarrow> 'y app" where
  "app_New c = \<lparr>ap_conf = c, ap_ctx_done = False,
     ap_shutdownDone = \<lparr>chan_cap = 0, chan_buf = [], chan_closed = False\<rparr>\<rparr>"

text \<open>\<open>Stop\<close> cancels the context and gives the channel to wait on.\<close>

definition app_Stop :: "'y app \<Rightarrow> 'y app \<times> unit gochan" where
  "app_Stop a = (a\<lparr>ap_ctx_done := True\<rparr>, ap_shutdownDone a)"

subsection \<open>Actors\<close>

text \<open>The contexts made by \<open>addFlowActorToRunGroup\<close>: the workers of a flow share one.\<close>

datatype flow_ctx = AccumulatorCtx string | UploaderCtx string | WorkersCtx string

fun actor_ctx :: "actor \<Rightarrow> flow_ctx option" where
  "actor_ctx (AccumulatorActor n) = Some (AccumulatorCtx n)"
| "actor_ctx (UploaderActor n) = Some (UploaderCtx n)"
| "actor_ctx (WorkerActor n i) = Some (WorkersCtx n)"
| "actor_ctx _ = None"

text \<open>
  Where an actor's goroutine is: \<open>NotBegun\<close> until \<open>Run\<close> has made the component's \<open>doneChan\<close>;
  \<open>Exited\<close> when its execute function has returned, and \<open>doneChan\<close> is closed.
\<close>

datatype actor_phase = NotBegun | Executing | Exited

text \<open>
  \<open>lf_next\<close>: how many interrupt functions have returned.  \<open>lf_waiting\<close>: the channel that the current
  one waits on, \<open>Some None\<close> for the nil channel.  \<open>lf_first\<close>: who returned first, with what.
\<close>

record 'y life =
  lf_app :: "'y app"
  lf_signals :: "unit gochan"
  lf_notify :: bool
  lf_phase :: "actor \<Rightarrow> actor_phase"
  lf_cancelled :: "flow_ctx \<Rightarrow> bool"
  lf_api_closed :: bool
  lf_first :: "(actor \<times> error option) option"
  lf_next :: nat
  lf_waiting :: "actor option option"

definition life_start :: "'y app \<Rightarrow> 'y life" where
  "life_start a =
     \<lparr>lf_app = a, lf_signals = \<lparr>chan_cap = 2, chan_buf = [], chan_closed = False\<rparr>, lf_notify = True,
      lf_phase = (\<lambda>_. NotBegun), lf_cancelled = (\<lambda>_. False), lf_api_closed = False,
      lf_first = None, lf_next = 0, lf_waiting = None\<rparr>"

text \<open>\<open>Done()\<close> of the component of an actor: nil before its \<open>Run\<close> has begun.\<close>

definition actor_Done :: "'y life \<Rightarrow> actor \<Rightarrow> actor option" where
  "actor_Done s a = (if lf_phase s a = NotBegun then None else Some a)"

text \<open>\<open>http.Server.Shutdown\<close> closes the listeners before it waits, whatever it then returns.\<close>

definition server_Shutdown :: "int \<Rightarrow> bool \<Rightarrow> bool \<times> error option" where
  "server_Shutdown grace down = (True, None)"

lemma api_closed [simp]: "fst (api_Shutdown server_Shutdown down)"
  by (simp add: api_Shutdown_def server_Shutdown_def)

lemma api_fails [simp]: "api_ListenAndServe (Some err) = Some (Wrapf ''when serving HTTP: %w'' err)"
  by (simp add: api_ListenAndServe_def)

text \<open>The interrupt functions; that of a flow's component cancels its context and then waits.\<close>

definition actor_interrupt :: "actor \<Rightarrow> 'y life \<Rightarrow> 'y life" where
  "actor_interrupt a s =
     (case actor_ctx a of
        Some ctx \<Rightarrow> s\<lparr>lf_cancelled := (lf_cancelled s)(ctx := True), lf_waiting := Some (actor_Done s a)\<rparr>
      | None \<Rightarrow>
          (if a = SignalActor
           then s\<lparr>lf_app := fst (app_Stop (lf_app s)), lf_notify := False, lf_next := Suc (lf_next s)\<rparr>
           else s\<lparr>lf_api_closed := fst (api_Shutdown server_Shutdown (lf_api_closed s)), lf_next := Suc (lf_next s)\<rparr>))"

definition actor_returns :: "actor \<Rightarrow> error option \<Rightarrow> 'y life \<Rightarrow> 'y life" where
  "actor_returns a err s =
     s\<lparr>lf_phase := (lf_phase s)(a := Exited),
       lf_first := (if lf_first s = None then Some (a, err) else lf_first s)\<rparr>"

definition ErrServerClosed :: error where "ErrServerClosed = Error ''http: Server closed''"

text \<open>
  The steps.  When the execute functions return: \<open>SignalActor\<close> after a signal or when the context is
  done; the API's with an error at any time, with \<open>ErrServerClosed\<close> after \<open>Shutdown\<close>; an
  accumulator's, once cancelled, as long as its uploader takes what is left (theory Whole_Flow); an
  uploader's, once cancelled, while a worker receives; a worker's, once cancelled, when the uploader
  has closed \<open>next\<close> (theory Upload_Pipeline).
\<close>

inductive life_step :: "actor list \<Rightarrow> 'y life \<Rightarrow> 'y life \<Rightarrow> bool" for g where
  signal:
    "lf_notify s \<Longrightarrow> chan_try_send False (lf_signals s) () = Ret (ch, ok) \<Longrightarrow>
     life_step g s (s\<lparr>lf_signals := ch\<rparr>)"
| stop: "life_step g s (s\<lparr>lf_app := fst (app_Stop (lf_app s))\<rparr>)"
| begins:
    "a \<in> set g \<Longrightarrow> lf_phase s a = NotBegun \<Longrightarrow>
     life_step g s (s\<lparr>lf_phase := (lf_phase s)(a := Executing)\<rparr>)"
| signal_returns:
    "lf_phase s SignalActor = Executing \<Longrightarrow> chan_recv (lf_signals s) = Ret (ch, Some ()) \<Longrightarrow>
     life_step g s (actor_returns SignalActor None (s\<lparr>lf_signals := ch\<rparr>))"
| ctx_returns:
    "lf_phase s SignalActor = Executing \<Longrightarrow> ap_ctx_done (lf_app s) \<Longrightarrow>
     life_step g s (actor_returns SignalActor None s)"
| api_returns:
    "lf_phase s ApiActor = Executing \<Longrightarrow> (lf_api_closed s \<longrightarrow> err = ErrServerClosed) \<Longrightarrow>
     life_step g s (actor_returns ApiActor (api_ListenAndServe (Some err)) s)"
| accumulator_returns:
    "lf_phase s (AccumulatorActor n) = Executing \<Longrightarrow> lf_cancelled s (AccumulatorCtx n) \<Longrightarrow>
     \<not> lf_cancelled s (UploaderCtx n) \<Longrightarrow>
     life_step g s (actor_returns (AccumulatorActor n) None s)"
| uploader_returns:
    "lf_phase s (UploaderActor n) = Executing \<Longrightarrow> lf_cancelled s (UploaderCtx n) \<Longrightarrow>
     lf_phase s (WorkerActor n i) = Executing \<Longrightarrow>
     life_step g s (actor_returns (UploaderActor n) None s)"
| worker_returns:
    "lf_phase s (WorkerActor n i) = Executing \<Longrightarrow> lf_cancelled s (WorkersCtx n) \<Longrightarrow>
     lf_phase s (UploaderActor n) = Exited \<Longrightarrow>
     life_step g s (actor_returns (WorkerActor n i) None s)"
| interrupts:
    "lf_first s \<noteq> None \<Longrightarrow> lf_waiting s = None \<Longrightarrow> lf_next s < length g \<Longrightarrow>
     life_step g s (actor_interrupt (g ! lf_next s) s)"
| waited:
    "lf_waiting s = Some (Some a) \<Longrightarrow> lf_phase s a = Exited \<Longrightarrow>
     life_step g s (s\<lparr>lf_waiting := None, lf_next := Suc (lf_next s)\<rparr>)"
| run_ends:
    "lf_first s \<noteq> None \<Longrightarrow> lf_next s = length g \<Longrightarrow> \<forall>a \<in> set g. lf_phase s a = Exited \<Longrightarrow>
     chan_close (ap_shutdownDone (lf_app s)) = Ret ch \<Longrightarrow>
     life_step g s (s\<lparr>lf_app := (lf_app s)\<lparr>ap_shutdownDone := ch\<rparr>\<rparr>)"

inductive life_reach :: "actor list \<Rightarrow> 'y life \<Rightarrow> 'y life \<Rightarrow> bool" for g s where
  life_here: "life_reach g s s"
| life_there: "life_reach g s t \<Longrightarrow> life_step g t u \<Longrightarrow> life_reach g s u"

lemma life_reach_trans: "life_reach g t u \<Longrightarrow> life_reach g s t \<Longrightarrow> life_reach g s u"
  by (induction rule: life_reach.induct) (auto intro: life_reach.life_there)

lemma life_reach_step: "life_step g s t \<Longrightarrow> life_reach g s t"
  by (blast intro: life_reach.intros)

definition life_stopped :: "'y life \<Rightarrow> bool" where
  "life_stopped s \<longleftrightarrow> chan_closed (ap_shutdownDone (lf_app s))"

subsection \<open>The actors of an application\<close>

text \<open>What the order of the actors must guarantee: the data's way, from the front to the back.\<close>

definition actors_ordered :: "actor list \<Rightarrow> bool" where
  "actors_ordered g \<longleftrightarrow>
     distinct g \<and> (\<exists>fl. g = SignalActor # ApiActor # fl \<and> (\<forall>a \<in> set fl. actor_ctx a \<noteq> None)) \<and>
     (\<forall>n. AccumulatorActor n \<in> set g \<longrightarrow> stopped_before g (AccumulatorActor n) (UploaderActor n)) \<and>
     (\<forall>n i. WorkerActor n i \<in> set g \<longrightarrow> stopped_before g (UploaderActor n) (WorkerActor n i)) \<and>
     (\<forall>n. UploaderActor n \<in> set g \<longrightarrow> (\<exists>i. WorkerActor n i \<in> set g))"

lemma stopped_before_nth:
  assumes "distinct g" and "stopped_before g x y" and "j < length g" and "g ! j = y"
  shows "\<exists>i < j. g ! i = x"
proof -
  obtain as bs cs where g: "g = as @ x # bs @ y # cs" using assms(2) by (auto simp: stopped_before_def)
  let ?j = "length as + Suc (length bs)"
  have "g ! ?j = y" "?j < length g" by (simp_all add: g nth_append)
  with assms(1,3,4) have "j = ?j" by (metis nth_eq_iff_index_eq)
  then show ?thesis by (intro exI[of _ "length as"]) (simp add: g)
qed

lemma stopped_before_members: "stopped_before g x y \<Longrightarrow> x \<in> set g \<and> y \<in> set g"
  by (auto simp: stopped_before_def)

subsection \<open>The invariant\<close>

text \<open>
  The interrupts behind the current one are over: their flow actors have returned.  A context is
  cancelled only by an interrupt that is over or at which the group waits.
\<close>

definition reached :: "'y life \<Rightarrow> nat \<Rightarrow> bool" where
  "reached s i \<longleftrightarrow> i < lf_next s \<or> (i = lf_next s \<and> lf_waiting s \<noteq> None)"

definition order_inv :: "actor list \<Rightarrow> 'y life \<Rightarrow> bool" where
  "order_inv g s \<longleftrightarrow>
     lf_next s \<le> length g \<and>
     (\<forall>i < lf_next s. actor_ctx (g ! i) \<noteq> None \<longrightarrow> lf_phase s (g ! i) = Exited) \<and>
     (\<forall>ctx. lf_cancelled s ctx \<longleftrightarrow> (\<exists>i < length g. actor_ctx (g ! i) = Some ctx \<and> reached s i)) \<and>
     (\<forall>w. lf_waiting s = Some w \<longrightarrow> lf_next s < length g \<and> actor_ctx (g ! lf_next s) \<noteq> None \<and>
        (\<forall>a. w = Some a \<longrightarrow> a = g ! lf_next s \<and> lf_phase s a \<noteq> NotBegun)) \<and>
     (0 < lf_next s \<longrightarrow> ap_ctx_done (lf_app s)) \<and> (1 < lf_next s \<longrightarrow> lf_api_closed s)"

definition returned_inv :: "actor list \<Rightarrow> 'y life \<Rightarrow> bool" where
  "returned_inv g s \<longleftrightarrow>
     (\<forall>a ctx. lf_phase s a = Exited \<and> actor_ctx a = Some ctx \<longrightarrow> lf_cancelled s ctx) \<and>
     (\<forall>n i. lf_phase s (WorkerActor n i) = Exited \<longrightarrow> lf_phase s (UploaderActor n) = Exited) \<and>
     (\<forall>a. lf_phase s a \<noteq> NotBegun \<longrightarrow> a \<in> set g) \<and>
     ((\<exists>a. lf_phase s a = Exited) \<longleftrightarrow> lf_first s \<noteq> None) \<and>
     (\<forall>a err. lf_first s = Some (a, err) \<longrightarrow> actor_ctx a = None \<and> (a = SignalActor \<longleftrightarrow> err = None)) \<and>
     (lf_first s = None \<longrightarrow> lf_next s = 0 \<and> lf_waiting s = None) \<and>
     (life_stopped s \<longrightarrow> lf_next s = length g \<and> (\<forall>a \<in> set g. lf_phase s a = Exited))"

lemma actor_returns_fields [simp]:
  "lf_phase (actor_returns a err s) = (lf_phase s)(a := Exited)"
  "lf_first (actor_returns a err s) = (if lf_first s = None then Some (a, err) else lf_first s)"
  "lf_app (actor_returns a err s) = lf_app s" "lf_signals (actor_returns a err s) = lf_signals s"
  "lf_cancelled (actor_returns a err s) = lf_cancelled s" "lf_next (actor_returns a err s) = lf_next s"
  "lf_waiting (actor_returns a err s) = lf_waiting s" "lf_api_closed (actor_returns a err s) = lf_api_closed s"
  "lf_notify (actor_returns a err s) = lf_notify s"
  by (simp_all add: actor_returns_def)

lemma actor_interrupt_fields [simp]:
  "lf_phase (actor_interrupt a s) = lf_phase s" "lf_first (actor_interrupt a s) = lf_first s"
  "lf_signals (actor_interrupt a s) = lf_signals s"
  "life_stopped (actor_interrupt a s) = life_stopped s"
  by (simp_all add: actor_interrupt_def app_Stop_def life_stopped_def split: option.split)

lemma order_inv_frame:
  assumes "order_inv g s" and "lf_next t = lf_next s" and "lf_waiting t = lf_waiting s"
    and "lf_cancelled t = lf_cancelled s" and "lf_api_closed t = lf_api_closed s"
    and "ap_ctx_done (lf_app s) \<Longrightarrow> ap_ctx_done (lf_app t)"
    and "\<And>a. lf_phase s a = Exited \<Longrightarrow> lf_phase t a = Exited"
    and "\<And>a. lf_phase s a \<noteq> NotBegun \<Longrightarrow> lf_phase t a \<noteq> NotBegun"
  shows "order_inv g t"
  using assms by (auto simp: order_inv_def reached_def)

lemma order_inv_interrupt:
  assumes inv: "order_inv g s" and ok: "actors_ordered g" and w: "lf_waiting s = None" and n: "lf_next s < length g"
  shows "order_inv g (actor_interrupt (g ! lf_next s) s)"
proof (cases "actor_ctx (g ! lf_next s)")
  case (Some ctx)
  have "((lf_cancelled s)(ctx := True)) c \<longleftrightarrow>
      (\<exists>i < length g. actor_ctx (g ! i) = Some c \<and> (i < lf_next s \<or> i = lf_next s))" for c
    using inv w n Some by (auto simp: order_inv_def reached_def)
  with inv w n Some show ?thesis
    by (auto simp: order_inv_def reached_def actor_interrupt_def actor_Done_def)
next
  case None
  obtain fl where g: "g = SignalActor # ApiActor # fl" "\<forall>a \<in> set fl. actor_ctx a \<noteq> None"
    using ok by (auto simp: actors_ordered_def)
  from None n have two: "lf_next s = 0 \<and> g ! lf_next s = SignalActor \<or> lf_next s = 1 \<and> g ! lf_next s = ApiActor"
    using g(2) by (auto simp: g(1) nth_Cons all_set_conv_all_nth split: nat.splits)
  let ?t = "actor_interrupt (g ! lf_next s) s"
  have fields: "lf_next ?t = Suc (lf_next s)" "lf_waiting ?t = None" "lf_cancelled ?t = lf_cancelled s"
    using None w by (simp_all add: actor_interrupt_def)
  have "reached ?t i \<longleftrightarrow> reached s i \<or> i = lf_next s" for i
    by (auto simp: reached_def fields w)
  then have "(\<exists>i < length g. actor_ctx (g ! i) = Some c \<and> reached ?t i) \<longleftrightarrow>
      (\<exists>i < length g. actor_ctx (g ! i) = Some c \<and> reached s i)" for c
    using None by auto
  moreover have "actor_ctx (g ! i) \<noteq> None \<Longrightarrow> i < Suc (lf_next s) \<Longrightarrow> i < lf_next s" for i
    using None by (cases "i = lf_next s") auto
  moreover have "ap_ctx_done (lf_app ?t)" "1 < Suc (lf_next s) \<Longrightarrow> lf_api_closed ?t"
    using two inv by (auto simp: order_inv_def actor_interrupt_def app_Stop_def)
  ultimately show ?thesis using inv n unfolding order_inv_def fields by auto
qed

lemma order_inv_step:
  assumes "life_step g s t" and "order_inv g s" and "actors_ordered g"
  shows "order_inv g t"
  using assms(1)
proof cases
  case interrupts
  with order_inv_interrupt[OF assms(2,3)] show ?thesis by simp
next
  case (waited a)
  then have "actor_ctx (g ! lf_next s) \<noteq> None" using assms(2) by (auto simp: order_inv_def)
  moreover obtain fl where "g = SignalActor # ApiActor # fl" using assms(3) by (auto simp: actors_ordered_def)
  ultimately have "1 < lf_next s" by (auto simp: nth_Cons split: nat.splits)
  with waited assms(2) show ?thesis by (auto simp: order_inv_def reached_def less_Suc_eq)
qed (auto intro!: order_inv_frame[OF assms(2)] simp: app_Stop_def split: if_splits)

lemma cancelled_first:
  assumes "order_inv g s" and "returned_inv g s" and "lf_cancelled s ctx"
  shows "lf_first s \<noteq> None"
  using assms by (auto simp: order_inv_def returned_inv_def reached_def)

lemma returned_inv_return:
  assumes inv: "returned_inv g s" and ex: "lf_phase s a = Executing"
    and ctx: "\<And>ctx. actor_ctx a = Some ctx \<Longrightarrow> lf_cancelled s ctx \<and> lf_first s \<noteq> None"
    and up: "\<And>n i. a = WorkerActor n i \<Longrightarrow> lf_phase s (UploaderActor n) = Exited"
    and err: "actor_ctx a = None \<Longrightarrow> a = SignalActor \<longleftrightarrow> err = None"
  shows "returned_inv g (actor_returns a err s)"
proof -
  have live: "\<not> life_stopped s"
  proof
    assume "life_stopped s"
    with inv have "\<forall>a \<in> set g. lf_phase s a = Exited" by (simp add: returned_inv_def)
    moreover have "a \<in> set g" using inv ex by (simp add: returned_inv_def)
    ultimately show False using ex by simp
  qed
  have first: "lf_first s = None \<Longrightarrow> actor_ctx a = None" using ctx by (cases "actor_ctx a") auto
  have "\<forall>b c. lf_phase (actor_returns a err s) b = Exited \<and> actor_ctx b = Some c \<longrightarrow> lf_cancelled s c"
    using inv ctx by (auto simp: returned_inv_def)
  moreover have "lf_phase (actor_returns a err s) (UploaderActor n) = Exited"
    if "lf_phase (actor_returns a err s) (WorkerActor n i) = Exited" for n i
    using inv up that by (cases "a = WorkerActor n i") (auto simp: returned_inv_def)
  moreover have "\<forall>b. lf_phase (actor_returns a err s) b \<noteq> NotBegun \<longrightarrow> b \<in> set g"
    using inv ex by (auto simp: returned_inv_def)
  moreover have "lf_first (actor_returns a err s) \<noteq> None" by simp
  moreover have "\<forall>b e. lf_first (actor_returns a err s) = Some (b, e) \<longrightarrow>
      actor_ctx b = None \<and> (b = SignalActor \<longleftrightarrow> e = None)"
    using inv first err by (auto simp: returned_inv_def)
  moreover have "\<not> life_stopped (actor_returns a err s)" using live by (simp add: life_stopped_def)
  ultimately show ?thesis by (auto simp: returned_inv_def)
qed

lemma returned_inv_step:
  assumes "life_step g s t" and inv: "returned_inv g s" and ord: "order_inv g s"
  shows "returned_inv g t"
  using assms(1)
proof cases
  case (signal ch ok)
  with inv show ?thesis by (simp add: returned_inv_def life_stopped_def)
next
  case stop
  with inv show ?thesis by (simp add: returned_inv_def life_stopped_def app_Stop_def)
next
  case (begins a)
  have "\<not> life_stopped s" using inv begins by (auto simp: returned_inv_def)
  moreover have "lf_phase t x = Exited \<longleftrightarrow> lf_phase s x = Exited" for x using begins by simp
  ultimately show ?thesis using inv begins(2) unfolding returned_inv_def
    by (simp add: begins(1) life_stopped_def)
next
  case (signal_returns ch)
  have "returned_inv g (s\<lparr>lf_signals := ch\<rparr>)" using inv by (simp add: returned_inv_def life_stopped_def)
  from returned_inv_return[OF this, of SignalActor None] signal_returns show ?thesis by simp
next
  case ctx_returns
  with returned_inv_return[OF inv, of SignalActor None] show ?thesis by simp
next
  case (api_returns err)
  with returned_inv_return[OF inv, of ApiActor "Some (Wrapf ''when serving HTTP: %w'' err)"]
  show ?thesis by simp
next
  case (accumulator_returns n)
  with returned_inv_return[OF inv, of "AccumulatorActor n" None] cancelled_first[OF ord inv]
  show ?thesis by simp
next
  case (uploader_returns n i)
  with returned_inv_return[OF inv, of "UploaderActor n" None] cancelled_first[OF ord inv]
  show ?thesis by simp
next
  case (worker_returns n i)
  with returned_inv_return[OF inv, of "WorkerActor n i" None] cancelled_first[OF ord inv]
  show ?thesis by simp
next
  case interrupts
  have c: "lf_cancelled s ctx \<Longrightarrow> lf_cancelled t ctx" for ctx
    by (simp add: interrupts(1) actor_interrupt_def split: option.split)
  have "\<not> life_stopped s" using inv interrupts by (auto simp: returned_inv_def)
  then show ?thesis using inv interrupts(2) c unfolding returned_inv_def
    by (simp add: interrupts(1)) auto
next
  case (waited a)
  then have "lf_next s < length g" using ord by (simp add: order_inv_def)
  then have "\<not> life_stopped s" using inv by (auto simp: returned_inv_def)
  with inv waited show ?thesis
    by (auto simp: returned_inv_def life_stopped_def)
next
  case (run_ends ch)
  with inv show ?thesis by (auto simp: returned_inv_def life_stopped_def)
qed

definition life_inv :: "actor list \<Rightarrow> 'y life \<Rightarrow> bool" where
  "life_inv g s \<longleftrightarrow> order_inv g s \<and> returned_inv g s"

lemma life_inv_start:
  "\<not> chan_closed (ap_shutdownDone a) \<Longrightarrow> life_inv g (life_start a)"
  by (simp add: life_inv_def order_inv_def returned_inv_def life_start_def reached_def life_stopped_def)

lemma life_inv_reach:
  "life_reach g s t \<Longrightarrow> life_inv g s \<Longrightarrow> actors_ordered g \<Longrightarrow> life_inv g t"
  by (induction rule: life_reach.induct) (auto simp: life_inv_def intro: order_inv_step returned_inv_step)

text \<open>What the order says: a component is cancelled only when all in front of it have returned.\<close>

lemma cancelled_before:
  assumes inv: "life_inv g s" and ok: "actors_ordered g" and c: "lf_cancelled s ctx"
    and b: "\<And>y. y \<in> set g \<Longrightarrow> actor_ctx y = Some ctx \<Longrightarrow> stopped_before g x y" and x: "actor_ctx x \<noteq> None"
  shows "lf_phase s x = Exited"
proof -
  obtain i where i: "i < length g" "actor_ctx (g ! i) = Some ctx" "reached s i"
    using inv c by (auto simp: life_inv_def order_inv_def)
  from stopped_before_nth[OF _ b[OF nth_mem[OF i(1)] i(2)] i(1)] ok obtain k where "k < i" "g ! k = x"
    by (auto simp: actors_ordered_def)
  moreover from this i(3) have "k < lf_next s" by (auto simp: reached_def)
  ultimately show ?thesis using inv x by (auto simp: life_inv_def order_inv_def)
qed

lemma cancelled_api:
  assumes inv: "life_inv g s" and ok: "actors_ordered g" and c: "lf_cancelled s ctx"
  shows "lf_api_closed s"
proof -
  obtain i where i: "i < length g" "actor_ctx (g ! i) = Some ctx" "reached s i"
    using inv c by (auto simp: life_inv_def order_inv_def)
  obtain fl where "g = SignalActor # ApiActor # fl" using ok by (auto simp: actors_ordered_def)
  with i have "1 < i" by (auto simp: nth_Cons split: nat.splits)
  with i(3) have "1 < lf_next s" by (auto simp: reached_def)
  with inv show ?thesis by (simp add: life_inv_def order_inv_def)
qed

lemma uploader_cancelled:
  assumes "life_inv g s" and "actors_ordered g" and "lf_cancelled s (UploaderCtx n)"
    and "AccumulatorActor n \<in> set g"
  shows "lf_phase s (AccumulatorActor n) = Exited"
proof (rule cancelled_before[OF assms(1-3)])
  fix y assume "actor_ctx y = Some (UploaderCtx n)"
  then have "y = UploaderActor n" by (cases y) simp_all
  with assms(2,4) show "stopped_before g (AccumulatorActor n) y" by (simp add: actors_ordered_def)
qed simp

lemma workers_cancelled:
  assumes "life_inv g s" and "actors_ordered g" and "lf_cancelled s (WorkersCtx n)"
  shows "lf_phase s (UploaderActor n) = Exited"
proof (rule cancelled_before[OF assms])
  fix y assume y: "y \<in> set g" "actor_ctx y = Some (WorkersCtx n)"
  from y(2) obtain i where "y = WorkerActor n i" by (cases y) simp_all
  with y(1) show "stopped_before g (UploaderActor n) y" using assms(2) by (simp add: actors_ordered_def)
qed simp

subsection \<open>Every shutdown ends, if all components had begun to run\<close>

definition phase_weight :: "actor_phase \<Rightarrow> nat" where
  "phase_weight ph = (case ph of NotBegun \<Rightarrow> 4 | Executing \<Rightarrow> 2 | Exited \<Rightarrow> 0)"

definition life_work :: "actor list \<Rightarrow> 'y life \<Rightarrow> nat" where
  "life_work g s =
     (\<Sum>a \<in> set g. phase_weight (lf_phase s a)) +
     2 * (length g - lf_next s) + (if lf_waiting s = None then 1 else 0) +
     (chan_cap (lf_signals s) - length (chan_buf (lf_signals s))) +
     (if ap_ctx_done (lf_app s) then 0 else 1) + (if life_stopped s then 0 else 1)"

lemma phase_weight_simps [simp]:
  "phase_weight NotBegun = 4" "phase_weight Executing = 2" "phase_weight Exited = 0"
  by (simp_all add: phase_weight_def)

lemma sum_phase_update:
  assumes "a \<in> set g"
  shows "(\<Sum>b \<in> set g. phase_weight ((ph(a := x)) b)) + phase_weight (ph a) =
    (\<Sum>b \<in> set g. phase_weight (ph b)) + phase_weight x"
proof -
  have "(\<Sum>b \<in> set g. phase_weight ((ph(a := x)) b)) =
      phase_weight x + (\<Sum>b \<in> set g - {a}. phase_weight ((ph(a := x)) b))"
    using assms by (simp add: sum.remove)
  also have "(\<Sum>b \<in> set g - {a}. phase_weight ((ph(a := x)) b)) = (\<Sum>b \<in> set g - {a}. phase_weight (ph b))"
    by (rule sum.cong) auto
  finally show ?thesis using assms by (simp add: sum.remove[of "set g" a])
qed

lemma life_work_return:
  assumes "lf_phase s a = Executing" and "a \<in> set g"
  shows "life_work g (actor_returns a err s) + 2 = life_work g s"
  using sum_phase_update[OF assms(2), of "lf_phase s" Exited] assms(1)
  by (simp add: life_work_def life_stopped_def)

lemma app_stopped_again: "ap_ctx_done (lf_app s) \<Longrightarrow> s\<lparr>lf_app := fst (app_Stop (lf_app s))\<rparr> = s"
  by (cases s; cases "lf_app s") (simp add: app_Stop_def)

lemma interrupt_work:
  assumes "lf_waiting s = None" and "lf_next s < length g"
  shows "life_work g (actor_interrupt a s) < life_work g s"
proof -
  let ?t = "actor_interrupt a s"
  have "2 * (length g - lf_next ?t) + (if lf_waiting ?t = None then 1 else 0) <
      2 * (length g - lf_next s) + (1 :: nat)"
    using assms by (cases "actor_ctx a") (simp_all add: actor_interrupt_def)
  moreover have "ap_ctx_done (lf_app s) \<Longrightarrow> ap_ctx_done (lf_app ?t)"
    by (simp add: actor_interrupt_def app_Stop_def split: option.split)
  ultimately show ?thesis using assms(1) by (simp add: life_work_def)
qed

lemma life_step_work:
  assumes "life_step g s t" and inv: "life_inv g s"
  shows "t = s \<or> life_work g t < life_work g s"
proof -
  have mem: "lf_phase s a \<noteq> NotBegun \<Longrightarrow> a \<in> set g" for a
    using inv by (simp add: life_inv_def returned_inv_def)
  have ret: "lf_phase s a = Executing \<Longrightarrow> life_work g (actor_returns a err s) < life_work g s" for a err
    using life_work_return[of s a g err] mem[of a] by simp
  show ?thesis using assms(1)
  proof cases
    case (signal ch ok)
    then show ?thesis
      by (cases ok) (auto simp: go_ret_iff life_work_def life_stopped_def)
  next
    case stop
    show ?thesis
    proof (cases "ap_ctx_done (lf_app s)")
      case True
      with stop app_stopped_again[OF True] show ?thesis by simp
    next
      case False
      with stop show ?thesis by (simp add: life_work_def life_stopped_def app_Stop_def)
    qed
  next
    case (begins a)
    with sum_phase_update[OF begins(2), of "lf_phase s" Executing] show ?thesis
      by (simp add: life_work_def life_stopped_def)
  next
    case (signal_returns ch)
    have "life_work g (s\<lparr>lf_signals := ch\<rparr>) \<le> Suc (life_work g s)"
      using signal_returns(3) by (auto simp: go_ret_iff life_work_def life_stopped_def)
    moreover have "life_work g t + 2 = life_work g (s\<lparr>lf_signals := ch\<rparr>)"
      using life_work_return[of "s\<lparr>lf_signals := ch\<rparr>" SignalActor g None] signal_returns
        mem[of SignalActor] by simp
    ultimately show ?thesis by simp
  next
    case interrupts
    with interrupt_work show ?thesis by blast
  next
    case (waited a)
    then have "lf_next s < length g" using inv by (simp add: life_inv_def order_inv_def)
    then have "length g - lf_next s = Suc (length g - Suc (lf_next s))" by simp
    with waited show ?thesis by (simp add: life_work_def life_stopped_def)
  next
    case (run_ends ch)
    then show ?thesis by (auto simp: go_ret_iff life_work_def life_stopped_def)
  qed (use ret in auto)
qed

text \<open>
  A shutdown that can go through: it has been asked for, every component's goroutine had begun, and
  the group does not wait on a nil channel.
\<close>

definition shutting :: "actor list \<Rightarrow> 'y life \<Rightarrow> bool" where
  "shutting g s \<longleftrightarrow>
     (lf_first s \<noteq> None \<or> ap_ctx_done (lf_app s) \<or> chan_buf (lf_signals s) \<noteq> []) \<and>
     (\<forall>a \<in> set g. actor_ctx a \<noteq> None \<longrightarrow> lf_phase s a \<noteq> NotBegun) \<and> lf_waiting s \<noteq> Some None"

lemma shutting_step:
  assumes "life_step g s t" and "shutting g s"
  shows "shutting g t"
  using assms(1)
proof cases
  case (signal ch ok)
  with assms(2) show ?thesis by (cases ok) (auto simp: shutting_def go_ret_iff)
next
  case interrupts
  then have "g ! lf_next s \<in> set g" by simp
  with interrupts assms(2) show ?thesis
    by (auto simp: shutting_def actor_interrupt_def actor_Done_def split: option.split)
qed (use assms(2) in \<open>auto simp: shutting_def app_Stop_def split: if_splits\<close>)

lemma shutting_reach: "life_reach g s t \<Longrightarrow> shutting g s \<Longrightarrow> shutting g t"
  by (induction rule: life_reach.induct) (auto intro: shutting_step)

lemma changed_by_return:
  assumes "lf_phase s a = Executing"
  shows "actor_returns a err s \<noteq> s"
proof
  assume "actor_returns a err s = s"
  then have "lf_phase (actor_returns a err s) a = lf_phase s a" by simp
  with assms show False by simp
qed

lemma return_changes:
  "life_step g s (actor_returns a err s) \<Longrightarrow> lf_phase s a = Executing \<Longrightarrow> \<exists>t. life_step g s t \<and> t \<noteq> s"
  using changed_by_return by blast

lemma begin_changes:
  assumes "a \<in> set g" and "lf_phase s a = NotBegun"
  shows "\<exists>t. life_step g s t \<and> t \<noteq> s"
proof -
  have "s\<lparr>lf_phase := (lf_phase s)(a := Executing)\<rparr> \<noteq> s"
  proof
    assume "s\<lparr>lf_phase := (lf_phase s)(a := Executing)\<rparr> = s"
    then have "lf_phase (s\<lparr>lf_phase := (lf_phase s)(a := Executing)\<rparr>) a = lf_phase s a" by simp
    with assms(2) show False by simp
  qed
  with life_step.begins[OF assms] show ?thesis by blast
qed

text \<open>While the group waits for an actor, that actor can return.\<close>

lemma waiting_not_stuck:
  assumes inv: "life_inv g s" and ok: "actors_ordered g" and sh: "shutting g s"
    and w: "lf_waiting s = Some w"
  shows "\<exists>t. life_step g s t \<and> t \<noteq> s"
proof -
  obtain a where a: "w = Some a" using sh w by (auto simp: shutting_def)
  from inv w a have n: "lf_next s < length g" "a = g ! lf_next s" "lf_phase s a \<noteq> NotBegun"
    by (auto simp: life_inv_def order_inv_def)
  from inv w have "actor_ctx (g ! lf_next s) \<noteq> None" by (auto simp: life_inv_def order_inv_def)
  then obtain ctx where ctx: "actor_ctx a = Some ctx" using n(2) by auto
  have mem: "a \<in> set g" using n by simp
  have canc: "lf_cancelled s ctx"
    using inv n ctx w unfolding life_inv_def order_inv_def reached_def by blast
  show ?thesis
  proof (cases "lf_phase s a")
    case Exited
    let ?t = "s\<lparr>lf_waiting := None, lf_next := Suc (lf_next s)\<rparr>"
    have "life_step g s ?t" using w a Exited by (intro life_step.waited) auto
    moreover have "lf_next ?t \<noteq> lf_next s" by simp
    ultimately show ?thesis by metis
  next
    case Executing
    show ?thesis
    proof (cases a)
      case (AccumulatorActor m)
      have "\<not> lf_cancelled s (UploaderCtx m)"
        using uploader_cancelled[OF inv ok] mem Executing AccumulatorActor by fastforce
      with AccumulatorActor Executing canc ctx show ?thesis
        by (intro return_changes[OF life_step.accumulator_returns]) auto
    next
      case (UploaderActor m)
      then obtain i where i: "WorkerActor m i \<in> set g" using ok mem by (auto simp: actors_ordered_def)
      with sh have "lf_phase s (WorkerActor m i) \<noteq> NotBegun" by (auto simp: shutting_def)
      moreover have "lf_phase s (WorkerActor m i) \<noteq> Exited"
        using inv Executing UploaderActor by (auto simp: life_inv_def returned_inv_def)
      ultimately have "lf_phase s (WorkerActor m i) = Executing"
        by (cases "lf_phase s (WorkerActor m i)") auto
      with UploaderActor Executing canc ctx show ?thesis
        by (intro return_changes[OF life_step.uploader_returns]) auto
    next
      case (WorkerActor m i)
      with canc ctx workers_cancelled[OF inv ok, of m] Executing show ?thesis
        by (intro return_changes[OF life_step.worker_returns]) auto
    qed (use ctx in simp_all)
  qed (use n in simp)
qed

text \<open>Nor is it stuck before the first interrupt, between two of them, and after the last.\<close>

lemma interrupt_changes:
  assumes "lf_waiting s = None"
  shows "actor_interrupt a s \<noteq> s"
proof
  assume e: "actor_interrupt a s = s"
  have "lf_waiting (actor_interrupt a s) \<noteq> None \<or> lf_next (actor_interrupt a s) = Suc (lf_next s)"
    by (simp add: actor_interrupt_def split: option.split)
  with e assms show False by simp
qed

lemma shutting_not_stuck:
  assumes inv: "life_inv g s" and ok: "actors_ordered g" and sh: "shutting g s" and run: "\<not> life_stopped s"
  shows "\<exists>t. life_step g s t \<and> t \<noteq> s"
proof -
  obtain fl where g: "g = SignalActor # ApiActor # fl" "\<forall>a \<in> set fl. actor_ctx a \<noteq> None"
    using ok by (auto simp: actors_ordered_def)
  consider (waiting) w where "lf_waiting s = Some w"
    | (before) "lf_first s = None"
    | (interrupt) "lf_waiting s = None" "lf_first s \<noteq> None" "lf_next s < length g"
    | (finish) "lf_waiting s = None" "lf_first s \<noteq> None" "lf_next s = length g"
    using inv by (fastforce simp: life_inv_def order_inv_def)
  then show ?thesis
  proof cases
    case waiting
    then show ?thesis by (rule waiting_not_stuck[OF inv ok sh])
  next
    case before
    then have none: "lf_phase s a \<noteq> Exited" for a using inv by (auto simp: life_inv_def returned_inv_def)
    show ?thesis
    proof (cases "lf_phase s SignalActor")
      case NotBegun
      then show ?thesis by (intro begin_changes[of SignalActor]) (simp_all add: g(1))
    next
      case Executing
      show ?thesis
      proof (cases "ap_ctx_done (lf_app s)")
        case True
        with Executing show ?thesis by (intro return_changes[OF life_step.ctx_returns])
      next
        case False
        with sh before obtain xs where "chan_buf (lf_signals s) = () # xs"
          by (cases "chan_buf (lf_signals s)") (auto simp: shutting_def)
        then have "chan_recv (lf_signals s) = Ret ((lf_signals s)\<lparr>chan_buf := xs\<rparr>, Some ())"
          by (simp add: chan_recv_def)
        note st = life_step.signal_returns[OF Executing this, of g]
        let ?t = "actor_returns SignalActor None (s\<lparr>lf_signals := (lf_signals s)\<lparr>chan_buf := xs\<rparr>\<rparr>)"
        have "lf_phase ?t SignalActor \<noteq> lf_phase s SignalActor" using Executing by simp
        then have "?t \<noteq> s" by metis
        with st show ?thesis by blast
      qed
    qed (use none in simp)
  next
    case interrupt
    from life_step.interrupts[OF interrupt(2,1,3)] interrupt_changes[OF interrupt(1)] show ?thesis by blast
  next
    case finish
    have fl: "lf_phase s a = Exited" if "a \<in> set g" "actor_ctx a \<noteq> None" for a
      using inv finish(3) that by (auto simp: life_inv_def order_inv_def in_set_conv_nth)
    have two: "ap_ctx_done (lf_app s)" "lf_api_closed s"
      using inv finish(3) by (auto simp: life_inv_def order_inv_def g(1))
    show ?thesis
    proof (cases "\<forall>a \<in> set g. lf_phase s a = Exited")
      case True
      let ?ch = "(ap_shutdownDone (lf_app s))\<lparr>chan_closed := True\<rparr>"
      let ?t = "s\<lparr>lf_app := (lf_app s)\<lparr>ap_shutdownDone := ?ch\<rparr>\<rparr>"
      have "life_step g s ?t"
        using finish True run by (intro life_step.run_ends) (simp_all add: life_stopped_def chan_close_def)
      moreover have "life_stopped ?t" by (simp add: life_stopped_def)
      ultimately show ?thesis using run by metis
    next
      case False
      then obtain a where a: "a \<in> set g" "lf_phase s a \<noteq> Exited" by blast
      show ?thesis
      proof (cases "lf_phase s a")
        case NotBegun
        with a(1) show ?thesis by (rule begin_changes)
      next
        case Executing
        from a fl have "actor_ctx a = None" by blast
        with a(1) g have "a = SignalActor \<or> a = ApiActor" by auto
        then show ?thesis
        proof
          assume "a = SignalActor"
          with Executing two show ?thesis by (intro return_changes[OF life_step.ctx_returns]) auto
        next
          assume "a = ApiActor"
          with Executing show ?thesis
            by (intro return_changes[OF life_step.api_returns[of s ErrServerClosed]]) auto
        qed
      qed (use a in simp)
    qed
  qed
qed

lemma shutting_finishes:
  "life_inv g s \<Longrightarrow> actors_ordered g \<Longrightarrow> shutting g s \<Longrightarrow> \<exists>t. life_reach g s t \<and> life_stopped t"
proof (induction "life_work g s" arbitrary: s rule: less_induct)
  case less
  show ?case
  proof (cases "life_stopped s")
    case True
    then show ?thesis by (blast intro: life_reach.life_here)
  next
    case False
    from shutting_not_stuck[OF less.prems False] obtain u where u: "life_step g s u" "u \<noteq> s" by blast
    note r = life_reach_step[OF u(1)]
    have "life_work g u < life_work g s" using life_step_work[OF u(1) less.prems(1)] u(2) by blast
    from less.hyps[OF this life_inv_reach[OF r less.prems(1,2)] less.prems(2) shutting_reach[OF r less.prems(3)]]
    obtain t where "life_reach g u t" "life_stopped t" by blast
    with life_reach_trans[OF _ r] show ?thesis by blast
  qed
qed

text \<open>All goroutines can begin, before anything else happens.\<close>

lemma all_begin:
  assumes "\<forall>a \<in> set xs. lf_phase s a = NotBegun" and "set xs \<subseteq> set g" and "distinct xs"
  shows "life_reach g s (s\<lparr>lf_phase := (\<lambda>a. if a \<in> set xs then Executing else lf_phase s a)\<rparr>)"
  using assms
proof (induction xs)
  case Nil
  then show ?case by (simp add: life_reach.life_here)
next
  case (Cons x xs)
  let ?s = "s\<lparr>lf_phase := (\<lambda>a. if a \<in> set xs then Executing else lf_phase s a)\<rparr>"
  have "life_step g ?s (?s\<lparr>lf_phase := (lf_phase ?s)(x := Executing)\<rparr>)"
    using Cons.prems by (intro life_step.begins) auto
  moreover have "(lf_phase ?s)(x := Executing) =
      (\<lambda>a. if a \<in> set (x # xs) then Executing else lf_phase s a)" by (rule ext) simp
  ultimately show ?case using Cons by (auto intro: life_reach.life_there)
qed

lemma can_stop:
  assumes "distinct g"
  shows "\<exists>s. life_reach g (life_start ap) s \<and> shutting g s"
proof -
  let ?s = "(life_start ap)\<lparr>lf_phase := (\<lambda>a. if a \<in> set g then Executing else NotBegun)\<rparr>"
  have "life_reach g (life_start ap) ?s"
    using all_begin[of g "life_start ap" g] assms by (simp add: life_start_def cong: if_cong)
  from life_reach.life_there[OF this life_step.stop] show ?thesis
    by (intro exI conjI, assumption) (simp add: shutting_def life_start_def app_Stop_def)
qed

subsection \<open>The actors that \<open>Start\<close> makes\<close>

lemma in_flow_actors:
  "x \<in> set (flow_actors f) \<longleftrightarrow>
     (x = AccumulatorActor (fw_Name f) \<and> fw_Accumulator f \<noteq> None) \<or> x = UploaderActor (fw_Name f) \<or>
     (\<exists>i < length (fw_UploadWorkers f). x = WorkerActor (fw_Name f) i)"
  by (auto simp: flow_actors_def addFlowActorToRunGroup_def)

lemma actors_order:
  assumes "Config_New unmarshal confData = Inr c" and "app_Start env c e = Ret (flows, a, g)"
    and "intn_in_range e"
  shows "distinct g \<and> (\<forall>f \<in> set flows.
    (fw_Accumulator f \<noteq> None \<longrightarrow>
       stopped_before g (AccumulatorActor (fw_Name f)) (UploaderActor (fw_Name f))) \<and>
    (\<forall>i < length (fw_UploadWorkers f).
       stopped_before g (UploaderActor (fw_Name f)) (WorkerActor (fw_Name f) i)))"
proof -
  obtain e' where fs: "createFlows env (co_Flows c) e = Ret (flows, e')"
    and g: "g = [SignalActor] @ ApiActor # concat (map flow_actors flows)"
    using app_Start_parts[OF assms(2)] by auto
  have "map fw_Name flows = map fl_Name (co_Flows c)"
    using createFlows_all[OF assms(1) fs assms(3)]
    by (induction rule: list_all2_induct) (simp_all add: flow_connected_def Let_def)
  then have "distinct (map fw_Name flows)" using Config_New_flows[OF assms(1)] by simp
  then have "distinct g" unfolding g by (rule distinct_actors)
  moreover have "stopped_before g x y" if f: "f \<in> set flows" and b: "stopped_before (flow_actors f) x y" for f x y
  proof -
    obtain fs1 fs2 where split: "flows = fs1 @ f # fs2" using f by (meson split_list)
    show ?thesis
      using stopped_before_append[OF b, of "[SignalActor] @ ApiActor # concat (map flow_actors fs1)"
        "concat (map flow_actors fs2)"] by (simp add: g split)
  qed
  ultimately show ?thesis using flow_actors_order by blast
qed

lemma app_actors_ordered:
  assumes "Config_New unmarshal confData = Inr c" and "app_Start env c e = Ret (flows, a, g)"
    and "intn_in_range e"
  shows "actors_ordered g"
proof -
  obtain e' where fs: "createFlows env (co_Flows c) e = Ret (flows, e')"
    and g: "g = SignalActor # ApiActor # concat (map flow_actors flows)"
    by (rule app_Start_parts[OF assms(2)])
  note order = actors_order[OF assms]
  have mem: "\<exists>f \<in> set flows. x \<in> set (flow_actors f)" if "x \<in> set g" "actor_ctx x \<noteq> None" for x
    using that g by auto
  have ctx: "\<forall>x \<in> set (concat (map flow_actors flows)). actor_ctx x \<noteq> None"
    by (auto simp: in_flow_actors)
  have workers: "fw_UploadWorkers f \<noteq> []" if "f \<in> set flows" for f
  proof -
    from createFlows_all[OF assms(1) fs assms(3)] that obtain cf where
      cf: "cf \<in> set (co_Flows c)" "flow_connected env cf f"
      by (fastforce simp: list_all2_conv_all_nth in_set_conv_nth)
    with Config_New_flows[OF assms(1)] have "0 < fl_MaxConcurrentUploads cf" by blast
    moreover from cf(2) have "fw_UploadWorkers f =
        replicate (nat (fl_MaxConcurrentUploads cf)) (hd (fw_UploadWorkers f))"
      unfolding flow_connected_def Let_def by (elim conjE)
    ultimately show ?thesis by (metis length_replicate list.size(3) zero_less_nat_eq less_irrefl)
  qed
  have "distinct g" using order by blast
  moreover have "stopped_before g (AccumulatorActor n) (UploaderActor n)" if "AccumulatorActor n \<in> set g" for n
    using mem[OF that] order by (auto simp: in_flow_actors)
  moreover have "stopped_before g (UploaderActor n) (WorkerActor n i)" if "WorkerActor n i \<in> set g" for n i
    using mem[OF that] order by (auto simp: in_flow_actors)
  moreover have "\<exists>i. WorkerActor n i \<in> set g" if "UploaderActor n \<in> set g" for n
  proof -
    from mem[OF that] obtain f where f: "f \<in> set flows" "n = fw_Name f" by (auto simp: in_flow_actors)
    with workers[OF f(1)] have "WorkerActor n 0 \<in> set (flow_actors f)" by (auto simp: in_flow_actors)
    with f(1) show ?thesis by (intro exI[of _ 0]) (auto simp: g)
  qed
  ultimately show ?thesis using g ctx unfolding actors_ordered_def by blast
qed

lemma app_has_flows:
  assumes "Config_New unmarshal confData = Inr c" and "app_Start env c e = Ret (flows, a, g)"
    and "intn_in_range e"
  shows "\<exists>x fl. g = SignalActor # ApiActor # x # fl \<and> actor_ctx x \<noteq> None"
proof -
  obtain e' where fs: "createFlows env (co_Flows c) e = Ret (flows, e')"
    and g: "g = SignalActor # ApiActor # concat (map flow_actors flows)"
    by (rule app_Start_parts[OF assms(2)])
  have "flows \<noteq> []"
    using createFlows_all[OF assms(1) fs assms(3)] Config_New_flows[OF assms(1)] by auto
  then obtain f fs' where "flows = f # fs'" by (cases flows) auto
  moreover have "UploaderActor (fw_Name f) \<in> set (flow_actors f)" by (simp add: in_flow_actors)
  ultimately obtain x fl where x: "concat (map flow_actors flows) = x # fl" "x \<in> set (concat (map flow_actors flows))"
    by (cases "concat (map flow_actors flows)") auto
  have "actor_ctx x \<noteq> None" using x(2) by (auto simp: in_flow_actors)
  with g x(1) show ?thesis by simp
qed

subsection \<open>When a component had not begun\<close>

definition hung :: "actor list \<Rightarrow> 'y life \<Rightarrow> bool" where
  "hung g s \<longleftrightarrow> lf_waiting s = Some None \<and> lf_next s < length g \<and> \<not> life_stopped s"

lemma hung_step: "life_step g s t \<Longrightarrow> hung g s \<Longrightarrow> hung g t"
  by (induction rule: life_step.induct) (simp_all add: hung_def life_stopped_def app_Stop_def)

lemma hung_reach: "life_reach g s t \<Longrightarrow> hung g s \<Longrightarrow> hung g t"
  by (induction rule: life_reach.induct) (auto intro: hung_step)

lemma early_hang:
  assumes g: "g = SignalActor # ApiActor # x # fl" "actor_ctx x \<noteq> None"
    and "\<not> chan_closed (ap_shutdownDone ap)"
  shows "\<exists>s ctx. life_reach g (life_start ap) s \<and> hung g s \<and> lf_cancelled s ctx"
proof -
  define s0 where "s0 = life_start ap"
  define s1 where "s1 = s0\<lparr>lf_phase := (lf_phase s0)(ApiActor := Executing)\<rparr>"
  define s2 where "s2 = actor_returns ApiActor
    (Some (Wrapf ''when serving HTTP: %w'' (Error ''bind: address already in use''))) s1"
  define s3 where "s3 = actor_interrupt SignalActor s2"
  define s4 where "s4 = actor_interrupt ApiActor s3"
  define s5 where "s5 = actor_interrupt x s4"
  note defs = s0_def s1_def s2_def life_start_def
  have x: "x \<noteq> ApiActor" using g(2) by auto
  have a1: "life_step g s0 s1"
    unfolding s1_def by (rule life_step.begins) (simp_all add: g s0_def life_start_def)
  have a2: "life_step g s1 s2"
    unfolding s2_def api_fails[symmetric]
    by (rule life_step.api_returns) (simp_all add: s1_def s0_def life_start_def)
  have f2: "lf_first s2 \<noteq> None" "lf_waiting s2 = None" "lf_next s2 = 0"
    "lf_phase s2 x = NotBegun" "\<not> life_stopped s2"
    using x assms(3) by (simp_all add: defs life_stopped_def)
  have a3: "life_step g s2 s3" using life_step.interrupts[of s2 g] f2 by (simp add: s3_def g)
  have f3: "lf_first s3 \<noteq> None" "lf_waiting s3 = None" "lf_next s3 = 1"
    "lf_phase s3 x = NotBegun" "\<not> life_stopped s3"
    using f2 by (simp_all add: s3_def) (simp_all add: actor_interrupt_def)
  have a4: "life_step g s3 s4" using life_step.interrupts[of s3 g] f3 by (simp add: s4_def g)
  have f4: "lf_first s4 \<noteq> None" "lf_waiting s4 = None" "lf_next s4 = 2"
    "lf_phase s4 x = NotBegun" "\<not> life_stopped s4"
    using f3 by (simp_all add: s4_def) (simp_all add: actor_interrupt_def)
  have a5: "life_step g s4 s5" using life_step.interrupts[of s4 g] f4 by (simp add: s5_def g)
  have "hung g s5"
    using f4 g(2) unfolding hung_def s5_def
    by (simp add: g(1)) (auto simp: actor_interrupt_def actor_Done_def)
  moreover have "\<exists>ctx. lf_cancelled s5 ctx"
    using g(2) by (auto simp: s5_def actor_interrupt_def)
  moreover have "life_reach g s0 s5"
    by (intro life_reach.life_there[OF _ a5] life_reach.life_there[OF _ a4]
        life_reach.life_there[OF _ a3] life_reach.life_there[OF _ a2] life_reach_step[OF a1])
  ultimately show ?thesis unfolding s0_def by blast
qed

subsection \<open>Properties\<close>

text \<open>
  C15 (safety): the shutdown follows the data.  In every state the application can get into, whoever
  begins the shutdown and however the goroutines interleave, the context of a component of a flow is
  cancelled only after the API was shut down; the uploader's only after the accumulator has returned;
  the workers' only after the uploader has returned.  No component returns before its context is
  cancelled, so it is the signal or the API that ends the run group first; and \<open>shutdownDone\<close> is
  closed only when all actors have returned.
\<close>

theorem shutdown_follows_the_data:
  assumes "Config_New unmarshal confData = Inr c" and "app_Start env c e = Ret (flows, a, g)"
    and "intn_in_range e" and "\<not> chan_closed (ap_shutdownDone ap)"
    and "life_reach g (life_start ap) s"
  shows "(\<forall>ctx. lf_cancelled s ctx \<longrightarrow> lf_api_closed s) \<and>
    (\<forall>n. lf_cancelled s (UploaderCtx n) \<and> AccumulatorActor n \<in> set g \<longrightarrow>
       lf_phase s (AccumulatorActor n) = Exited) \<and>
    (\<forall>n. lf_cancelled s (WorkersCtx n) \<longrightarrow> lf_phase s (UploaderActor n) = Exited) \<and>
    (\<forall>x ctx. lf_phase s x = Exited \<and> actor_ctx x = Some ctx \<longrightarrow> lf_cancelled s ctx) \<and>
    (\<forall>x err. lf_first s = Some (x, err) \<longrightarrow> x = SignalActor \<and> err = None \<or> x = ApiActor \<and> err \<noteq> None) \<and>
    (life_stopped s \<longrightarrow> (\<forall>x \<in> set g. lf_phase s x = Exited))"
proof -
  note ok = app_actors_ordered[OF assms(1-3)]
  have inv: "life_inv g s" by (rule life_inv_reach[OF assms(5) life_inv_start[OF assms(4)] ok])
  have "x = SignalActor \<and> err = None \<or> x = ApiActor \<and> err \<noteq> None" if "lf_first s = Some (x, err)" for x err
  proof -
    from inv that have "actor_ctx x = None" "x = SignalActor \<longleftrightarrow> err = None"
      by (auto simp: life_inv_def returned_inv_def)
    then show ?thesis by (cases x) simp_all
  qed
  then show ?thesis
    using cancelled_api[OF inv ok] uploader_cancelled[OF inv ok] workers_cancelled[OF inv ok] inv
    by (auto simp: life_inv_def returned_inv_def)
qed

lemma shutdown_follows_the_data_witness:
  "\<exists>f a g. \<exists>s :: unit life. app_Start sample_env (sample_config 2) sample_fp_env = Ret ([f], a, g) \<and>
     life_reach g (life_start (app_New (sample_config 2))) s \<and> lf_waiting s \<noteq> None \<and> lf_api_closed s"
proof -
  obtain f a g where st: "app_Start sample_env (sample_config 2) sample_fp_env = Ret ([f], a, g)"
    using sample_starts by blast
  obtain x fl where g: "g = SignalActor # ApiActor # x # fl" "actor_ctx x \<noteq> None"
    using app_has_flows[OF sample_config_accepted st sample_fp_env_ok] by blast
  have op: "\<not> chan_closed (ap_shutdownDone (app_New (sample_config 2)))" by (simp add: app_New_def)
  from early_hang[OF g op] obtain s ctx where
    s: "life_reach g (life_start (app_New (sample_config 2))) s" "hung g s" "lf_cancelled s ctx" by blast
  from shutdown_follows_the_data[OF sample_config_accepted st sample_fp_env_ok op s(1)] s(3)
  have "lf_api_closed s" by blast
  with st s show ?thesis by (auto simp: hung_def)
qed



text \<open>
  C17 (error): the shutdown of an application may hang for ever.  \<open>Done\<close> gives the channel that \<open>Run\<close>
  makes, so before \<open>Run\<close> it gives nil, and receiving from nil blocks.  Whatever the configuration,
  from the very start, and so also when \<open>Stop\<close> was called before it, there is a run, in which the
  API cannot listen and fails before the goroutine of the first component begins, after which
  \<open>shutdownDone\<close> is never closed, whatever happens.
\<close>

theorem early_stop_hangs:
  assumes "Config_New unmarshal confData = Inr c" and "app_Start env c e = Ret (flows, a, g)"
    and "intn_in_range e"
  shows "\<exists>s. life_reach g (life_start (fst (app_Stop (app_New c)))) s \<and>
    (\<forall>t. life_reach g s t \<longrightarrow> \<not> life_stopped t)"
proof -
  obtain x fl where g: "g = SignalActor # ApiActor # x # fl" "actor_ctx x \<noteq> None"
    using app_has_flows[OF assms] by blast
  obtain s where s: "life_reach g (life_start (fst (app_Stop (app_New c)))) s" "hung g s"
    using early_hang[OF g, of "fst (app_Stop (app_New c))"] by (auto simp: app_New_def app_Stop_def)
  from s(2) have "\<not> life_stopped t" if "life_reach g s t" for t
    using hung_reach[OF that] by (simp add: hung_def)
  with s(1) show ?thesis by blast
qed

lemma early_stop_hangs_witness:
  "\<exists>f a g. \<exists>s :: unit life. app_Start sample_env (sample_config 2) sample_fp_env = Ret ([f], a, g) \<and>
     (\<forall>t. life_reach g s t \<longrightarrow> \<not> life_stopped t)"
proof -
  obtain f a g where st: "app_Start sample_env (sample_config 2) sample_fp_env = Ret ([f], a, g)"
    using sample_starts by blast
  from early_stop_hangs[OF sample_config_accepted st sample_fp_env_ok] st show ?thesis by blast
qed

end
