(* ===== verification/Startup.thy ===== *)
theory Startup
  imports Lifecycle
begin

text \<open>
  From the command line to the run group: \<open>main\<close> of src/cmd/main.go, \<open>NewTracer\<close> of
  pkg/o11y/tracing/tracer.go, and \<open>Start\<close> of pkg/app/app.go with its deferred calls.  The
  OpenTelemetry packages are the parameter \<open>tracing_env\<close>: the exporter, the merging of the
  resource for a service name, and the shutdown of a provider with a deadline; automaxprocs is the
  error that \<open>maxprocs.Set\<close> returns.
\<close>

subsection \<open>Tracing\<close>

record ('x, 'r) tracing_env =
  te_newExporter :: "error + 'x"
  te_mergeResource :: "string \<Rightarrow> error + 'r"
  te_Shutdown :: "'x \<Rightarrow> 'r \<Rightarrow> int \<Rightarrow> error option"

datatype ('x, 'r) tracer = NoopTracer | ProviderTracer 'x 'r

definition NewNoopTracer :: "('x, 'r) tracer" where "NewNoopTracer = NoopTracer"

definition newExporter :: "('x, 'r) tracing_env \<Rightarrow> 'x go" where
  "newExporter te =
     (case te_newExporter te of Inl err \<Rightarrow> Panic ''the exporter cannot be made'' | Inr x \<Rightarrow> Ret x)"

definition buildResource :: "('x, 'r) tracing_env \<Rightarrow> tracing_config \<Rightarrow> 'r go" where
  "buildResource te conf =
     (case te_mergeResource te (tr_ServiceName conf) of
        Inl err \<Rightarrow> Panic ''the resources cannot be merged'' | Inr r \<Rightarrow> Ret r)"

text \<open>The tracer, and the function that shuts it down.\<close>

definition NewTracer ::
  "('x, 'r) tracing_env \<Rightarrow> tracing_config \<Rightarrow> (('x, 'r) tracer \<times> (int \<Rightarrow> error option)) go" where
  "NewTracer te conf =
     (if \<not> tr_Enabled conf then Ret (NewNoopTracer, \<lambda>deadline. None)
      else go_bind (newExporter te) (\<lambda>x. go_bind (buildResource te conf) (\<lambda>r.
        Ret (ProviderTracer x r, te_Shutdown te x r))))"

text \<open>An error is logged only.\<close>

definition shutdownTracer :: "(int \<Rightarrow> error option) \<Rightarrow> error option" where
  "shutdownTracer shutdownFunc = shutdownFunc (2 * 1000000000)"

subsection \<open>Start\<close>

text \<open>
  The deferred calls, the last one registered first.  They run when \<open>Start\<close> returns and when it
  panics.
\<close>

datatype deferred = CloseShutdownDone | ShutdownTracer "int \<Rightarrow> error option"

fun run_deferred :: "deferred \<Rightarrow> 'y app \<Rightarrow> 'y app go" where
  "run_deferred CloseShutdownDone a =
     go_bind (chan_close (ap_shutdownDone a)) (\<lambda>ch. Ret (a\<lparr>ap_shutdownDone := ch\<rparr>))"
| "run_deferred (ShutdownTracer f) a = (let err = shutdownTracer f in Ret a)"

record ('y, 'e, 'q, 'w) started_app =
  sa_app :: "'y app"
  sa_flows :: "('e, 'q, 'w) flow list"
  sa_api :: "'y api"
  sa_group :: "actor list"
  sa_deferred :: "deferred list"

text \<open>\<open>Start\<close> up to \<open>g.Run()\<close>: what it made, or the panic, and the deferred calls.\<close>

definition Start ::
  "('x, 'r) tracing_env \<Rightarrow> ('y, 'e, 'q, 'w) app_env \<Rightarrow> 'y app \<Rightarrow> fp_env \<Rightarrow>
   ('y, 'e, 'q, 'w) started_app go \<times> deferred list" where
  "Start te env a e =
     (let deferred = [CloseShutdownDone] in
      case NewTracer te (oy_Tracing (co_O11y (ap_conf a))) of
        Panic m \<Rightarrow> (Panic m, deferred)
      | Block \<Rightarrow> (Block, deferred)
      | Ret (tracer, shutdownFunc) \<Rightarrow>
          (let deferred = ShutdownTracer shutdownFunc # deferred in
           (go_bind (app_Start env (ap_conf a) e) (\<lambda>(flows, api, g).
              Ret \<lparr>sa_app = a, sa_flows = flows, sa_api = api, sa_group = g, sa_deferred = deferred\<rparr>),
            deferred)))"

text \<open>What is left of the application when \<open>Start\<close> has panicked or the run group has returned.\<close>

definition unwind :: "deferred list \<Rightarrow> 'y app \<Rightarrow> 'y app go" where
  "unwind ds a = go_foreach run_deferred ds a"

subsection \<open>main\<close>

definition initializeLogger :: "'y config \<Rightarrow> log_handler" where
  "initializeLogger c = logger_New (oy_Log (co_O11y c))"

definition main_go ::
  "(string \<Rightarrow> error + bytes) \<Rightarrow> (bytes \<Rightarrow> error + 'y config) \<Rightarrow> error option \<Rightarrow>
   ('x, 'r) tracing_env \<Rightarrow> ('y, 'e, 'q, 'w) app_env \<Rightarrow> string \<Rightarrow> fp_env \<Rightarrow>
   (log_handler \<times> ('y, 'e, 'q, 'w) started_app) go" where
  "main_go readFile unmarshal maxprocs_Set te env configPath e =
     (if configPath = [] then
        Panic ''no config file path provided. Usage is: <command> --config <FILE_PATH>''
      else
        go_bind (initializeConfig readFile unmarshal configPath) (\<lambda>config.
          let l = initializeLogger config in
          if \<not> co_DisableMaxProcs config \<and> maxprocs_Set \<noteq> None then Panic ''maxprocs.Set''
          else go_bind (fst (Start te env (app_New config) e)) (\<lambda>s. Ret (l, s))))"

subsection \<open>When the program starts\<close>

definition tracing_possible :: "('x, 'r) tracing_env \<Rightarrow> tracing_config \<Rightarrow> bool" where
  "tracing_possible te conf \<longleftrightarrow> (tr_Enabled conf \<longrightarrow>
     (\<exists>x r. te_newExporter te = Inr x \<and> te_mergeResource te (tr_ServiceName conf) = Inr r))"

lemma NewTracer_cases:
  "if tracing_possible te conf then go_returns (NewTracer te conf) else go_panics (NewTracer te conf)"
  by (auto simp: NewTracer_def newExporter_def buildResource_def tracing_possible_def split: sum.splits)

definition app_startable :: "('x, 'r) tracing_env \<Rightarrow> ('y, 'e, 'q, 'w) app_env \<Rightarrow> 'y config \<Rightarrow> bool" where
  "app_startable te env c \<longleftrightarrow> tracing_possible te (oy_Tracing (co_O11y c)) \<and>
     (\<forall>f \<in> set (co_Flows c). flow_creatable env f \<and>
        0 \<le> dc_MaxConcurrency (ig_Decompression (fl_Ingestion f)))"

text \<open>The version that \<open>main\<close> writes into the configuration plays no part in its validation.\<close>

lemma Config_New_version:
  assumes "Config_New unmarshal confData = Inr c"
  shows "\<exists>r. Config_New (\<lambda>_. Inr r) confData = Inr (c\<lparr>co_Version := v\<rparr>)"
proof -
  obtain r where r: "c = config_fillDefaultValues r" "config_validate c = None"
    using assms by (auto simp: Config_New_def Let_def split: sum.splits option.splits)
  have "config_fillDefaultValues (r\<lparr>co_Version := v\<rparr>) = c\<lparr>co_Version := v\<rparr>"
    by (simp add: r(1) config_fillDefaultValues_def)
  moreover have "config_validate (c\<lparr>co_Version := v\<rparr>) = config_validate c"
    by (simp add: config_validate_def)
  ultimately show ?thesis
    using r(2) by (intro exI[of _ "r\<lparr>co_Version := v\<rparr>"]) (simp add: Config_New_def Let_def)
qed

lemma Start_cases:
  assumes "Config_New unmarshal confData = Inr (ap_conf a)" and "intn_in_range e"
  shows "if app_startable te env (ap_conf a) then go_returns (fst (Start te env a e))
    else go_panics (fst (Start te env a e))"
proof -
  note nt = NewTracer_cases[of te "oy_Tracing (co_O11y (ap_conf a))"]
  have app: "if \<forall>f \<in> set (co_Flows (ap_conf a)). flow_creatable env f \<and>
        0 \<le> dc_MaxConcurrency (ig_Decompression (fl_Ingestion f))
      then go_returns (app_Start env (ap_conf a) e) else go_panics (app_Start env (ap_conf a) e)"
    using app_Start_returns_iff[OF assms, of env] app_Start_not_Block[of env "ap_conf a" e]
    by (cases "app_Start env (ap_conf a) e") auto
  show ?thesis
  proof (cases "NewTracer te (oy_Tracing (co_O11y (ap_conf a)))")
    case (Ret x)
    obtain tracer shut where x: "x = (tracer, shut)" by fastforce
    from nt Ret have "tracing_possible te (oy_Tracing (co_O11y (ap_conf a)))" by (auto split: if_splits)
    with app show ?thesis
      by (cases "app_Start env (ap_conf a) e") (auto simp: Start_def Ret x app_startable_def Let_def split: if_splits)
  qed (use nt in \<open>auto simp: Start_def app_startable_def Let_def split: if_splits\<close>)
qed

lemma Start_Ret:
  assumes "fst (Start te env a e) = Ret s"
  shows "sa_app s = a \<and> sa_deferred s = snd (Start te env a e) \<and>
    app_Start env (ap_conf a) e = Ret (sa_flows s, sa_api s, sa_group s)"
  using assms by (auto simp: Start_def go_bind_Ret_iff Let_def split: go.splits)

lemma Start_unwinds:
  assumes "\<not> chan_closed (ap_shutdownDone a)"
  shows "unwind (snd (Start te env a e)) a =
    Ret (a\<lparr>ap_shutdownDone := (ap_shutdownDone a)\<lparr>chan_closed := True\<rparr>\<rparr>)"
  using assms by (auto simp: Start_def unwind_def chan_close_def Let_def split: go.split)

subsection \<open>Properties\<close>


definition no_tracing :: "(unit, unit) tracing_env" where
  "no_tracing = \<lparr>te_newExporter = Inl (Error ''no collector''), te_mergeResource = (\<lambda>_. Inr ()),
     te_Shutdown = (\<lambda>_ _ _. None)\<rparr>"


end
