(* ===== verification/Validator.thy ===== *)
theory Validator
  imports Ext_Queue Obj_Storage Worker Packing File_Pather
begin

text \<open>
  The command of the end-to-end test, src/test/validator/main.go, which is a consumer of what the
  program makes: it posts payloads, takes a message from the queue, gets the object that the message
  names, decompresses it and compares.  SQS, S3 and the HTTP client are the parameter \<open>validator_env\<close>, on
  an external state \<open>'e\<close>; the random draws come from \<open>fp_env\<close>.  \<open>json.Unmarshal\<close>, which accepts far
  more texts than the program writes, is the field \<open>ve_Unmarshal\<close>; what is asked of it is that on the
  marshalling of a queue message it fills in the fields that the validator's type names.
\<close>

subsection \<open>Data\<close>

record validator_bucket =
  vb_Name :: string
  vb_Region :: string

record validator_object =
  vo_Path :: string

record validator_message =
  vm_Bucket :: validator_bucket
  vm_Object :: validator_object

text \<open>
  \<open>ve_Post url contentType body\<close>; \<open>ve_ReceiveMessage\<close> gives the receipt handles and bodies of the
  messages, at most as many as asked for; \<open>ve_DeleteMessage\<close> takes the receipt handle; \<open>ve_GetObject bucket key\<close> gives the reader of the body.
\<close>

record 'e validator_env =
  ve_Post :: "'e \<Rightarrow> string \<Rightarrow> string \<Rightarrow> string \<Rightarrow> 'e \<times> error option"
  ve_LoadDefaultConfig :: "string \<Rightarrow> error option"
  ve_ReceiveMessage :: "'e \<Rightarrow> string \<Rightarrow> nat \<Rightarrow> 'e \<times> (error + (string \<times> string) list)"
  ve_DeleteMessage :: "'e \<Rightarrow> string \<Rightarrow> string \<Rightarrow> 'e \<times> error option"
  ve_GetObject :: "'e \<Rightarrow> string \<Rightarrow> string \<Rightarrow> 'e \<times> (error + io_reader)"
  ve_Getenv :: "string \<Rightarrow> string"
  ve_Unmarshal :: "string \<Rightarrow> error + validator_message"

definition characters :: string where
  "characters = ''abcdefghijklmnopqrstuvwxyzABCDEFGHIJKLMNOPQRSTUVWXYZ''"

definition randSeq :: "nat \<Rightarrow> fp_env \<Rightarrow> (string \<times> fp_env) go" where
  "randSeq n e =
     go_foreach (\<lambda>i (b, e). go_bind (rand_Intn (int (length characters)) e) (\<lambda>(k, e).
       if k < 0 \<or> int (length characters) \<le> k then Panic ''index out of range''
       else Ret (b @ [characters ! nat k], e))) [0..<n] ([], e)"

definition io_ReadAll :: "io_reader \<Rightarrow> error + bytes" where
  "io_ReadAll r = (case rd_end r of Some err \<Rightarrow> Inl err | None \<Rightarrow> Inr (rd_data r))"

subsection \<open>The command\<close>

text \<open>What is done with the message, from its body to the exit code.\<close>

definition validator_check ::
  "'e validator_env \<Rightarrow> 'w codecs \<Rightarrow> string \<Rightarrow> string \<Rightarrow> 'e \<Rightarrow> 'e \<times> int" where
  "validator_check env cd body expected e =
     (case ve_Unmarshal env body of
        Inl err \<Rightarrow> (e, 1)
      | Inr content \<Rightarrow>
          if vb_Name (vm_Bucket content) \<noteq> ve_Getenv env ''JIBOIA_S3_BUCKET'' then (e, 1)
          else
            (case ve_GetObject env e (vb_Name (vm_Bucket content)) (vo_Path (vm_Object content)) of
               (e, Inl err) \<Rightarrow> (e, 1)
             | (e, Inr result) \<Rightarrow>
                 (case io_ReadAll result of
                    Inl err \<Rightarrow> (e, 1)
                  | Inr downloadedContent \<Rightarrow>
                      (case NewReader cd \<lparr>cp_Level = [], cp_Type = GzipType, cp_PreallocSlicePercentage = 0\<rparr>
                              \<lparr>rd_chunks = [downloadedContent], rd_end = None\<rparr> of
                         Inl err \<Rightarrow> (e, 1)
                       | Inr decompressor \<Rightarrow>
                           (case io_ReadAll decompressor of
                              Inl err \<Rightarrow> (e, 1)
                            | Inr decompressedContent \<Rightarrow>
                                if decompressedContent \<noteq> string_bytes expected then (e, 1) else (e, 0))))))"

definition validator_url :: string where
  "validator_url = ''http://localhost:9099/jiboia-flow/async_ingestion''"

fun validator_posts :: "'e validator_env \<Rightarrow> string list \<Rightarrow> 'e \<Rightarrow> 'e \<times> error option" where
  "validator_posts env [] e = (e, None)"
| "validator_posts env (d # ds) e =
     (case ve_Post env e validator_url ''application/json'' d of
        (e, Some err) \<Rightarrow> (e, Some err)
      | (e, None) \<Rightarrow> validator_posts env ds e)"

definition validator_receive ::
  "'e validator_env \<Rightarrow> 'w codecs \<Rightarrow> string \<Rightarrow> string \<Rightarrow> 'e \<Rightarrow> 'e \<times> int" where
  "validator_receive env cd queueURL expected e =
     (if ve_LoadDefaultConfig env ''us-east-1'' \<noteq> None then (e, 1)
      else
        (case ve_ReceiveMessage env e queueURL 1 of
           (e, Inl err) \<Rightarrow> (e, 1)
         | (e, Inr []) \<Rightarrow> (e, 1)
         | (e, Inr ((receiptHandle, body) # _)) \<Rightarrow>
             (case ve_DeleteMessage env e queueURL receiptHandle of
                (e, Some err) \<Rightarrow> (e, 1)
              | (e, None) \<Rightarrow> validator_check env cd body expected e)))"

definition validator_main ::
  "'e validator_env \<Rightarrow> 'w codecs \<Rightarrow> string \<Rightarrow> fp_env \<Rightarrow> 'e \<Rightarrow> ('e \<times> int) go" where
  "validator_main env cd queueURL rnd e =
     (if queueURL = [] then Ret (e, 1)
      else
        go_bind (randSeq 20 rnd) (\<lambda>(expected1, rnd).
        go_bind (randSeq 25 rnd) (\<lambda>(expected2, rnd).
        go_bind (randSeq 2 rnd) (\<lambda>(ignored, rnd).
          case validator_posts env [expected1, expected2, ignored] e of
            (e, Some err) \<Rightarrow> Ret (e, 1)
          | (e, None) \<Rightarrow>
              Ret (validator_receive env cd queueURL (expected1 @ ''__n__'' @ expected2) e)))))"

subsection \<open>Lemmas\<close>

lemma randSeq_Ret:
  assumes "intn_in_range e"
  shows "\<exists>s e'. randSeq n e = Ret (s, e') \<and> length s = n \<and> intn_in_range e'"
proof -
  have "\<exists>s e'. go_foreach (\<lambda>i (b, e). go_bind (rand_Intn (int (length characters)) e) (\<lambda>(k, e).
       if k < 0 \<or> int (length characters) \<le> k then Panic ''index out of range''
       else Ret (b @ [characters ! nat k], e))) xs (b, e) = Ret (s, e') \<and>
     length s = length b + length xs \<and> intn_in_range e'" for xs :: "nat list" and b
    using assms
  proof (induction xs arbitrary: b e)
    case (Cons x xs)
    have "0 \<le> fe_intn e (fe_ints_drawn e) 52 \<and> fe_intn e (fe_ints_drawn e) 52 < 52"
      using Cons.prems by (simp add: intn_in_range_def)
    moreover have "intn_in_range (e\<lparr>fe_ints_drawn := Suc (fe_ints_drawn e)\<rparr>)"
      using Cons.prems by (simp add: intn_in_range_def)
    ultimately show ?case
      using Cons.IH[of "e\<lparr>fe_ints_drawn := Suc (fe_ints_drawn e)\<rparr>"
          "b @ [characters ! nat (fe_intn e (fe_ints_drawn e) 52)]"]
      by (auto simp: rand_Intn_def characters_def)
  qed simp
  from this[of "[0..<n]" "[]"] show ?thesis by (simp add: randSeq_def)
qed

text \<open>
  What S3 promises: an object that was uploaded without an error can be got, and is what was uploaded.
\<close>

definition s3_keeps :: "'e s3_api \<Rightarrow> 'e validator_env \<Rightarrow> bool" where
  "s3_keeps api env \<longleftrightarrow>
     (\<forall>e deadline b key d e' loc. s3_UploadObject api e deadline b key d = (e', Inr loc) \<longrightarrow>
        (\<exists>r. ve_GetObject env e' b key = (e', Inr r) \<and> rd_data r = d \<and> rd_end r = None))"

text \<open>What \<open>encoding/json\<close> promises: keys of the text that name no field are ignored.\<close>

definition json_reads :: "'e validator_env \<Rightarrow> bool" where
  "json_reads env \<longleftrightarrow>
     (\<forall>body m. read_message body = Some m \<longrightarrow>
        ve_Unmarshal env body =
          Inr \<lparr>vm_Bucket = \<lparr>vb_Name = qb_Name (qm_Bucket m), vb_Region = qb_Region (qm_Bucket m)\<rparr>,
               vm_Object = \<lparr>vo_Path = qo_Path (qm_Object m)\<rparr>\<rparr>)"

lemma gzip_read_back:
  assumes "lossless_codecs cd" and "compress cd conf d = Ret (Inr out)"
    and "strings_ToLower (cp_Type conf) = GzipType" and "rd_data r = out" and "rd_end r = None"
  shows "\<exists>r'. NewReader cd \<lparr>cp_Level = [], cp_Type = GzipType, cp_PreallocSlicePercentage = 0\<rparr> r = Inr r' \<and>
    rd_data r' = d \<and> rd_end r' = None"
proof -
  obtain r' where r': "NewReader cd conf r = Inr r'" "rd_data r' = d" "rd_end r' = None"
    using lossless_codecs.read_back_written[OF assms(1,2,4,5)] by blast
  have "strings_ToLower GzipType = GzipType" by code_simp
  with r'(1) assms(3) have "NewReader cd \<lparr>cp_Level = [], cp_Type = GzipType, cp_PreallocSlicePercentage = 0\<rparr> r = Inr r'"
    by (auto simp: NewReader_def Let_def split: sum.splits)
  with r'(2,3) show ?thesis by blast
qed

lemma s3_Upload_Inr:
  assumes "s3_Upload api bucket u e = (e', Inr res)"
  obtains deadline loc where
    "s3_UploadObject api e deadline (s3_name bucket) (ur_Path res) (wu_Data u) = (e', Inr loc)"
    "ur_Bucket res = s3_name bucket"
proof -
  obtain r where d: "doUpload api bucket (mergeParts (s3_fixedPrefix bucket) (wu_Prefix u) (wu_Filename u)) (wu_Data u) e = (e', r)"
    using assms by (auto simp: s3_Upload_def Let_def split: prod.splits sum.splits)
  with assms obtain loc where "r = Inr loc" "ur_Bucket res = s3_name bucket"
    "ur_Path res = mergeParts (s3_fixedPrefix bucket) (wu_Prefix u) (wu_Filename u)"
    by (cases r) (auto simp: s3_Upload_def Let_def)
  with d that show thesis unfolding doUpload_def by metis
qed

subsection \<open>Properties\<close>


type_synonym cloud = "string \<times> string \<Rightarrow> bytes option"

definition cloud_s3 :: "cloud s3_api" where
  "cloud_s3 = \<lparr>s3_LoadDefaultConfig = (\<lambda>_ _. None),
     s3_UploadObject = (\<lambda>e _ b k d. (e((b, k) \<mapsto> d), Inr (Some (''https://'' @ b @ ''/'' @ k))))\<rparr>"

definition cloud_validator :: "cloud validator_env" where
  "cloud_validator = \<lparr>ve_Post = (\<lambda>e _ _ _. (e, None)), ve_LoadDefaultConfig = (\<lambda>_. None),
     ve_ReceiveMessage = (\<lambda>e _ _. (e, Inr [])), ve_DeleteMessage = (\<lambda>e _ _. (e, None)),
     ve_GetObject = (\<lambda>e b k. (e, case e (b, k) of None \<Rightarrow> Inl (Error ''NoSuchKey'')
       | Some d \<Rightarrow> Inr \<lparr>rd_chunks = [d], rd_end = None\<rparr>)),
     ve_Getenv = (\<lambda>_. ''bucket''),
     ve_Unmarshal = (\<lambda>body. case read_message body of None \<Rightarrow> Inl (Error ''invalid message'')
       | Some m \<Rightarrow> Inr \<lparr>vm_Bucket = \<lparr>vb_Name = qb_Name (qm_Bucket m), vb_Region = qb_Region (qm_Bucket m)\<rparr>,
                     vm_Object = \<lparr>vo_Path = qo_Path (qm_Object m)\<rparr>\<rparr>)\<rparr>"

definition gzip_conf :: compression_config where
  "gzip_conf = \<lparr>cp_Level = [], cp_Type = ''gzip'', cp_PreallocSlicePercentage = 2\<rparr>"

lemma gzip_conf_type: "strings_ToLower (cp_Type gzip_conf) = GzipType"
  by code_simp

lemma framed_gzip: "compress framed_codecs gzip_conf d = Ret (Inr (31 # d @ [0]))"
proof -
  have "strings_ToLower ''gzip'' = ''gzip''" by code_simp
  then show ?thesis
    by (simp add: compress_def newCompressionResultBuffer_def NewWriter_def GzipType_def framed_codecs_def
        SmallestAllowedCompressorWriter_def gzip_conf_def Let_def)
qed

definition zero_draws :: fp_env where
  "zero_draws = \<lparr>fe_uuid = (\<lambda>_. ''u''), fe_uuids_drawn = 0, fe_intn = (\<lambda>_ _. 0), fe_ints_drawn = 0,
     fe_now = \<lparr>dt_year = 2024, dt_month = 1, dt_day = 2, dt_hour = 3\<rparr>\<rparr>"

lemma zero_draws_ok: "intn_in_range zero_draws"
  by (simp add: intn_in_range_def zero_draws_def)

lemma sample_draws:
  "\<exists>d1 d2 d3 r1 r2 r3. randSeq 20 zero_draws = Ret (d1, r1) \<and> randSeq 25 r1 = Ret (d2, r2) \<and>
     randSeq 2 r2 = Ret (d3, r3)"
  using randSeq_Ret zero_draws_ok by metis


end
