(* ===== verification/Spec2Isabelle.thy ===== *)
theory Spec2Isabelle
  imports Whole_Service Metrics_Registry Startup Validator
begin

text \<open>
  A verification development for jiboia, a Go service that receives payloads over HTTP, groups them
  into objects, and stores each object in one or more object storages, telling a message queue about
  it.  All paths below are under \<open>src/pkg\<close> unless they start with \<open>src\<close>.

  How the program works.  \<open>app/app.go\<close> builds a flow for every flow of the configuration.  A
  request of \<open>adapters/httpin\<close> passes the middlewares, is limited by a semaphore while it is
  decompressed, and is handed to the flow's entry point by \<open>Enqueue\<close>, which only puts it in a Go
  channel.  The entry point is an accumulator (\<open>accumulator\<close>), or, without a size, the uploader.  The
  accumulator's goroutine collects payloads until the next one would not fit, joins them with a
  separator, and enqueues the object on the uploader, through a circuit breaker, again and again until
  it is taken.  The uploader's goroutine (\<open>uploader\<close>) gives every object a path and sends it to a
  channel that the flow's workers share.  A worker (\<open>worker\<close>) compresses the object, uploads it to all
  storages concurrently, and enqueues a message for each object that was stored.  At shutdown, the
  stages are stopped in the order in which data flows, each after it has drained its channel.

  The theories and the code.
  \<^item> \<open>Prelude\<close>, \<open>Go_Chan\<close>, \<open>Go_Strings\<close>: what the source uses of Go.  A statement may return, panic or
    block (\<open>'a go\<close>); a channel is a buffer with a capacity and a closed flag, and every operation on it
    says when it blocks or panics; strings and their functions; errors as data.
  \<^item> \<open>Stage_Loop\<close>: the goroutine that accumulators and the uploader have in common (\<open>Run\<close>), as a step
    relation over the stage's state: concurrent \<open>Enqueue\<close>s, the reception of a payload, a tick, the
    cancellation, the flag, the closing of the channel, the drain and the end are separate steps and
    interleave.  \<open>st_accepted\<close> and \<open>st_handled\<close> are ghost lists.  The locale \<open>stage\<close> has its
    invariant (what was accepted is what was handled followed by what is in the buffer) and
    \<open>finishing_stage\<close> the completeness of the shutdown, both for any instance.  \<open>stage_run\<close>
    executes a list of events.
  \<^item> \<open>Delivery\<close>: the interfaces between stages: a data flow (\<open>Enqueue\<close>), a circuit breaker
    (\<open>Execute\<close>) and \<open>enqueueOnNext\<close>, the loop that tries until it succeeds, as a
    \<open>partial_function\<close> whose value is None when it never ends.
  \<^item> \<open>Packing\<close>: the specification of accumulation, independent of the code: how a list of payloads
    is cut into groups, and what the cut guarantees.
  \<^item> \<open>Accumulator_Size\<close>, \<open>Accumulator_Time\<close>: \<open>accumulator/accumulator_by_size.go\<close>,
    \<open>accumulator_by_time_n_size.go\<close>, \<open>metrics.go\<close>.  \<open>Accumulator_Flow\<close>: both, sending to the
    uploader's model through any breaker that recovers.
  \<^item> \<open>Domain\<close>, \<open>File_Pather\<close>, \<open>Uploader\<close>: \<open>domain\<close>, \<open>datetimeprovider\<close>, \<open>uploader\<close>.
  \<^item> \<open>Compression\<close>, \<open>Worker\<close>: \<open>compression\<close>, \<open>worker\<close>.
  \<^item> \<open>Worker_Pool\<close>: all workers of a flow at once, as a step relation in which every call to a
    storage or a queue is a step; the functions of \<open>Worker\<close> are runs of it.  \<open>Upload_Pipeline\<close>: the
    uploader's stage and the pool on the channel \<open>next\<close> they share.  \<open>Whole_Flow\<close>: either
    accumulator in front of them, the whole flow as one machine.
  \<^item> \<open>Obj_Storage\<close>, \<open>Ext_Queue\<close>: \<open>adapters/objstorage\<close>, \<open>adapters/externalqueue\<close>: the
    factories, the decorators with metrics, and each storage and queue.
  \<^item> \<open>Http_Middleware\<close>, \<open>Ingestion\<close>, \<open>Http_Api\<close>: \<open>adapters/httpin\<close>.  \<open>Serving\<close>: the requests of a flow
    on their goroutines, as a step relation in which \<open>ServeHTTP\<close> is cut at the breaker, the
    semaphore, \<open>Enqueue\<close> and the report; run alone the steps are the handler.  \<open>Whole_Service\<close>: the
    requests in front of the whole flow.
  \<^item> \<open>Config_Size\<close>, \<open>Config\<close>: \<open>config\<close>; sizes are parsed on 64-bit words.
  \<^item> \<open>Flow_Wiring\<close>: what \<open>createFlows\<close> and \<open>Start\<close> of \<open>App\<close> make, and when they panic.
    \<open>Lifecycle\<close>: \<open>New\<close>, \<open>Stop\<close>, the signals and the run group, as a step relation: the order of
    the shutdown, and whether it ends.  \<open>Startup\<close>: \<open>main\<close>, the set-up of tracing
    (\<open>o11y/tracing\<close>), and \<open>Start\<close> with its deferred calls; when the program starts.  This theory:
    the properties that span all of it.
  \<^item> \<open>App\<close>: \<open>app\<close>, \<open>logger\<close>, \<open>circuitbreaker/o11y.go\<close>, \<open>accumulator/factory.go\<close>,
    \<open>src/cmd/main.go\<close>.  \<open>Metrics_Registry\<close>: the descriptions of all metrics and their registration.
  \<^item> \<open>Validator\<close>: the command \<open>src/test/validator/main.go\<close> of the end-to-end test, a consumer: from the
    message on the queue it gets back the bytes that were accumulated.

  Interfaces.  Each use of one component by another goes through a locale whose laws the component's
  theory proves by an interpretation on the model of the code: \<open>fifo_channel\<close> (channels),
  \<open>stage\<close> and \<open>finishing_stage\<close> (the accumulators and the uploader), \<open>data_flow\<close> and
  \<open>next_stage\<close> (the uploader as the accumulator's next stage), \<open>circuit_breaker\<close>,
  \<open>guarded_flow\<close> and \<open>recovering_breaker\<close> (the dummy breaker and one that trips),
  \<open>file_path_provider\<close> (the file pather), \<open>lossless_codecs\<close> (the compression packages), \<open>fed_flow\<close> (the flow behind the
  requests).

  Parameters.  The compression packages, the S3 and SQS clients, HTTP clients, the YAML parser,
  gobreaker, the clock, the generators of UUIDs and random numbers, the OpenTelemetry packages, automaxprocs,
  the prometheus collectors, and \<open>net/http\<close> are arguments
  of the definitions that use them; what the code relies on is a hypothesis of the theorem or a law of
  a locale.

  What the lemmas show.  Each stage: an invariant of every reachable state, that the stage refines an
  abstract specification (the packing; one unit per payload, in order), that \<open>Enqueue\<close> never blocks,
  and that its shutdown can always be carried through.  The workers: no unit lost or uploaded twice
  under any interleaving, no deadlock, no infinite run.  The adapters: what is written, sent and
  counted on every branch.  The API: which status which request gets, how many decompressions run at
  once, what the middlewares do with panics and tokens.  The configuration: exactly what is accepted,
  and exactly what then starts.  Where the code does not do what it means to, the theorem says what it
  does.

  Termination and fuel.  Recursions are structural or have a measure (the buffer of a channel that is
  drained, the chunks a reader still has, the exponent of a size), so no fuel is needed; only
  \<open>enqueueOnNext\<close>'s retry loop may run for ever, and the theorems about it prove that it ends.

  Not modelled: the handlers of the prometheus and pprof packages, the http.Server itself, which is a
  step of \<open>Lifecycle\<close> that may fail, log lines, and the observations of the histograms.  What histograms observe and what logs say
  does not affect what the program does.
\<close>

subsection \<open>From the producers to the storages\<close>

text \<open>A flow of the application with its uploader's goroutine started, and no worker yet active.\<close>

definition flow_uploader :: "('e, 'q, 'w) flow \<Rightarrow> up_stage" where
  "flow_uploader f = stage_start (startRun_uploader (fw_Uploader f)) (fw_world f)"

definition flow_pipe ::
  "('e, 'q, 'w) flow \<Rightarrow> ('e, 'q) dst_state list \<Rightarrow> wk_metrics \<Rightarrow> up_stage \<times> ('e, 'q) dst_state pool" where
  "flow_pipe f es m = pipe_start (fw_Uploader f) (fw_world f) (length (fw_UploadWorkers f)) es m"

definition flow_worker :: "('e, 'q, 'w) flow \<Rightarrow> (('e, 'q) dst_state, 'w) worker" where
  "flow_worker f = hd (fw_UploadWorkers f)"

lemma started_flow:
  assumes "Config_New unmarshal confData = Inr c" and "app_Start env c e = Ret (flows, a, g)"
    and "intn_in_range e" and "f \<in> set flows"
  obtains cf where "cf \<in> set (co_Flows c)" "flow_connected env cf f" "0 < fl_MaxConcurrentUploads cf"
    "pather_ok (up_filePathProvider (fw_world f))"
proof -
  obtain e' where "createFlows env (co_Flows c) e = Ret (flows, e')" by (rule app_Start_parts[OF assms(2)])
  from createFlows_all[OF assms(1) this assms(3)] assms(4) obtain cf where
    "cf \<in> set (co_Flows c)" "flow_connected env cf f" "pather_ok (up_filePathProvider (fw_world f))"
    by (fastforce simp: list_all2_conv_all_nth in_set_conv_nth)
  moreover from this Config_New_flows[OF assms(1)] have "0 < fl_MaxConcurrentUploads cf" by blast
  ultimately show thesis using that by blast
qed

lemma started_flow_parts:
  assumes "flow_connected env cf f" and "0 < fl_MaxConcurrentUploads cf"
  shows "NewUploader (fl_MaxConcurrentUploads cf) (fl_QueueMaxSize cf) = Ret (fw_Uploader f)"
    "new_up_world (fl_MaxConcurrentUploads cf) (up_filePathProvider (fw_world f)) = Ret (fw_world f)"
    "0 < length (fw_UploadWorkers f)"
    "length (wk_destinations (flow_worker f)) = length (fw_ObjStorages f)"
proof -
  show "NewUploader (fl_MaxConcurrentUploads cf) (fl_QueueMaxSize cf) = Ret (fw_Uploader f)"
    "new_up_world (fl_MaxConcurrentUploads cf) (up_filePathProvider (fw_world f)) = Ret (fw_world f)"
    using assms(1) by (simp_all add: flow_connected_def Let_def)
  from assms(1) have "fw_UploadWorkers f =
      replicate (nat (fl_MaxConcurrentUploads cf)) (hd (fw_UploadWorkers f))"
    unfolding flow_connected_def Let_def by (elim conjE)
  then have "length (fw_UploadWorkers f) = nat (fl_MaxConcurrentUploads cf)" by (metis length_replicate)
  with assms(2) show "0 < length (fw_UploadWorkers f)" by simp
  from assms(1) have "map ds_Upload (wk_destinations (hd (fw_UploadWorkers f))) =
      map (storage_upload (ae_storage env)) (fw_ObjStorages f)"
    unfolding flow_connected_def Let_def by (elim conjE)
  then show "length (wk_destinations (flow_worker f)) = length (fw_ObjStorages f)"
    unfolding flow_worker_def by (metis length_map)
qed

lemma started_pipe_good:
  assumes "flow_connected env cf f" and "0 < fl_MaxConcurrentUploads cf"
    and "pather_ok (up_filePathProvider (fw_world f))" and "length es = length (fw_ObjStorages f)"
  shows "pipe_good (flow_worker f) (workInFlight m) (flow_pipe f es m)"
proof -
  note parts = started_flow_parts[OF assms(1,2)]
  have "length es = length (wk_destinations (flow_worker f))" using assms(4) parts(4) by simp
  from pipe_inv_start[OF parts(1,2) assms(2,3) this] parts(3) show ?thesis
    by (auto simp: pipe_good_def flow_pipe_def pipe_start_def stage_start_def pool_start_def)
qed

lemma flow_pipe_accepted [simp]: "st_accepted (fst (flow_pipe f es m)) = []"
  by (simp add: flow_pipe_def pipe_start_def stage_start_def)

text \<open>The limit and the separator an accumulator was made with.\<close>

definition acc_limit :: "accumulator \<Rightarrow> int" where
  "acc_limit A = (case A of BySize acc \<Rightarrow> limitOfBytes acc | ByTimeAndSize acc \<Rightarrow> limitOfBytes acc)"

definition acc_separator :: "accumulator \<Rightarrow> bytes" where
  "acc_separator A = (case A of BySize acc \<Rightarrow> separator acc | ByTimeAndSize acc \<Rightarrow> separator acc)"

lemma started_accumulator:
  assumes "flow_connected env cf f" and "fw_Accumulator f = Some (A, b)"
  shows "accumulator_new (acc_limit A) (acc_separator A) A \<and>
    acc_separator A = string_bytes (ac_Separator (fl_Accumulator cf))"
proof -
  obtain n where n: "accumulator_made (fl_Accumulator cf) n A"
    using assms by (auto simp: flow_connected_def Let_def)
  show ?thesis
  proof (cases A)
    case (BySize acc)
    with n have new: "NewAccumulatorBySize n (string_bytes (ac_Separator (fl_Accumulator cf)))
        (ac_QueueCapacity (fl_Accumulator cf)) = Ret acc" by (simp add: accumulator_made_def)
    then have "limitOfBytes acc = n" "separator acc = string_bytes (ac_Separator (fl_Accumulator cf))"
      by (auto simp: NewAccumulatorBySize_def go_ret_iff split: if_splits)
    with new BySize show ?thesis
      by (auto simp: accumulator_new_def acc_limit_def acc_separator_def)
  next
    case (ByTimeAndSize acc)
    with n have new: "NewAccumulatorByTimeAndSize n (string_bytes (ac_Separator (fl_Accumulator cf)))
        (ac_QueueCapacity (fl_Accumulator cf))
        (forceFlushDuration (ac_ForceFlushAfterSeconds (fl_Accumulator cf))) = Ret acc"
      by (simp add: accumulator_made_def)
    then have "limitOfBytes acc = n" "separator acc = string_bytes (ac_Separator (fl_Accumulator cf))"
      by (auto simp: NewAccumulatorByTimeAndSize_def go_ret_iff split: if_splits)
    with new ByTimeAndSize show ?thesis
      by (auto simp: accumulator_new_def acc_limit_def acc_separator_def)
  qed
qed

text \<open>The sample application: its one flow starts as the sample uploader and accumulator.\<close>

lemma sample_flow_made:
  "\<exists>f a g. app_Start sample_env (sample_config 2) sample_fp_env = Ret ([f], a, g) \<and>
     flow_connected sample_env (sample_flow_config 2) f \<and> flow_uploader f = sample_uploader 2 \<and>
     (\<exists>b. fw_Accumulator f = Some (BySize sample_by_size, b)) \<and> up_filePathProvider (fw_world f) = sample_fp"
proof -
  obtain f a g where st: "app_Start sample_env (sample_config 2) sample_fp_env = Ret ([f], a, g)"
    using sample_starts by blast
  obtain e' where fs: "createFlows sample_env (co_Flows (sample_config 2)) sample_fp_env = Ret ([f], e')"
    by (rule app_Start_parts[OF st])
  from createFlows_all[OF sample_config_accepted fs sample_fp_env_ok]
  have c: "flow_connected sample_env (sample_flow_config 2) f" by (simp add: sample_config_def)
  from fs have "createFlow sample_env (sample_flow_config 2) sample_fp_env = Ret (f, e')"
    by (auto simp: createFlows_def sample_config_def go_bind_Ret_iff)
  then have fp: "up_filePathProvider (fw_world f) = sample_fp"
    by (rule createFlow_parts)
       (simp add: NewFilePather_def uuid_New_def sample_fp_def sample_fp_env_def sample_flow_config_def)
  have m: "fl_MaxConcurrentUploads (sample_flow_config 2) = 1" "fl_QueueMaxSize (sample_flow_config 2) = 2"
    by (simp_all add: sample_flow_config_def)
  obtain u w where "NewUploader 1 2 = Ret u" "new_up_world 1 sample_fp = Ret w"
    "sample_uploader 2 = stage_start (startRun_uploader u) w" using sample_uploader_made by blast
  with started_flow_parts(1,2)[OF c] fp have "flow_uploader f = sample_uploader 2"
    by (simp add: flow_uploader_def m)
  moreover have "\<exists>b. fw_Accumulator f = Some (BySize sample_by_size, b)"
  proof (cases "fw_Accumulator f")
    case None
    with c show ?thesis by (simp add: flow_connected_def Let_def sample_sizes)
  next
    case (Some ab)
    with c have "accumulator_made (fl_Accumulator (sample_flow_config 2)) 5 (fst ab)"
      by (auto simp: flow_connected_def Let_def sample_sizes)
    with Some sample_accumulators(1) show ?thesis
      by (cases ab; cases "fst ab")
         (auto simp: accumulator_made_def sample_flow_config_def HasForceFlushPeriod_def
           dontAccumulateByTime_def string_bytes_def)
  qed
  ultimately show ?thesis using st c fp by blast
qed

lemma started_flow_live:
  assumes "Config_New unmarshal confData = Inr c" and "app_Start env c e = Ret (flows, a, g)"
    and "intn_in_range e" and "f \<in> set flows" and "fw_Accumulator f = Some (A, b)"
    and "length es = length (fw_ObjStorages f)"
  shows "pipe_good (flow_worker f) (workInFlight m) (flow_pipe f es m) \<and>
    accumulator_new (acc_limit A) (acc_separator A) A \<and>
    length (wk_destinations (flow_worker f)) = length (fw_ObjStorages f)"
proof -
  obtain cf where cf: "flow_connected env cf f" "0 < fl_MaxConcurrentUploads cf"
    "pather_ok (up_filePathProvider (fw_world f))" by (rule started_flow[OF assms(1-4)])
  from started_pipe_good[OF this assms(6)] started_accumulator[OF cf(1) assms(5)]
    started_flow_parts(4)[OF cf(1,2)] show ?thesis by blast
qed

definition sample_destination :: "(unit, unit) dst_state" where
  "sample_destination =
     (\<lparr>sw_ext = (), sw_fs = empty_fs, sw_counters = (\<lambda>_. \<lparr>latencyHistogram_count = 0,
        uploadCounter = 0, uploadSuccessCounter = 0, uploadErrorCounter = 0\<rparr>)\<rparr>,
      \<lparr>qw_ext = (), qw_counters = (\<lambda>_. \<lparr>qc_latency_count = 0, qc_enqueueCounter = 0,
        qc_enqueueErrorCounter = 0, qc_enqueueSuccessCounter = 0\<rparr>)\<rparr>)"

lemma sample_flow_parts:
  "\<exists>f a g b. app_Start sample_env (sample_config 2) sample_fp_env = Ret ([f], a, g) \<and>
     fw_Accumulator f = Some (BySize sample_by_size, b) \<and> length (fw_ObjStorages f) = 1 \<and>
     flow_pipe f [sample_destination] m = (sample_uploader 2, snd (flow_pipe f [sample_destination] m)) \<and>
     pipe_good (flow_worker f) (workInFlight m) (flow_pipe f [sample_destination] m) \<and>
     accumulator_new (acc_limit (BySize sample_by_size)) (acc_separator (BySize sample_by_size))
       (BySize sample_by_size)"
proof -
  obtain f a g b where st: "app_Start sample_env (sample_config 2) sample_fp_env = Ret ([f], a, g)"
    and c: "flow_connected sample_env (sample_flow_config 2) f"
    and f: "flow_uploader f = sample_uploader 2" "fw_Accumulator f = Some (BySize sample_by_size, b)"
      "up_filePathProvider (fw_world f) = sample_fp"
    using sample_flow_made by blast
  have pos: "0 < fl_MaxConcurrentUploads (sample_flow_config 2)" by (simp add: sample_flow_config_def)
  have one: "length (fw_ObjStorages f) = 1"
  proof -
    from c have "length (wk_destinations (flow_worker f)) = length (fl_ObjectStorages (sample_flow_config 2))"
      unfolding flow_connected_def flow_worker_def Let_def by (elim conjE)
    with started_flow_parts(4)[OF c pos] show ?thesis by (simp add: sample_flow_config_def)
  qed
  have "pipe_good (flow_worker f) (workInFlight m) (flow_pipe f [sample_destination] m)"
    by (rule started_pipe_good[OF c pos]) (simp_all add: f(3) sample_fp_ok one)
  moreover have "fst (flow_pipe f [sample_destination] m) = sample_uploader 2"
    using f(1) by (simp add: flow_pipe_def pipe_start_def flow_uploader_def)
  ultimately show ?thesis
    using st f(2) one started_accumulator[OF c f(2)] by (metis prod.collapse)
qed

lemma sample_flow_ingest:
  assumes "app_Start sample_env (sample_config 2) sample_fp_env = Ret ([f], a, g)"
  shows "flow_ingest f = secret_flow"
proof -
  obtain e' where "createFlows sample_env (co_Flows (sample_config 2)) sample_fp_env = Ret ([f], e')"
    by (rule app_Start_parts[OF assms])
  then have "createFlow sample_env (sample_flow_config 2) sample_fp_env = Ret (f, e')"
    by (auto simp: createFlows_def sample_config_def go_bind_Ret_iff)
  then show ?thesis
    by (rule createFlow_parts)
       (use sample_sizes in \<open>simp add: secret_flow_def sample_flow_config_def\<close>)
qed

subsection \<open>Properties\<close>





end
